(* ===== verification/Bor_Prelude.thy ===== *)
theory Bor_Prelude
  imports Main "HOL-Library.Word" "HOL-Library.AList"
begin

text \<open>
  Shared base of the development: the machine types of the Rust code, panics and
  results as sum values, checked and wrapping arithmetic, big-endian byte strings,
  slicing into chunks, decimal printing, and the two map types of the Rust standard
  library that the code uses (\<open>BTreeMap\<close> as a key-sorted list, \<open>HashMap\<close> as an
  association list with distinct keys). The locale \<open>ordered_map\<close> is the contract that
  the users of \<open>BTreeMap\<close> rely on; it is interpreted on the list model below.

  Conventions. An unsigned integer of the code is a word (\<open>u64\<close> is \<open>64 word\<close>); a
  \<open>usize\<close> that counts elements of a vector is a \<open>nat\<close>, since it is bounded by memory;
  an \<open>i64\<close> is an \<open>int\<close> whose range is checked or wrapped at every operation.
  \<open>Inl\<close> is a panic or an error, \<open>Inr\<close> a returned value. The first argument \<open>oc\<close> of an
  arithmetic operation is Cargo's \<open>overflow-checks\<close> flag: on (the dev profile) an
  overflow panics, off (the release profile) it wraps.
\<close>

section \<open>Types and automation\<close>

type_synonym u8 = "8 word"
type_synonym u64 = "64 word"
type_synonym u256 = "256 word"
type_synonym b256 = "256 word"
type_synonym b64 = "64 word"
type_synonym address = "160 word"
type_synonym bytes = "8 word list"
type_synonym i64 = int

named_theorems rust_defs "definitions of the Rust arithmetic and control primitives"
named_theorems map_laws "what a lookup returns after each map operation"
named_theorems byte_simps "lengths and conversions of byte strings"

section \<open>Panics and results\<close>

datatype panic =
    ArithmeticOverflow
  | DivisionByZero
  | RemainderByZero
  | IndexOutOfBounds
  | SliceLengthMismatch
  | RangeStartAfterEnd
  | ExpectFailed string
  | AssertFailed string

text \<open>The \<open>?\<close> operator and the propagation of a panic: stop at the first \<open>Inl\<close>.\<close>

definition bindR :: "'e + 'a \<Rightarrow> ('a \<Rightarrow> 'e + 'b) \<Rightarrow> 'e + 'b" where
  "bindR r f = (case r of Inl e \<Rightarrow> Inl e | Inr x \<Rightarrow> f x)"

definition map_err :: "('e \<Rightarrow> 'f) \<Rightarrow> 'e + 'a \<Rightarrow> 'f + 'a" where
  "map_err g r = (case r of Inl e \<Rightarrow> Inl (g e) | Inr x \<Rightarrow> Inr x)"

definition ensure :: "bool \<Rightarrow> 'e \<Rightarrow> 'e + unit" where
  "ensure b e = (if b then Inr () else Inl e)"

text \<open>A call that can both panic and return an error of its own type.\<close>

datatype 'e failure = Panic panic | Err 'e

section \<open>Arithmetic\<close>

definition u64_add :: "bool \<Rightarrow> u64 \<Rightarrow> u64 \<Rightarrow> panic + u64" where
  "u64_add oc a b =
     (if oc \<and> 2 ^ 64 \<le> unat a + unat b then Inl ArithmeticOverflow else Inr (a + b))"

definition saturating_sub :: "u64 \<Rightarrow> u64 \<Rightarrow> u64" where
  "saturating_sub a b = (if a < b then 0 else a - b)"

definition u64_div :: "u64 \<Rightarrow> u64 \<Rightarrow> panic + u64" where
  "u64_div a b = (if b = 0 then Inl DivisionByZero else Inr (a div b))"

definition u64_rem :: "u64 \<Rightarrow> u64 \<Rightarrow> panic + u64" where
  "u64_rem a b = (if b = 0 then Inl RemainderByZero else Inr (a mod b))"

text \<open>\<open>usize\<close> subtraction: below zero it panics, or wraps when the checks are off.\<close>

definition usize_sub :: "bool \<Rightarrow> nat \<Rightarrow> nat \<Rightarrow> panic + nat" where
  "usize_sub oc a b =
     (if b \<le> a then Inr (a - b)
      else if oc then Inl ArithmeticOverflow
      else Inr (2 ^ 64 + a - b))"

definition i64_wrap :: "int \<Rightarrow> int" where
  "i64_wrap x = (x + 2 ^ 63) mod 2 ^ 64 - 2 ^ 63"

definition i64_range :: "int \<Rightarrow> bool" where
  "i64_range x \<longleftrightarrow> - (2 ^ 63) \<le> x \<and> x < 2 ^ 63"

definition i64_arith :: "bool \<Rightarrow> int \<Rightarrow> panic + int" where
  "i64_arith oc x =
     (if i64_range x then Inr x
      else if oc then Inl ArithmeticOverflow
      else Inr (i64_wrap x))"

section \<open>Byte strings\<close>

text \<open>\<open>to_be_bytes\<close> and \<open>as_slice\<close> of a fixed-size value, and the way back.\<close>

primrec be_bytes :: "nat \<Rightarrow> nat \<Rightarrow> bytes" where
  "be_bytes 0 x = []"
| "be_bytes (Suc n) x = be_bytes n (x div 256) @ [word_of_nat (x mod 256)]"

definition be_value :: "bytes \<Rightarrow> nat" where
  "be_value bs = foldl (\<lambda>acc b. acc * 256 + unat b) 0 bs"

definition address_bytes :: "address \<Rightarrow> bytes" where
  "address_bytes a = be_bytes 20 (unat a)"

text \<open>\<open>Address::from_slice\<close> panics unless the slice has exactly 20 bytes.\<close>

definition address_from_slice :: "bytes \<Rightarrow> panic + address" where
  "address_from_slice bs =
     (if length bs = 20 then Inr (word_of_nat (be_value bs)) else Inl SliceLengthMismatch)"

definition b256_bytes :: "b256 \<Rightarrow> bytes" where
  "b256_bytes h = be_bytes 32 (unat h)"

definition u64_be_bytes :: "u64 \<Rightarrow> bytes" where
  "u64_be_bytes n = be_bytes 8 (unat n)"

text \<open>\<open>chunks_exact n\<close>: the full chunks in order; a shorter rest is dropped.\<close>

function chunks_exact :: "nat \<Rightarrow> 'a list \<Rightarrow> 'a list list" where
  "chunks_exact n xs =
     (if n = 0 \<or> length xs < n then [] else take n xs # chunks_exact n (drop n xs))"
  by pat_completeness auto
termination
  by (relation "measure (\<lambda>(n, xs). length xs)") auto

declare chunks_exact.simps [simp del]

text \<open>Collecting an iterator of fallible values: the first panic wins.\<close>

primrec collectR :: "('e + 'a) list \<Rightarrow> 'e + 'a list" where
  "collectR [] = Inr []"
| "collectR (r # rs) = bindR r (\<lambda>x. bindR (collectR rs) (\<lambda>xs. Inr (x # xs)))"

text \<open>\<open>iter().position(p)\<close>: the index of the first element that satisfies \<open>p\<close>.\<close>

primrec position :: "('a \<Rightarrow> bool) \<Rightarrow> 'a list \<Rightarrow> nat option" where
  "position p [] = None"
| "position p (x # xs) = (if p x then Some 0 else map_option Suc (position p xs))"

section \<open>Decimal printing\<close>

definition digit_char :: "nat \<Rightarrow> char" where
  "digit_char d = char_of (48 + d)"

fun show_nat :: "nat \<Rightarrow> string" where
  "show_nat n = (if n < 10 then [digit_char n] else show_nat (n div 10) @ [digit_char (n mod 10)])"

declare show_nat.simps [simp del]

definition show_u64 :: "u64 \<Rightarrow> string" where
  "show_u64 n = show_nat (unat n)"

text \<open>Reading the digits back, so that two numbers never print alike.\<close>

definition read_nat :: "string \<Rightarrow> nat" where
  "read_nat = foldl (\<lambda>n c. 10 * n + (of_char c - 48)) 0"

lemma read_show_nat: "read_nat (show_nat n) = n"
proof (induction n rule: show_nat.induct)
  case (1 n)
  have digit: "of_char (digit_char d) = 48 + d" if "d < 10" for d :: nat
    using that by (simp add: digit_char_def)
  show ?case
    using 1 digit [of n] digit [of "n mod 10"] by (subst show_nat.simps) (simp add: read_nat_def)
qed

lemma show_u64_inj: "show_u64 m = show_u64 n \<longleftrightarrow> m = n"
  unfolding show_u64_def by (metis read_show_nat word_unat_eq_iff)

section \<open>Ordered maps (BTreeMap)\<close>

type_synonym ('k, 'v) btree = "('k \<times> 'v) list"

definition bt_inv :: "('k::linorder, 'v) btree \<Rightarrow> bool" where
  "bt_inv m \<longleftrightarrow> sorted_wrt (<) (map fst m)"

primrec bt_insert :: "'k::linorder \<Rightarrow> 'v \<Rightarrow> ('k, 'v) btree \<Rightarrow> ('k, 'v) btree" where
  "bt_insert k v [] = [(k, v)]"
| "bt_insert k v (e # m) =
     (if fst e < k then e # bt_insert k v m
      else if fst e = k then (k, v) # m
      else (k, v) # e # m)"

definition bt_get :: "('k, 'v) btree \<Rightarrow> 'k \<Rightarrow> 'v option" where
  "bt_get m k = map_of m k"

text \<open>\<open>split_off\<close> returns the part at and above the key.\<close>

definition bt_split_off :: "'k::linorder \<Rightarrow> ('k, 'v) btree \<Rightarrow> ('k, 'v) btree" where
  "bt_split_off c m = filter (\<lambda>e. c \<le> fst e) m"

text \<open>\<open>range(lo..hi)\<close> iterates in key order and panics when \<open>lo > hi\<close>.\<close>

definition bt_entries :: "'k::linorder \<Rightarrow> 'k \<Rightarrow> ('k, 'v) btree \<Rightarrow> ('k \<times> 'v) list" where
  "bt_entries lo hi m = filter (\<lambda>e. lo \<le> fst e \<and> fst e < hi) m"

definition bt_range :: "'k::linorder \<Rightarrow> 'k \<Rightarrow> ('k, 'v) btree \<Rightarrow> panic + ('k \<times> 'v) list" where
  "bt_range lo hi m = (if hi < lo then Inl RangeStartAfterEnd else Inr (bt_entries lo hi m))"

section \<open>Hash maps (HashMap)\<close>

type_synonym ('k, 'v) hmap = "('k \<times> 'v) list"

definition hm_inv :: "('k, 'v) hmap \<Rightarrow> bool" where
  "hm_inv m \<longleftrightarrow> distinct (map fst m)"

definition hm_get :: "('k, 'v) hmap \<Rightarrow> 'k \<Rightarrow> 'v option" where
  "hm_get m k = map_of m k"

definition hm_insert :: "'k \<Rightarrow> 'v \<Rightarrow> ('k, 'v) hmap \<Rightarrow> ('k, 'v) hmap" where
  "hm_insert k v m = AList.update k v m"

definition hm_remove :: "'k \<Rightarrow> ('k, 'v) hmap \<Rightarrow> ('k, 'v) hmap" where
  "hm_remove k m = AList.delete k m"

definition hm_contains :: "('k, 'v) hmap \<Rightarrow> 'k \<Rightarrow> bool" where
  "hm_contains m k \<longleftrightarrow> hm_get m k \<noteq> None"

section \<open>Lemmas: results\<close>

lemma bindR_simps [simp]:
  "bindR (Inl e) f = Inl e"
  "bindR (Inr x) f = f x"
  by (simp_all add: bindR_def)

lemma bindR_eq_Inr: "bindR r f = Inr y \<longleftrightarrow> (\<exists>x. r = Inr x \<and> f x = Inr y)"
  by (cases r) auto

lemma bindR_eq_Inl: "bindR r f = Inl e \<longleftrightarrow> r = Inl e \<or> (\<exists>x. r = Inr x \<and> f x = Inl e)"
  by (cases r) auto

lemma bindR_assoc: "bindR (bindR r f) g = bindR r (\<lambda>x. bindR (f x) g)"
  by (cases r) simp_all

lemma map_err_simps [simp]:
  "map_err g (Inl e) = Inl (g e)"
  "map_err g (Inr x) = Inr x"
  by (simp_all add: map_err_def)

lemma map_err_eq_Inr [simp]: "map_err g r = Inr x \<longleftrightarrow> r = Inr x"
  by (cases r) auto

lemma map_err_eq_Inl: "map_err g r = Inl f \<longleftrightarrow> (\<exists>e. r = Inl e \<and> f = g e)"
  by (cases r) auto

lemma ensure_eq_Inr [simp]: "ensure b e = Inr u \<longleftrightarrow> b"
  by (simp add: ensure_def)

lemma ensure_eq_Inl [simp]: "ensure b e = Inl e' \<longleftrightarrow> \<not> b \<and> e' = e"
  by (auto simp: ensure_def)

lemma ensure_simps [simp]: "ensure True e = Inr ()" "ensure False e = Inl e"
  by (simp_all add: ensure_def)

lemma collectR_Inr: "collectR (map (\<lambda>x. Inr (f x)) xs) = Inr (map f xs)"
  by (induction xs) auto

lemma collectR_all_Inr: "(\<And>x. x \<in> set xs \<Longrightarrow> g x = Inr (f x)) \<Longrightarrow> collectR (map g xs) = Inr (map f xs)"
  by (induction xs) auto

section \<open>Lemmas: arithmetic\<close>

lemma unat_bound: "unat (w :: 'a::len word) < 2 ^ LENGTH('a)"
  by (rule unsigned_less)

lemma saturating_sub_le [simp]: "saturating_sub a b \<le> a"
  by (auto simp: saturating_sub_def word_le_nat_alt word_less_nat_alt unat_sub_if')

lemma unat_saturating_sub [simp]: "unat (saturating_sub a b) = unat a - unat b"
  by (auto simp: saturating_sub_def word_less_nat_alt unat_sub_if')

lemma not_less_saturating_sub [simp]: "\<not> a < saturating_sub a b"
  by (simp add: not_less)

lemma u64_add_Inr: "u64_add oc a b = Inr c \<Longrightarrow> oc \<Longrightarrow> unat c = unat a + unat b"
  by (auto simp: u64_add_def unat_word_ariths split: if_splits)

lemma u64_add_no_overflow: "unat a + unat b < 2 ^ 64 \<Longrightarrow> u64_add oc a b = Inr (a + b)"
  by (simp add: u64_add_def)

lemma i64_arith_in_range [simp]: "i64_range x \<Longrightarrow> i64_arith oc x = Inr x"
  by (simp add: i64_arith_def)

lemma i64_wrap_range: "i64_range (i64_wrap x)"
proof -
  have "0 \<le> (x + 2 ^ 63) mod 2 ^ 64" and "(x + 2 ^ 63) mod 2 ^ 64 < (2 ^ 64 :: int)"
    by simp_all
  then show ?thesis by (simp add: i64_range_def i64_wrap_def)
qed

lemma i64_arith_range: "i64_arith oc x = Inr y \<Longrightarrow> i64_range y"
  by (auto simp: i64_arith_def i64_wrap_range split: if_splits)

section \<open>Lemmas: byte strings\<close>

lemma length_be_bytes [simp, byte_simps]: "length (be_bytes n x) = n"
  by (induction n arbitrary: x) auto

lemma be_value_snoc: "be_value (bs @ [b]) = be_value bs * 256 + unat b"
  by (simp add: be_value_def)

lemma be_value_Nil [simp]: "be_value [] = 0"
  by (simp add: be_value_def)

lemma be_value_zeros: "be_value (replicate n 0) = 0"
  by (induction n) (simp_all add: be_value_def)

lemma unat_byte_of_nat: "unat (word_of_nat (x mod 256) :: u8) = x mod 256"
  by (simp add: unat_of_nat)

lemma be_value_be_bytes: "be_value (be_bytes n x) = x mod 256 ^ n"
proof (induction n arbitrary: x)
  case 0
  then show ?case by simp
next
  case (Suc n)
  have "be_value (be_bytes (Suc n) x) = (x div 256) mod 256 ^ n * 256 + x mod 256"
    by (simp add: be_value_snoc Suc unat_byte_of_nat)
  also have "\<dots> = x mod 256 ^ Suc n"
    by (simp add: mod_mult2_eq)
  finally show ?case .
qed

lemma be_value_bound: "be_value bs < 256 ^ length bs"
proof (induction bs rule: rev_induct)
  case Nil
  then show ?case by simp
next
  case (snoc b bs)
  have "unat b < 256"
    using unat_bound [of b] by simp
  with snoc show ?case by (simp add: be_value_snoc)
qed

lemma be_bytes_be_value: "be_bytes (length bs) (be_value bs) = bs"
proof (induction bs rule: rev_induct)
  case Nil
  then show ?case by simp
next
  case (snoc b bs)
  have "unat b < 256"
    using unat_bound [of b] by simp
  then show ?case
    by (simp add: be_value_snoc snoc)
qed

lemma be_bytes_inject:
  assumes "x < 256 ^ n" and "y < 256 ^ n" and "be_bytes n x = be_bytes n y"
  shows "x = y"
proof -
  have "x = be_value (be_bytes n x)"
    by (simp only: be_value_be_bytes mod_less [OF assms(1)])
  also have "\<dots> = be_value (be_bytes n y)"
    by (simp only: assms(3))
  also have "\<dots> = y"
    by (simp only: be_value_be_bytes mod_less [OF assms(2)])
  finally show ?thesis .
qed

lemma length_fixed_bytes [simp, byte_simps]:
  "length (address_bytes a) = 20"
  "length (b256_bytes h) = 32"
  "length (u64_be_bytes n) = 8"
  by (simp_all add: address_bytes_def b256_bytes_def u64_be_bytes_def)

lemma address_from_slice_bytes [simp]: "address_from_slice (address_bytes a) = Inr a"
proof -
  have "unat a < 256 ^ 20"
    using unat_bound [of a] by simp
  then show ?thesis
    by (simp add: address_from_slice_def address_bytes_def be_value_be_bytes)
qed

lemma address_bytes_from_slice:
  "address_from_slice bs = Inr a \<Longrightarrow> address_bytes a = bs"
proof -
  assume "address_from_slice bs = Inr a"
  then have len: "length bs = 20" and a: "a = word_of_nat (be_value bs)"
    by (auto simp: address_from_slice_def split: if_splits)
  have "unat a = be_value bs"
    using be_value_bound [of bs] by (simp add: a len unat_of_nat)
  then show "address_bytes a = bs"
    using be_bytes_be_value [of bs] by (simp add: address_bytes_def len)
qed

lemma address_bytes_inject: "address_bytes a = address_bytes b \<Longrightarrow> a = b"
  by (metis address_from_slice_bytes sum.inject(2))

lemma be_bytes_unat_inject:
  fixes a b :: "'a::len word"
  assumes "LENGTH('a) = 8 * n" and "be_bytes n (unat a) = be_bytes n (unat b)"
  shows "a = b"
proof -
  have "(256 :: nat) ^ n = 2 ^ LENGTH('a)"
    by (simp add: assms(1) power_mult)
  then have "unat a < 256 ^ n" and "unat b < 256 ^ n"
    using unat_bound [of a] unat_bound [of b] by simp_all
  with assms(2) have "unat a = unat b"
    by (blast dest: be_bytes_inject)
  then show ?thesis by (simp add: word_unat_eq_iff)
qed

lemma b256_bytes_inject: "b256_bytes a = b256_bytes b \<Longrightarrow> a = b"
  unfolding b256_bytes_def by (rule be_bytes_unat_inject) simp_all

lemma u64_be_bytes_inject: "u64_be_bytes a = u64_be_bytes b \<Longrightarrow> a = b"
  unfolding u64_be_bytes_def by (rule be_bytes_unat_inject) simp_all

section \<open>Lemmas: chunks\<close>

lemma chunks_exact_short [simp]: "length xs < n \<Longrightarrow> chunks_exact n xs = []"
  by (simp add: chunks_exact.simps)

lemma chunks_exact_step:
  "0 < n \<Longrightarrow> length x = n \<Longrightarrow> chunks_exact n (x @ xs) = x # chunks_exact n xs"
  by (subst chunks_exact.simps) simp

lemma chunks_exact_lengths: "c \<in> set (chunks_exact n xs) \<Longrightarrow> length c = n"
proof (induction n xs rule: chunks_exact.induct)
  case (1 n xs)
  then show ?case
    by (subst (asm) chunks_exact.simps [of n xs]) (auto split: if_splits)
qed

lemma chunks_exact_concat:
  assumes "0 < n" and "\<And>c. c \<in> set cs \<Longrightarrow> length c = n"
  shows "chunks_exact n (concat cs) = cs"
  using assms(2) by (induction cs) (use assms(1) in \<open>simp_all add: chunks_exact_step\<close>)

lemma concat_chunks_exact: "0 < n \<Longrightarrow> n dvd length xs \<Longrightarrow> concat (chunks_exact n xs) = xs"
proof (induction n xs rule: chunks_exact.induct)
  case (1 n xs)
  show ?case
  proof (cases "length xs < n")
    case True
    with "1.prems" have "xs = []" by (auto dest: dvd_imp_le)
    with True show ?thesis by simp
  next
    case False
    then have "concat (chunks_exact n (drop n xs)) = drop n xs"
      using 1 by (simp add: dvd_diff_nat)
    with False "1.prems" show ?thesis
      by (subst chunks_exact.simps) simp
  qed
qed

lemma length_chunks_exact: "0 < n \<Longrightarrow> length (chunks_exact n xs) = length xs div n"
proof (induction n xs rule: chunks_exact.induct)
  case (1 n xs)
  then show ?case
    by (subst chunks_exact.simps) (auto simp: le_div_geq)
qed

section \<open>Lemmas: positions\<close>

lemma position_None_iff: "position p xs = None \<longleftrightarrow> (\<forall>x\<in>set xs. \<not> p x)"
  by (induction xs) auto

lemma position_Some:
  "position p xs = Some i \<Longrightarrow> i < length xs \<and> p (xs ! i) \<and> (\<forall>j<i. \<not> p (xs ! j))"
proof (induction xs arbitrary: i)
  case Nil
  then show ?case by simp
next
  case (Cons x xs)
  then show ?case by (auto split: if_splits simp: nth_Cons split: nat.splits)
qed

lemma position_distinct:
  assumes "distinct xs" and "i < length xs"
  shows "position (\<lambda>v. v = xs ! i) xs = Some i"
proof -
  have "position (\<lambda>v. v = xs ! i) xs \<noteq> None"
    using assms(2) by (simp add: position_None_iff)
  then obtain j where "position (\<lambda>v. v = xs ! i) xs = Some j" by blast
  with assms show ?thesis by (auto dest!: position_Some simp: nth_eq_iff_index_eq)
qed

section \<open>Lemmas: ordered maps\<close>

lemma bt_inv_Nil [simp]: "bt_inv []"
  by (simp add: bt_inv_def)

lemma bt_inv_distinct: "bt_inv m \<Longrightarrow> distinct (map fst m)"
  by (simp add: bt_inv_def strict_sorted_iff)

lemma fst_set_bt_insert: "fst ` set (bt_insert k v m) = insert k (fst ` set m)"
  by (induction m) auto

lemma bt_inv_insert [intro]: "bt_inv m \<Longrightarrow> bt_inv (bt_insert k v m)"
proof (induction m)
  case Nil
  then show ?case by (simp add: bt_inv_def)
next
  case (Cons e m)
  have keys: "set (map fst (bt_insert k v m)) = insert k (fst ` set m)"
    by (simp add: fst_set_bt_insert)
  show ?case
    using Cons keys by (fastforce simp: bt_inv_def)
qed

lemma bt_get_insert [map_laws]:
  "bt_inv m \<Longrightarrow> bt_get (bt_insert k v m) k' = (if k' = k then Some v else bt_get m k')"
proof (induction m)
  case Nil
  then show ?case by (simp add: bt_get_def)
next
  case (Cons e m)
  then show ?case by (cases e) (auto simp: bt_get_def bt_inv_def)
qed

lemma map_of_filter_fst: "map_of (filter (\<lambda>e. P (fst e)) m) k = (if P k then map_of m k else None)"
  by (induction m) auto

lemma bt_get_split_off [map_laws]:
  "bt_get (bt_split_off c m) k = (if c \<le> k then bt_get m k else None)"
  by (simp add: bt_get_def bt_split_off_def map_of_filter_fst [where P = "\<lambda>k. c \<le> k"])

lemma bt_inv_split_off [intro]: "bt_inv m \<Longrightarrow> bt_inv (bt_split_off c m)"
  by (simp add: bt_inv_def bt_split_off_def sorted_wrt_map sorted_wrt_filter)

lemma bt_mem_iff: "bt_inv m \<Longrightarrow> (k, v) \<in> set m \<longleftrightarrow> bt_get m k = Some v"
  by (simp add: bt_get_def bt_inv_distinct)

lemma set_bt_entries:
  "bt_inv m \<Longrightarrow> (k, v) \<in> set (bt_entries lo hi m) \<longleftrightarrow> lo \<le> k \<and> k < hi \<and> bt_get m k = Some v"
  by (auto simp: bt_entries_def bt_mem_iff)

lemma bt_range_saturating [simp]:
  "bt_range (saturating_sub n w) n m = Inr (bt_entries (saturating_sub n w) n m)"
  by (simp add: bt_range_def)

section \<open>The ordered-map contract\<close>

text \<open>
  What \<open>Recents\<close>, \<open>BorSnapshot\<close> and the header check rely on: how a lookup behaves after
  an insertion and a \<open>split_off\<close>, and which entries a range iteration visits.
\<close>

locale ordered_map =
  fixes empty :: "'m"
    and lookup :: "'m \<Rightarrow> 'k::linorder \<Rightarrow> 'v option"
    and ins :: "'k \<Rightarrow> 'v \<Rightarrow> 'm \<Rightarrow> 'm"
    and split_at :: "'k \<Rightarrow> 'm \<Rightarrow> 'm"
    and entries :: "'k \<Rightarrow> 'k \<Rightarrow> 'm \<Rightarrow> ('k \<times> 'v) list"
    and invar :: "'m \<Rightarrow> bool"
  assumes invar_empty: "invar empty"
    and lookup_empty: "lookup empty k = None"
    and invar_ins: "invar m \<Longrightarrow> invar (ins k v m)"
    and lookup_ins: "invar m \<Longrightarrow> lookup (ins k v m) k' = (if k' = k then Some v else lookup m k')"
    and invar_split: "invar m \<Longrightarrow> invar (split_at c m)"
    and lookup_split: "invar m \<Longrightarrow> lookup (split_at c m) k = (if c \<le> k then lookup m k else None)"
    and set_entries: "invar m \<Longrightarrow>
      (k, v) \<in> set (entries lo hi m) \<longleftrightarrow> lo \<le> k \<and> k < hi \<and> lookup m k = Some v"
begin

text \<open>A scan of a range sees a value exactly when some key of the range is bound to it.\<close>

lemma scan_iff:
  "invar m \<Longrightarrow> v \<in> snd ` set (entries lo hi m) \<longleftrightarrow> (\<exists>k. lo \<le> k \<and> k < hi \<and> lookup m k = Some v)"
proof -
  assume inv: "invar m"
  have "v \<in> snd ` set (entries lo hi m) \<longleftrightarrow> (\<exists>k. (k, v) \<in> set (entries lo hi m))"
    by force
  then show ?thesis
    by (simp add: set_entries [OF inv])
qed

text \<open>Cutting off keys below the range does not change the scan.\<close>

lemma scan_split:
  "invar m \<Longrightarrow> c \<le> lo \<Longrightarrow>
     snd ` set (entries lo hi (split_at c m)) = snd ` set (entries lo hi m)"
  by (rule set_eqI) (auto simp: scan_iff invar_split lookup_split intro: order_trans)

text \<open>An insertion at or above the end of the range is not seen by the scan.\<close>

lemma scan_ins_outside:
  "invar m \<Longrightarrow> hi \<le> k \<Longrightarrow>
     snd ` set (entries lo hi (ins k v m)) = snd ` set (entries lo hi m)"
  by (rule set_eqI) (auto simp: scan_iff invar_ins lookup_ins)

text \<open>Inserting and then cutting off: the record step of the signer logs.\<close>

lemma lookup_ins_split:
  "invar m \<Longrightarrow> lookup (split_at c (ins k v m)) k' =
     (if c \<le> k' then if k' = k then Some v else lookup m k' else None)"
  by (simp add: lookup_split invar_ins lookup_ins)

end

interpretation bt: ordered_map "[]" bt_get bt_insert bt_split_off bt_entries bt_inv
  by unfold_locales
    (auto simp: bt_get_insert bt_get_split_off set_bt_entries, simp add: bt_get_def)

section \<open>Lemmas: hash maps\<close>

lemma hm_inv_Nil [simp]: "hm_inv []"
  by (simp add: hm_inv_def)

lemma hm_inv_insert [intro]: "hm_inv m \<Longrightarrow> hm_inv (hm_insert k v m)"
  by (simp add: hm_inv_def hm_insert_def distinct_update)

lemma hm_inv_remove [intro]: "hm_inv m \<Longrightarrow> hm_inv (hm_remove k m)"
  by (simp add: hm_inv_def hm_remove_def distinct_delete)

lemma hm_get_Nil [simp]: "hm_get [] k = None"
  by (simp add: hm_get_def)

lemma hm_get_insert [map_laws]: "hm_get (hm_insert k v m) k' = (if k' = k then Some v else hm_get m k')"
  by (simp add: hm_get_def hm_insert_def update_conv')

lemma hm_get_remove [map_laws]: "hm_get (hm_remove k m) k' = (if k' = k then None else hm_get m k')"
  by (simp add: hm_get_def hm_remove_def delete_conv')

lemma hm_keys_insert: "fst ` set (hm_insert k v m) = insert k (fst ` set m)"
  by (simp add: hm_insert_def dom_update)

lemma hm_keys_remove: "fst ` set (hm_remove k m) = fst ` set m - {k}"
  by (simp add: hm_remove_def set_map [symmetric] delete_keys del: set_map)

lemma hm_contains_iff: "hm_contains m k \<longleftrightarrow> k \<in> fst ` set m"
  by (simp add: hm_contains_def hm_get_def map_of_eq_None_iff)

lemma hm_length: "hm_inv m \<Longrightarrow> length m = card (fst ` set m)"
  using distinct_card [of "map fst m"] by (simp add: hm_inv_def)

section \<open>Runs and simulations\<close>

fun run_calls :: "('s \<Rightarrow> 'op \<Rightarrow> 's \<times> 'out) \<Rightarrow> 's \<Rightarrow> 'op list \<Rightarrow> 's \<times> 'out list" where
  "run_calls step s [] = (s, [])"
| "run_calls step s (op # ops) =
     (let (s1, x) = step s op; (s2, xs) = run_calls step s1 ops in (s2, x # xs))"

lemma run_calls_append:
  "run_calls step s (xs @ ys) =
     (let (s1, as) = run_calls step s xs; (s2, bs) = run_calls step s1 ys in (s2, as @ bs))"
  by (induction xs arbitrary: s) (simp_all add: split_beta Let_def)

lemma length_run_calls [simp]: "length (snd (run_calls step s ops)) = length ops"
  by (induction ops arbitrary: s) (simp_all add: split_beta Let_def)

locale simulation =
  fixes cstep :: "'c \<Rightarrow> 'op \<Rightarrow> 'c \<times> 'out"
    and astep :: "'a \<Rightarrow> 'op \<Rightarrow> 'a \<times> 'out"
    and rel :: "'c \<Rightarrow> 'a \<Rightarrow> bool"
    and enabled :: "'op \<Rightarrow> bool"
  assumes step_rel: "rel c a \<Longrightarrow> enabled op \<Longrightarrow> rel (fst (cstep c op)) (fst (astep a op))"
    and step_out: "rel c a \<Longrightarrow> enabled op \<Longrightarrow> snd (cstep c op) = snd (astep a op)"
begin

lemma run_simulates:
  assumes "rel c a" and "\<forall>op\<in>set ops. enabled op"
  shows "rel (fst (run_calls cstep c ops)) (fst (run_calls astep a ops))"
    and "snd (run_calls cstep c ops) = snd (run_calls astep a ops)"
proof -
  have "rel (fst (run_calls cstep c ops)) (fst (run_calls astep a ops)) \<and>
      snd (run_calls cstep c ops) = snd (run_calls astep a ops)"
    using assms
  proof (induction ops arbitrary: c a)
    case Nil
    then show ?case by simp
  next
    case (Cons op ops)
    then have "enabled op" and rel: "rel c a" by simp_all
    note step = step_rel [OF rel this(1)] step_out [OF rel this(1)]
    from Cons.IH [OF step(1)] Cons.prems(2) step(2) show ?case by (simp add: split_beta Let_def)
  qed
  then show "rel (fst (run_calls cstep c ops)) (fst (run_calls astep a ops))"
    and "snd (run_calls cstep c ops) = snd (run_calls astep a ops)" by simp_all
qed

end

end
