(* ===== verification/Bor_Chainspec.thy ===== *)
theory Bor_Chainspec
  imports Bor_Prelude
begin

text \<open>
  The crate \<open>bor-chainspec\<close>: constants, the hardfork enumeration with its activation
  blocks, the fork-dependent parameters, and \<open>BorChainSpec\<close> with its fork identifier
  computation. Reth's \<open>ChainSpec\<close>, \<open>ForkHash\<close> and genesis parser are not part of this
  repository: they are a type variable \<open>'i\<close> and a record of the operations that the code
  calls on it (\<open>inner_ops\<close>).
\<close>

section \<open>constants.rs\<close>

definition SYSTEM_ADDRESS :: address where
  "SYSTEM_ADDRESS = 0xfffffffffffffffffffffffffffffffffffffffe"

definition BOR_VALIDATOR_SET_ADDRESS :: address where
  "BOR_VALIDATOR_SET_ADDRESS = 0x1000"

definition STATE_RECEIVER_ADDRESS :: address where
  "STATE_RECEIVER_ADDRESS = 0x1001"

definition MAINNET_CHAIN_ID :: u64 where "MAINNET_CHAIN_ID = 137"
definition AMOY_CHAIN_ID :: u64 where "AMOY_CHAIN_ID = 80002"
definition SPRINT_SIZE :: u64 where "SPRINT_SIZE = 16"
definition BLOCK_PERIOD :: u64 where "BLOCK_PERIOD = 2"
definition EXTRADATA_VANITY_LEN :: nat where [simp]: "EXTRADATA_VANITY_LEN = 32"
definition EXTRADATA_SEAL_LEN :: nat where [simp]: "EXTRADATA_SEAL_LEN = 65"
definition STATE_SYNC_DELAY :: u64 where "STATE_SYNC_DELAY = 128"
definition VALIDATOR_PRODUCER_TIMEOUT :: u64 where "VALIDATOR_PRODUCER_TIMEOUT = 8"

section \<open>hardfork.rs\<close>

datatype bor_hardfork =
    Delhi | Indore | Agra | Napoli | Ahmedabad | Bhilai | Rio | Madhugiri | Dandeli | Lisovo

text \<open>The derived \<open>Ord\<close> of a Rust enum compares the positions of the variants.\<close>

primrec variant_index :: "bor_hardfork \<Rightarrow> nat" where
  "variant_index Delhi = 0"
| "variant_index Indore = 1"
| "variant_index Agra = 2"
| "variant_index Napoli = 3"
| "variant_index Ahmedabad = 4"
| "variant_index Bhilai = 5"
| "variant_index Rio = 6"
| "variant_index Madhugiri = 7"
| "variant_index Dandeli = 8"
| "variant_index Lisovo = 9"

lemma variant_index_inject [simp]: "variant_index f = variant_index g \<longleftrightarrow> f = g"
  by (cases f; cases g) simp_all

instantiation bor_hardfork :: linorder
begin

definition less_eq_bor_hardfork :: "bor_hardfork \<Rightarrow> bor_hardfork \<Rightarrow> bool" where
  "less_eq_bor_hardfork f g \<longleftrightarrow> variant_index f \<le> variant_index g"

definition less_bor_hardfork :: "bor_hardfork \<Rightarrow> bor_hardfork \<Rightarrow> bool" where
  "less_bor_hardfork f g \<longleftrightarrow> variant_index f < variant_index g"

instance
  by standard (auto simp: less_eq_bor_hardfork_def less_bor_hardfork_def)

end

primrec mainnet_block :: "bor_hardfork \<Rightarrow> u64" where
  "mainnet_block Delhi = 38189056"
| "mainnet_block Indore = 44934656"
| "mainnet_block Agra = 50523000"
| "mainnet_block Napoli = 68195328"
| "mainnet_block Ahmedabad = 73100000"
| "mainnet_block Bhilai = 76000000"
| "mainnet_block Rio = 77414656"
| "mainnet_block Madhugiri = 80084800"
| "mainnet_block Dandeli = 81900000"
| "mainnet_block Lisovo = 83756500"

primrec amoy_block :: "bor_hardfork \<Rightarrow> u64" where
  "amoy_block Delhi = 73100"
| "amoy_block Indore = 73100"
| "amoy_block Agra = 73100"
| "amoy_block Napoli = 73100"
| "amoy_block Ahmedabad = 11865856"
| "amoy_block Bhilai = 22765056"
| "amoy_block Rio = 26272256"
| "amoy_block Madhugiri = 28899616"
| "amoy_block Dandeli = 31890000"
| "amoy_block Lisovo = 33634700"

definition all_hardforks :: "bor_hardfork list" where
  "all_hardforks =
     [Delhi, Indore, Agra, Napoli, Ahmedabad, Bhilai, Rio, Madhugiri, Dandeli, Lisovo]"

primrec hardfork_name :: "bor_hardfork \<Rightarrow> string" where
  "hardfork_name Delhi = ''Delhi''"
| "hardfork_name Indore = ''Indore''"
| "hardfork_name Agra = ''Agra''"
| "hardfork_name Napoli = ''Napoli''"
| "hardfork_name Ahmedabad = ''Ahmedabad''"
| "hardfork_name Bhilai = ''Bhilai''"
| "hardfork_name Rio = ''Rio''"
| "hardfork_name Madhugiri = ''Madhugiri''"
| "hardfork_name Dandeli = ''Dandeli''"
| "hardfork_name Lisovo = ''Lisovo''"

text \<open>The fork as it is displayed.\<close>

definition show_bor_hardfork :: "bor_hardfork \<Rightarrow> string" where
  "show_bor_hardfork f = hardfork_name f"

text \<open>
  \<open>to_lowercase\<close> on bytes. A non-ASCII character is left as it is: none of them has a
  lower case that occurs in one of the names matched below.
\<close>

definition char_lower :: "char \<Rightarrow> char" where
  "char_lower c = (if 65 \<le> (of_char c :: nat) \<and> (of_char c :: nat) \<le> 90
     then char_of ((of_char c :: nat) + 32) else c)"

definition to_lowercase :: "string \<Rightarrow> string" where
  "to_lowercase s = map char_lower s"

definition hardfork_from_str :: "string \<Rightarrow> string + bor_hardfork" where
  "hardfork_from_str s =
     (let l = to_lowercase s in
      if l = ''delhi'' then Inr Delhi
      else if l = ''indore'' then Inr Indore
      else if l = ''agra'' then Inr Agra
      else if l = ''napoli'' then Inr Napoli
      else if l = ''ahmedabad'' then Inr Ahmedabad
      else if l = ''bhilai'' then Inr Bhilai
      else if l = ''rio'' then Inr Rio
      else if l = ''madhugiri'' then Inr Madhugiri
      else if l = ''dandeli'' then Inr Dandeli
      else if l = ''lisovo'' then Inr Lisovo
      else Inl (''unknown Bor hardfork: '' @ s))"

section \<open>params.rs\<close>

definition sprint_size :: "u64 \<Rightarrow> u64" where
  "sprint_size block = (if block < mainnet_block Delhi then 64 else 16)"

definition span_size :: "u64 \<Rightarrow> u64" where
  "span_size block = (if block < mainnet_block Rio then 6400 else 1600)"

definition block_gas_limit :: "u64 \<Rightarrow> u64" where
  "block_gas_limit block = (if block < mainnet_block Bhilai then 30000000 else 45000000)"

definition base_fee_change_denominator :: "u64 \<Rightarrow> u64" where
  "base_fee_change_denominator block =
     (if mainnet_block Bhilai \<le> block then 64
      else if mainnet_block Delhi \<le> block then 16
      else 8)"

definition is_sprint_start :: "u64 \<Rightarrow> panic + bool" where
  "is_sprint_start block = bindR (u64_rem block (sprint_size block)) (\<lambda>r. Inr (r = 0))"

definition is_span_start :: "u64 \<Rightarrow> u64 \<Rightarrow> panic + bool" where
  "is_span_start block sz = bindR (u64_rem block sz) (\<lambda>r. Inr (r = 0))"

definition max_code_size :: "u64 \<Rightarrow> nat" where
  "max_code_size block = 24576"

section \<open>chainspec.rs\<close>

text \<open>Reth's activation conditions, as the code matches on them.\<close>

datatype fork_condition =
    Block u64
  | TTD u64 "u64 option" u256
  | Timestamp u64
  | Never

text \<open>
  The operations of Reth's \<open>ChainSpec\<close> and \<open>ForkHash\<close> that the code calls. A hardfork
  argument of \<open>Hardforks::fork\<close> is used by its name only.
\<close>

record ('i, 'h) inner_ops =
  io_forks_iter :: "'i \<Rightarrow> (string \<times> fork_condition) list"
  io_fork :: "'i \<Rightarrow> string \<Rightarrow> fork_condition"
  io_chain_id :: "'i \<Rightarrow> u64"
  io_genesis_hash :: "'i \<Rightarrow> b256"
  io_genesis_timestamp :: "'i \<Rightarrow> u64"
  io_hash_from :: "b256 \<Rightarrow> 'h"
  io_hash_add :: "'h \<Rightarrow> u64 \<Rightarrow> 'h"

record 'i bor_chain_spec =
  cs_inner :: 'i
  cs_bor_hardforks :: "(bor_hardfork, fork_condition) btree"

record 'h fork_id =
  fi_hash :: 'h
  fi_next :: u64

text \<open>The ordering assertion of \<open>BorChainSpec::new\<close>; the first argument is \<open>prev_block\<close>.\<close>

fun check_fork_order :: "u64 option \<Rightarrow> (bor_hardfork \<times> fork_condition) list \<Rightarrow> panic + unit" where
  "check_fork_order prev [] = Inr ()"
| "check_fork_order prev ((fork, Block block) # rest) =
     bindR (case prev of
         Some p \<Rightarrow> ensure (p \<le> block)
           (AssertFailed (''Bor hardfork '' @ hardfork_name fork @ '' activates at block '' @
              show_u64 block @ '' which is before previous fork at block '' @ show_u64 p))
       | None \<Rightarrow> Inr ())
       (\<lambda>_. check_fork_order (Some block) rest)"
| "check_fork_order prev ((fork, cond) # rest) = check_fork_order prev rest"

definition bor_chain_spec_new ::
    "'i \<Rightarrow> (bor_hardfork, fork_condition) btree \<Rightarrow> panic + 'i bor_chain_spec" where
  "bor_chain_spec_new inner forks =
     bindR (check_fork_order None forks)
       (\<lambda>_. Inr \<lparr>cs_inner = inner, cs_bor_hardforks = forks\<rparr>)"

definition chain_spec_inner :: "'i bor_chain_spec \<Rightarrow> 'i" where
  "chain_spec_inner cs = cs_inner cs"

definition into_inner :: "'i bor_chain_spec \<Rightarrow> 'i" where
  "into_inner cs = cs_inner cs"

definition bor_hardforks :: "'i bor_chain_spec \<Rightarrow> (bor_hardfork, fork_condition) btree" where
  "bor_hardforks cs = cs_bor_hardforks cs"

fun fork_block_of :: "fork_condition \<Rightarrow> u64 option" where
  "fork_block_of (Block b) = Some b"
| "fork_block_of (TTD _ (Some b) _) = Some b"
| "fork_block_of _ = None"

definition eth_fork_blocks :: "('i, 'h) inner_ops \<Rightarrow> 'i bor_chain_spec \<Rightarrow> u64 list" where
  "eth_fork_blocks ops cs =
     filter (\<lambda>b. b \<noteq> 0)
       (remdups_adj (sort (List.map_filter (\<lambda>f. fork_block_of (snd f))
         (io_forks_iter ops (cs_inner cs)))))"

fun fork_id_loop :: "('h \<Rightarrow> u64 \<Rightarrow> 'h) \<Rightarrow> u64 \<Rightarrow> 'h \<Rightarrow> u64 list \<Rightarrow> 'h fork_id" where
  "fork_id_loop add head h [] = \<lparr>fi_hash = h, fi_next = 0\<rparr>"
| "fork_id_loop add head h (b # bs) =
     (if b \<le> head then fork_id_loop add head (add h b) bs
      else \<lparr>fi_hash = h, fi_next = b\<rparr>)"

definition compute_fork_id :: "('i, 'h) inner_ops \<Rightarrow> 'i bor_chain_spec \<Rightarrow> u64 \<Rightarrow> 'h fork_id" where
  "compute_fork_id ops cs head =
     fork_id_loop (io_hash_add ops) head
       (io_hash_from ops (io_genesis_hash ops (cs_inner cs))) (eth_fork_blocks ops cs)"

definition is_bor_fork_active_at_block :: "'i bor_chain_spec \<Rightarrow> bor_hardfork \<Rightarrow> u64 \<Rightarrow> bool" where
  "is_bor_fork_active_at_block cs fork block =
     (case bt_get (cs_bor_hardforks cs) fork of
        Some (Block activation) \<Rightarrow> activation \<le> block
      | Some Never \<Rightarrow> False
      | Some _ \<Rightarrow> False
      | None \<Rightarrow> False)"

text \<open>
  Reth's trait \<open>EthChainSpec\<close> as a record of its methods, with a \<open>Chain\<close> as its id, and the
  implementation for \<open>BorChainSpec\<close>, which hands every method to the inner specification.
\<close>

record ('c, 'bfp, 'blob, 'dep, 'gen, 'hdr, 'node) eth_chain_spec =
  es_chain :: "'c \<Rightarrow> u64"
  es_chain_id :: "'c \<Rightarrow> u64"
  es_base_fee_params_at_timestamp :: "'c \<Rightarrow> u64 \<Rightarrow> 'bfp"
  es_blob_params_at_timestamp :: "'c \<Rightarrow> u64 \<Rightarrow> 'blob option"
  es_deposit_contract :: "'c \<Rightarrow> 'dep option"
  es_genesis :: "'c \<Rightarrow> 'gen"
  es_genesis_hash :: "'c \<Rightarrow> b256"
  es_genesis_header :: "'c \<Rightarrow> 'hdr"
  es_prune_delete_limit :: "'c \<Rightarrow> nat"
  es_display_hardforks :: "'c \<Rightarrow> string"
  es_bootnodes :: "'c \<Rightarrow> 'node list option"
  es_final_paris_total_difficulty :: "'c \<Rightarrow> u256 option"

definition bor_eth_chain_spec ::
    "('i, 'bfp, 'blob, 'dep, 'gen, 'hdr, 'node) eth_chain_spec \<Rightarrow>
     ('i bor_chain_spec, 'bfp, 'blob, 'dep, 'gen, 'hdr, 'node) eth_chain_spec" where
  "bor_eth_chain_spec S =
     \<lparr>es_chain = (\<lambda>cs. es_chain S (cs_inner cs)),
      es_chain_id = (\<lambda>cs. es_chain_id S (cs_inner cs)),
      es_base_fee_params_at_timestamp = (\<lambda>cs timestamp. es_base_fee_params_at_timestamp S (cs_inner cs) timestamp),
      es_blob_params_at_timestamp = (\<lambda>cs timestamp. es_blob_params_at_timestamp S (cs_inner cs) timestamp),
      es_deposit_contract = (\<lambda>cs. es_deposit_contract S (cs_inner cs)),
      es_genesis = (\<lambda>cs. es_genesis S (cs_inner cs)),
      es_genesis_hash = (\<lambda>cs. es_genesis_hash S (cs_inner cs)),
      es_genesis_header = (\<lambda>cs. es_genesis_header S (cs_inner cs)),
      es_prune_delete_limit = (\<lambda>cs. es_prune_delete_limit S (cs_inner cs)),
      es_display_hardforks = (\<lambda>cs. es_display_hardforks S (cs_inner cs)),
      es_bootnodes = (\<lambda>cs. es_bootnodes S (cs_inner cs)),
      es_final_paris_total_difficulty = (\<lambda>cs. es_final_paris_total_difficulty S (cs_inner cs))\<rparr>"

text \<open>\<open>EthereumHardforks::ethereum_fork_activation\<close>; the fork is given by its name here too.\<close>

definition ethereum_fork_activation ::
    "('i \<Rightarrow> string \<Rightarrow> fork_condition) \<Rightarrow> 'i bor_chain_spec \<Rightarrow> string \<Rightarrow> fork_condition" where
  "ethereum_fork_activation inner_activation cs fork = inner_activation (cs_inner cs) fork"

fun find_bor_fork :: "string \<Rightarrow> (bor_hardfork \<times> fork_condition) list \<Rightarrow> fork_condition option" where
  "find_bor_fork name [] = None"
| "find_bor_fork name ((f, c) # rest) =
     (if hardfork_name f = name then Some c else find_bor_fork name rest)"

definition hardforks_fork ::
    "('i, 'h) inner_ops \<Rightarrow> 'i bor_chain_spec \<Rightarrow> string \<Rightarrow> fork_condition" where
  "hardforks_fork ops cs name =
     (case find_bor_fork name (cs_bor_hardforks cs) of
        Some c \<Rightarrow> c
      | None \<Rightarrow> io_fork ops (cs_inner cs) name)"

definition hardforks_forks_iter ::
    "('i, 'h) inner_ops \<Rightarrow> 'i bor_chain_spec \<Rightarrow> (string \<times> fork_condition) list" where
  "hardforks_forks_iter ops cs =
     io_forks_iter ops (cs_inner cs) @
     map (\<lambda>(f, c). (hardfork_name f, c)) (cs_bor_hardforks cs)"

definition hardforks_fork_id :: "('i, 'h) inner_ops \<Rightarrow> 'i bor_chain_spec \<Rightarrow> u64 \<Rightarrow> 'h fork_id" where
  "hardforks_fork_id ops cs head = compute_fork_id ops cs head"

definition latest_fork_id :: "('i, 'h) inner_ops \<Rightarrow> 'i bor_chain_spec \<Rightarrow> 'h fork_id" where
  "latest_fork_id ops cs =
     (let bs = eth_fork_blocks ops cs in
      if bs = [] then compute_fork_id ops cs 0 else compute_fork_id ops cs (last bs))"

text \<open>The arguments that \<open>fork_filter\<close> hands to Reth's \<open>ForkFilter::new\<close> beside the head.\<close>

definition fork_filter_args ::
    "('i, 'h) inner_ops \<Rightarrow> 'i bor_chain_spec \<Rightarrow> b256 \<times> u64 \<times> u64 list" where
  "fork_filter_args ops cs =
     (io_genesis_hash ops (cs_inner cs), io_genesis_timestamp ops (cs_inner cs),
      eth_fork_blocks ops cs)"

section \<open>bootnodes.rs\<close>

definition AMOY_BOOTNODES :: "string list" where
  "AMOY_BOOTNODES =
     [''enode://d40ab6b340be9f78179bd1ec7aa4df346d43dc1462d85fb44c5d43f595991d2ec215d7c778a7588906cb4edf175b3df231cecce090986a739678cd3c620bf580@34.89.255.109:30303'',
      ''enode://13abba15caa024325f2209d3566fa77cd864281dda4f73bca4296277bfd919ac68cef4dbb508028e0310a24f6f9e23c761fa41ac735cdc87efdee76d5ff985a7@34.185.137.160:30303'',
      ''enode://fc5bd3856a4ce6389eef1d6bc637ce7617e6ba8013f7d722d9878cf13f1c5a5a95a9e26ccb0b38bcc330343941ce117ab50db9f61e72ba450dd528a1184d8e6a@34.89.119.250:30303'',
      ''enode://945e11d11bdeed301fb23a5c05aae77bfdde39a8f70308131682a5d2fc1f080531314554afc78718a72ae25cc09be7833f760bf8681516b4315ed36217fa8dab@34.89.40.235:30303'']"

definition AMOY_DNS_DISCOVERY :: string where
  "AMOY_DNS_DISCOVERY = ''enrtree://AKUEZKN7PSKVNR65FZDHECMKOJQSGPARGTPPBI7WS2VUL4EGR6XPC@amoy.polygon-peers.io''"

definition MAINNET_BOOTNODES :: "string list" where
  "MAINNET_BOOTNODES = []"

section \<open>Network specifications\<close>

definition hardfork_table :: "(bor_hardfork \<Rightarrow> u64) \<Rightarrow> (bor_hardfork, fork_condition) btree" where
  "hardfork_table activation =
     foldl (\<lambda>m f. bt_insert f (Block (activation f)) m) [] all_hardforks"

definition bor_mainnet_chainspec :: "'i \<Rightarrow> panic + 'i bor_chain_spec" where
  "bor_mainnet_chainspec inner = bor_chain_spec_new inner (hardfork_table mainnet_block)"

definition bor_amoy_chainspec :: "'i \<Rightarrow> panic + 'i bor_chain_spec" where
  "bor_amoy_chainspec inner = bor_chain_spec_new inner (hardfork_table amoy_block)"

section \<open>genesis.rs, amoy.rs and cli.rs\<close>

definition mainnet_eth_forks :: "(string \<times> fork_condition) list" where
  "mainnet_eth_forks =
     [(''Frontier'', Block 0), (''Homestead'', Block 0), (''Tangerine'', Block 0),
      (''SpuriousDragon'', Block 0), (''Byzantium'', Block 0), (''Constantinople'', Block 0),
      (''Petersburg'', Block 0), (''Istanbul'', Block 0), (''MuirGlacier'', Block 0),
      (''Berlin'', Block 29231616), (''London'', Block 29231616)]"

definition amoy_eth_forks :: "(string \<times> fork_condition) list" where
  "amoy_eth_forks =
     [(''Frontier'', Block 0), (''Homestead'', Block 0), (''Tangerine'', Block 0),
      (''SpuriousDragon'', Block 0), (''Byzantium'', Block 0), (''Constantinople'', Block 0),
      (''Petersburg'', Block 0), (''Istanbul'', Block 0), (''MuirGlacier'', Block 0),
      (''Berlin'', Block 0), (''London'', Block 73100), (''Paris'', TTD 0 None 0),
      (''Shanghai'', Block 73100), (''Cancun'', Block 5423600), (''Prague'', Block 22765056)]"

text \<open>
  \<open>build chain_id genesis forks\<close> stands for Reth's \<open>ChainSpecBuilder\<close>; the genesis values
  (\<open>Genesis::default()\<close> and the parsed Amoy JSON) are arguments.
\<close>

definition bor_mainnet_genesis ::
    "(u64 \<Rightarrow> 'g \<Rightarrow> (string \<times> fork_condition) list \<Rightarrow> 'i) \<Rightarrow> 'g \<Rightarrow> panic + 'i bor_chain_spec" where
  "bor_mainnet_genesis build default_genesis =
     bor_mainnet_chainspec (build 137 default_genesis mainnet_eth_forks)"

definition bor_amoy_genesis ::
    "(u64 \<Rightarrow> 'g \<Rightarrow> (string \<times> fork_condition) list \<Rightarrow> 'i) \<Rightarrow> (string + 'g) \<Rightarrow> panic + 'i bor_chain_spec" where
  "bor_amoy_genesis build amoy_json =
     (case amoy_json of
        Inl e \<Rightarrow> Inl (ExpectFailed ''valid embedded Amoy genesis JSON'')
      | Inr genesis \<Rightarrow>
          bor_chain_spec_new (build AMOY_CHAIN_ID genesis amoy_eth_forks)
            (hardfork_table amoy_block))"

text \<open>\<open>BorChainSpecParser::parse\<close>; the last argument is Reth's genesis parser.\<close>

definition chain_spec_parse ::
    "(u64 \<Rightarrow> 'g \<Rightarrow> (string \<times> fork_condition) list \<Rightarrow> 'i) \<Rightarrow> 'g \<Rightarrow> (string + 'g) \<Rightarrow>
     (string \<Rightarrow> string + 'i) \<Rightarrow> string \<Rightarrow> panic + (string + 'i)" where
  "chain_spec_parse build default_genesis amoy_json parse_genesis s =
     (if s = ''amoy'' then
        bindR (bor_amoy_genesis build amoy_json) (\<lambda>cs. Inr (Inr (into_inner cs)))
      else if s = ''polygon'' \<or> s = ''mainnet'' then
        bindR (bor_mainnet_genesis build default_genesis) (\<lambda>cs. Inr (Inr (into_inner cs)))
      else Inr (parse_genesis s))"

section \<open>Lemmas: hardforks and parameters\<close>

lemma all_hardforks_complete [simp]: "f \<in> set all_hardforks"
  by (cases f) (simp_all add: all_hardforks_def)

lemma mainnet_block_mono: "f \<le> g \<Longrightarrow> mainnet_block f \<le> mainnet_block g"
  by (cases f; cases g) (simp_all add: less_eq_bor_hardfork_def)

lemma amoy_block_mono: "f \<le> g \<Longrightarrow> amoy_block f \<le> amoy_block g"
  by (cases f; cases g) (simp_all add: less_eq_bor_hardfork_def)

lemma char_lower_idem [simp]: "char_lower (char_lower c) = char_lower c"
proof (cases "65 \<le> (of_char c :: nat) \<and> (of_char c :: nat) \<le> 90")
  case True
  then have "(of_char (char_of (of_char c + 32 :: nat)) :: nat) = of_char c + 32"
    by simp
  with True show ?thesis by (simp add: char_lower_def)
next
  case False
  then have "char_lower c = c" by (auto simp: char_lower_def)
  then show ?thesis by simp
qed

lemma to_lowercase_idem [simp]: "to_lowercase (to_lowercase s) = to_lowercase s"
  by (simp add: to_lowercase_def)

lemma hardfork_name_lower:
  "to_lowercase (hardfork_name f) =
     (case f of Delhi \<Rightarrow> ''delhi'' | Indore \<Rightarrow> ''indore'' | Agra \<Rightarrow> ''agra'' | Napoli \<Rightarrow> ''napoli''
      | Ahmedabad \<Rightarrow> ''ahmedabad'' | Bhilai \<Rightarrow> ''bhilai'' | Rio \<Rightarrow> ''rio''
      | Madhugiri \<Rightarrow> ''madhugiri'' | Dandeli \<Rightarrow> ''dandeli'' | Lisovo \<Rightarrow> ''lisovo'')"
  by (cases f) (simp_all add: to_lowercase_def char_lower_def char_of_eq_iff)

text \<open>
  Parsing a hardfork name succeeds exactly on the case variants of the names, and returns
  the fork of that name.
\<close>

lemma hardfork_from_str_iff:
  "hardfork_from_str s = Inr f \<longleftrightarrow> to_lowercase s = to_lowercase (hardfork_name f)"
proof
  assume "hardfork_from_str s = Inr f"
  then show "to_lowercase s = to_lowercase (hardfork_name f)"
    by (auto simp: hardfork_from_str_def Let_def hardfork_name_lower split: if_splits)
next
  assume "to_lowercase s = to_lowercase (hardfork_name f)"
  note low = this [unfolded hardfork_name_lower]
  show "hardfork_from_str s = Inr f"
    by (cases f) (simp_all add: hardfork_from_str_def Let_def low)
qed

lemma sprint_size_cases: "sprint_size b = 64 \<or> sprint_size b = 16"
  by (simp add: sprint_size_def)

lemma is_sprint_start_eq: "is_sprint_start b = Inr (b mod sprint_size b = 0)"
  using sprint_size_cases [of b] by (auto simp: is_sprint_start_def u64_rem_def)

lemma is_span_start_eq: "is_span_start b sz = (if sz = 0 then Inl RemainderByZero else Inr (b mod sz = 0))"
  by (simp add: is_span_start_def u64_rem_def)

lemma word_mod_eq_0_iff: "b mod sz = 0 \<longleftrightarrow> unat sz dvd unat (b :: u64)"
  by (simp add: word_unat_eq_iff unat_mod mod_eq_0_iff_dvd)

section \<open>Lemmas: chain specifications\<close>

definition block_conditions :: "(bor_hardfork \<times> fork_condition) list \<Rightarrow> u64 list" where
  "block_conditions m =
     List.map_filter (\<lambda>e. case snd e of Block b \<Rightarrow> Some b | _ \<Rightarrow> None) m"

lemma block_conditions_simps [simp]:
  "block_conditions [] = []"
  "block_conditions ((f, Block b) # m) = b # block_conditions m"
  "block_conditions ((f, TTD x y z) # m) = block_conditions m"
  "block_conditions ((f, Timestamp t) # m) = block_conditions m"
  "block_conditions ((f, Never) # m) = block_conditions m"
  by (simp_all add: block_conditions_def List.map_filter_def)

lemma check_fork_order_iff:
  "check_fork_order prev m = Inr () \<longleftrightarrow>
     sorted (case prev of None \<Rightarrow> block_conditions m | Some p \<Rightarrow> p # block_conditions m)"
proof (induction prev m rule: check_fork_order.induct)
  case (1 prev)
  then show ?case by (cases prev) auto
next
  case (2 prev fork block rest)
  then show ?case by (cases prev) (auto simp: bindR_eq_Inr intro: order_trans)
qed (auto split: option.splits)

lemma check_fork_order_cases: "check_fork_order prev m = Inr u \<or> (\<exists>msg. check_fork_order prev m = Inl (AssertFailed msg))"
  by (induction prev m rule: check_fork_order.induct) (auto simp: bindR_def ensure_def split: option.splits sum.splits)

lemma bor_chain_spec_new_Inr:
  "bor_chain_spec_new inner m = Inr cs \<longleftrightarrow>
     sorted (block_conditions m) \<and> cs = \<lparr>cs_inner = inner, cs_bor_hardforks = m\<rparr>"
  by (auto simp: bor_chain_spec_new_def bindR_eq_Inr check_fork_order_iff)

lemma hardfork_table_eq:
  "hardfork_table act = map (\<lambda>f. (f, Block (act f))) all_hardforks"
  by (simp add: hardfork_table_def all_hardforks_def less_bor_hardfork_def)

lemma hardfork_table_get [simp]: "bt_get (hardfork_table act) f = Some (Block (act f))"
  by (cases f) (simp_all add: bt_get_def hardfork_table_eq all_hardforks_def)

lemma hardfork_table_inv [simp]: "bt_inv (hardfork_table act)"
  by (simp add: bt_inv_def hardfork_table_eq all_hardforks_def less_bor_hardfork_def)

lemma block_conditions_table: "block_conditions (hardfork_table act) = map act all_hardforks"
  by (simp add: hardfork_table_eq all_hardforks_def)

lemma mainnet_spec_eq:
  "bor_mainnet_chainspec inner = Inr \<lparr>cs_inner = inner, cs_bor_hardforks = hardfork_table mainnet_block\<rparr>"
  by (simp add: bor_mainnet_chainspec_def bor_chain_spec_new_Inr block_conditions_table all_hardforks_def)

lemma amoy_spec_eq:
  "bor_amoy_chainspec inner = Inr \<lparr>cs_inner = inner, cs_bor_hardforks = hardfork_table amoy_block\<rparr>"
  by (simp add: bor_amoy_chainspec_def bor_chain_spec_new_Inr block_conditions_table all_hardforks_def)

lemma active_iff:
  "is_bor_fork_active_at_block cs f b \<longleftrightarrow>
     (\<exists>a. bt_get (cs_bor_hardforks cs) f = Some (Block a) \<and> a \<le> b)"
  by (auto simp: is_bor_fork_active_at_block_def split: option.splits fork_condition.splits)

text \<open>In a sorted table the activation blocks of two block-activated forks are ordered as the forks.\<close>

lemma sorted_conditions_mono:
  assumes "bt_inv m" and "sorted (block_conditions m)"
    and "bt_get m f = Some (Block a)" and "bt_get m g = Some (Block b)" and "f \<le> g"
  shows "a \<le> b"
  using assms
proof (induction m)
  case Nil
  then show ?case by (simp add: bt_get_def)
next
  case (Cons e m)
  obtain k c where e: "e = (k, c)" by (cases e)
  have inv: "bt_inv m" and above: "\<And>x. x \<in> fst ` set m \<Longrightarrow> k < x"
    using Cons.prems(1) by (auto simp: bt_inv_def e)
  have srt: "sorted (block_conditions m)"
    using Cons.prems(2) by (cases c) (auto simp: e)
  have mem: "bt_get m x = Some (Block y) \<Longrightarrow> y \<in> set (block_conditions m)" for x y
    by (auto simp: bt_get_def block_conditions_def List.map_filter_def dest!: map_of_SomeD intro!: rev_image_eqI)
  have key: "bt_get m x = Some y \<Longrightarrow> k < x" for x y
    using above by (force simp: bt_get_def dest: map_of_SomeD)
  show ?case
  proof (cases "f = k")
    case True
    with Cons.prems(3) have "c = Block a" by (simp add: bt_get_def e)
    with Cons.prems mem [of g b] True show ?thesis
      by (cases "g = k") (auto simp: bt_get_def e)
  next
    case False
    with Cons.prems(3) have fm: "bt_get m f = Some (Block a)" by (simp add: bt_get_def e)
    with key Cons.prems(5) have "g \<noteq> k" by fastforce
    with Cons.prems(4) have "bt_get m g = Some (Block b)" by (simp add: bt_get_def e)
    with fm show ?thesis using Cons.IH inv srt Cons.prems(5) by blast
  qed
qed

section \<open>Lemmas: fork identifiers\<close>

lemma distinct_remdups_adj_sorted: "sorted xs \<Longrightarrow> distinct (remdups_adj (xs :: 'a::linorder list))"
  by (induction xs rule: remdups_adj.induct) (auto intro: antisym)

lemma eth_fork_blocks_sorted:
  "sorted (eth_fork_blocks ops cs)" "distinct (eth_fork_blocks ops cs)" "0 \<notin> set (eth_fork_blocks ops cs)"
proof -
  let ?xs = "remdups_adj (sort (List.map_filter (\<lambda>f. fork_block_of (snd f)) (io_forks_iter ops (cs_inner cs))))"
  have srt: "sorted ?xs" by (simp add: sorted_remdups_adj)
  have dst: "distinct ?xs" by (rule distinct_remdups_adj_sorted) simp
  show "sorted (eth_fork_blocks ops cs)"
    using srt by (simp add: eth_fork_blocks_def sorted_wrt_filter)
  show "distinct (eth_fork_blocks ops cs)"
    using dst by (simp add: eth_fork_blocks_def)
  show "0 \<notin> set (eth_fork_blocks ops cs)"
    by (simp add: eth_fork_blocks_def)
qed

lemma set_map_filter: "set (List.map_filter f xs) = {y. \<exists>x\<in>set xs. f x = Some y}"
  by (induction xs) (auto simp: List.map_filter_def split: option.splits)

lemma set_eth_fork_blocks:
  "set (eth_fork_blocks ops cs) =
     {b. b \<noteq> 0 \<and> (\<exists>f\<in>set (io_forks_iter ops (cs_inner cs)). fork_block_of (snd f) = Some b)}"
  by (auto simp: eth_fork_blocks_def set_map_filter)

lemma fork_id_loop_eq:
  "sorted bs \<Longrightarrow> fork_id_loop add head h bs =
     \<lparr>fi_hash = foldl add h (filter (\<lambda>b. b \<le> head) bs),
      fi_next = (case filter (\<lambda>b. head < b) bs of [] \<Rightarrow> 0 | b # _ \<Rightarrow> b)\<rparr>"
proof (induction bs arbitrary: h)
  case Nil
  then show ?case by simp
next
  case (Cons b bs)
  show ?case
  proof (cases "b \<le> head")
    case True
    with Cons show ?thesis by (simp add: leD)
  next
    case False
    with Cons.prems have "filter (\<lambda>b. b \<le> head) bs = []"
      by (fastforce simp: filter_empty_conv)
    moreover from False have "head < b" by simp
    ultimately show ?thesis by (simp add: leD)
  qed
qed

lemma sorted_le_last: "sorted xs \<Longrightarrow> x \<in> set xs \<Longrightarrow> (x :: 'a::linorder) \<le> last xs"
  by (induction xs) auto

lemma hd_sorted_Min: "sorted xs \<Longrightarrow> xs \<noteq> [] \<Longrightarrow> hd xs = Min (set xs)"
  by (cases xs) (auto intro!: Min_eqI [symmetric])

lemma fork_id_loop_next:
  assumes "sorted bs"
  shows "fi_next (fork_id_loop add head h bs) =
     (if \<exists>b\<in>set bs. head < b then Min {b \<in> set bs. head < b} else 0)"
proof (cases "filter (\<lambda>b. head < b) bs")
  case Nil
  then have "\<not> (\<exists>b\<in>set bs. head < b)" by (auto simp: filter_empty_conv)
  with Nil assms show ?thesis by (simp add: fork_id_loop_eq)
next
  case (Cons c cs)
  have "sorted (filter (\<lambda>b. head < b) bs)"
    using assms by (rule sorted_wrt_filter)
  then have "hd (filter (\<lambda>b. head < b) bs) = Min (set (filter (\<lambda>b. head < b) bs))"
    by (rule hd_sorted_Min) (simp add: Cons)
  then have "c = Min {b \<in> set bs. head < b}"
    by (simp add: Cons [symmetric]) (simp add: Cons)
  moreover have "\<exists>b\<in>set bs. head < b"
    using Cons by (metis filter_empty_conv list.distinct(1))
  ultimately show ?thesis
    using Cons assms by (simp add: fork_id_loop_eq)
qed

section \<open>Properties\<close>

text \<open>
  \<open>BorChainSpec::new\<close> returns exactly when the block-activated hardforks of the map are
  in ascending activation order; otherwise its assertion fails and it panics.
\<close>

theorem bor_chain_spec_new_ordered:
  "if sorted (block_conditions m)
   then bor_chain_spec_new inner m = Inr \<lparr>cs_inner = inner, cs_bor_hardforks = m\<rparr>
   else \<exists>msg. bor_chain_spec_new inner m = Inl (AssertFailed msg)"
  using check_fork_order_cases [of None m] check_fork_order_iff [of None m]
  by (auto simp: bor_chain_spec_new_def)

text \<open>
  In every chain specification that \<open>new\<close> accepts, hardforks are activated in order and
  stay active: when a fork is active at a block, each earlier block-activated fork is active
  at that block and at every later one.
\<close>

theorem fork_hierarchy:
  assumes "bt_inv m" and "bor_chain_spec_new inner m = Inr cs"
    and "is_bor_fork_active_at_block cs g b"
    and "f \<le> g" and "bt_get m f = Some (Block a)" and "b \<le> b'"
  shows "is_bor_fork_active_at_block cs f b'"
proof -
  have srt: "sorted (block_conditions m)" and cs: "cs_bor_hardforks cs = m"
    using assms(2) by (auto simp: bor_chain_spec_new_Inr)
  obtain c where "bt_get m g = Some (Block c)" and "c \<le> b"
    using assms(3) by (auto simp: active_iff cs)
  then have "a \<le> b'"
    using sorted_conditions_mono [OF assms(1) srt assms(5)] assms(4,6) by (meson order_trans)
  with assms(5) show ?thesis by (simp add: active_iff cs)
qed

theorem fork_hierarchy_witness:
  "is_bor_fork_active_at_block
     \<lparr>cs_inner = (), cs_bor_hardforks = hardfork_table amoy_block\<rparr> Agra 30000000"
proof (rule fork_hierarchy)
  show "bt_inv (hardfork_table amoy_block)" by simp
  show "bor_chain_spec_new () (hardfork_table amoy_block) =
      Inr \<lparr>cs_inner = (), cs_bor_hardforks = hardfork_table amoy_block\<rparr>"
    using amoy_spec_eq [of "()"] by (simp add: bor_amoy_chainspec_def)
  show "is_bor_fork_active_at_block
      \<lparr>cs_inner = (), cs_bor_hardforks = hardfork_table amoy_block\<rparr> Rio 27000000"
    by (simp add: active_iff)
  show "Agra \<le> Rio" by (simp add: less_eq_bor_hardfork_def)
  show "bt_get (hardfork_table amoy_block) Agra = Some (Block 73100)" by simp
  show "(27000000 :: u64) \<le> 30000000" by simp
qed

text \<open>
  C37. The EIP-2124 fork identifier: the hash folds exactly the non-zero Ethereum fork blocks
  up to the head, each once and in ascending order, and \<open>next\<close> is the least fork block above
  the head, or 0 when there is none. Bor hardforks never enter it.
\<close>

theorem compute_fork_id_correct:
  "let bs = eth_fork_blocks ops cs; fid = compute_fork_id ops cs head in
     sorted bs \<and> distinct bs \<and>
     set bs = {b. b \<noteq> 0 \<and> (\<exists>f\<in>set (io_forks_iter ops (cs_inner cs)). fork_block_of (snd f) = Some b)} \<and>
     fi_hash fid = foldl (io_hash_add ops) (io_hash_from ops (io_genesis_hash ops (cs_inner cs)))
       (filter (\<lambda>b. b \<le> head) bs) \<and>
     fi_next fid = (if \<exists>b\<in>set bs. head < b then Min {b \<in> set bs. head < b} else 0) \<and>
     fid = compute_fork_id ops (cs\<lparr>cs_bor_hardforks := other\<rparr>) head"
proof -
  note srt = eth_fork_blocks_sorted [of ops cs]
  have "eth_fork_blocks ops (cs\<lparr>cs_bor_hardforks := other\<rparr>) = eth_fork_blocks ops cs"
    by (simp add: eth_fork_blocks_def)
  moreover have "fi_hash (compute_fork_id ops cs head) =
      foldl (io_hash_add ops) (io_hash_from ops (io_genesis_hash ops (cs_inner cs)))
        (filter (\<lambda>b. b \<le> head) (eth_fork_blocks ops cs))"
    by (simp add: compute_fork_id_def fork_id_loop_eq srt(1))
  ultimately show ?thesis
    using srt by (simp add: Let_def set_eth_fork_blocks compute_fork_id_def fork_id_loop_next)
qed

text \<open>
  The latest fork identifier is the one computed at any head that has passed every
  Ethereum fork block, and it announces no next fork.
\<close>

theorem latest_fork_id_final:
  assumes "\<And>b. b \<in> set (eth_fork_blocks ops cs) \<Longrightarrow> b \<le> head"
  shows "latest_fork_id ops cs = hardforks_fork_id ops cs head \<and> fi_next (latest_fork_id ops cs) = 0"
proof -
  let ?bs = "eth_fork_blocks ops cs"
  note srt = eth_fork_blocks_sorted(1) [of ops cs]
  have all: "filter (\<lambda>b. b \<le> h) ?bs = ?bs \<and> filter (\<lambda>b. h < b) ?bs = []"
    if "\<And>b. b \<in> set ?bs \<Longrightarrow> b \<le> h" for h
    using that by (auto simp: filter_id_conv filter_empty_conv not_less)
  have "b \<le> last ?bs" if "b \<in> set ?bs" for b
    using srt that by (rule sorted_le_last)
  with all [of "last ?bs"] all [OF assms] show ?thesis
    by (auto simp: latest_fork_id_def hardforks_fork_id_def compute_fork_id_def fork_id_loop_eq [OF srt] Let_def)
qed

theorem latest_fork_id_final_witness:
  "latest_fork_id
     \<lparr>io_forks_iter = \<lambda>_::unit. mainnet_eth_forks, io_fork = \<lambda>_ _. Never, io_chain_id = \<lambda>_. 137,
      io_genesis_hash = \<lambda>_. 0, io_genesis_timestamp = \<lambda>_. 0,
      io_hash_from = \<lambda>h. [unat h], io_hash_add = \<lambda>h b. h @ [unat b]\<rparr>
     \<lparr>cs_inner = (), cs_bor_hardforks = []\<rparr> = \<lparr>fi_hash = [0, 29231616], fi_next = 0\<rparr>"
proof -
  let ?ops = "\<lparr>io_forks_iter = \<lambda>_::unit. mainnet_eth_forks, io_fork = \<lambda>_ _. Never,
      io_chain_id = \<lambda>_. 137, io_genesis_hash = \<lambda>_. 0, io_genesis_timestamp = \<lambda>_. 0,
      io_hash_from = \<lambda>h. [unat h], io_hash_add = \<lambda>h b. h @ [unat (b :: u64)]\<rparr>"
  let ?cs = "\<lparr>cs_inner = (), cs_bor_hardforks = []\<rparr>"
  have bs: "eth_fork_blocks ?ops ?cs = [29231616]"
    by (simp add: eth_fork_blocks_def mainnet_eth_forks_def List.map_filter_def)
  have "latest_fork_id ?ops ?cs = hardforks_fork_id ?ops ?cs 40000000 \<and> fi_next (latest_fork_id ?ops ?cs) = 0"
    by (rule latest_fork_id_final) (simp add: bs)
  moreover have "hardforks_fork_id ?ops ?cs 40000000 = \<lparr>fi_hash = [0, 29231616], fi_next = 0\<rparr>"
    by (simp add: hardforks_fork_id_def compute_fork_id_def bs)
  ultimately show ?thesis by simp
qed

text \<open>
  The block-number parameters of \<open>params.rs\<close> agree with the mainnet chain specification:
  sprint size, span size, gas limit and base fee denominator change exactly where \<open>Delhi\<close>,
  \<open>Rio\<close> and \<open>Bhilai\<close> are active in the specification that \<open>bor_mainnet_chainspec\<close> builds.
\<close>

theorem params_match_mainnet:
  "\<exists>cs. bor_mainnet_chainspec inner = Inr cs \<and>
     sprint_size b = (if is_bor_fork_active_at_block cs Delhi b then 16 else 64) \<and>
     span_size b = (if is_bor_fork_active_at_block cs Rio b then 1600 else 6400) \<and>
     block_gas_limit b = (if is_bor_fork_active_at_block cs Bhilai b then 45000000 else 30000000) \<and>
     base_fee_change_denominator b =
       (if is_bor_fork_active_at_block cs Bhilai b then 64
        else if is_bor_fork_active_at_block cs Delhi b then 16 else 8)"
  by (auto simp: mainnet_spec_eq active_iff sprint_size_def span_size_def block_gas_limit_def
      base_fee_change_denominator_def not_less)

text \<open>
  Every span start is a sprint start, before and after each of the hardforks that change
  the two sizes, so a \<open>commitSpan\<close> block is always a state-sync block as well.
\<close>

theorem span_start_is_sprint_start:
  assumes "is_span_start b (span_size b) = Inr True"
  shows "is_sprint_start b = Inr True"
proof -
  have "64 dvd unat b"
  proof (cases "b < mainnet_block Rio")
    case True
    with assms have "6400 dvd unat b"
      by (simp add: is_span_start_eq span_size_def word_mod_eq_0_iff)
    then show ?thesis by (rule dvd_trans [rotated]) simp
  next
    case False
    with assms have "1600 dvd unat b"
      by (simp add: is_span_start_eq span_size_def word_mod_eq_0_iff)
    then show ?thesis by (rule dvd_trans [rotated]) simp
  qed
  moreover from this have "16 dvd unat b" by (rule dvd_trans [rotated]) simp
  ultimately show ?thesis
    using sprint_size_cases [of b] by (auto simp: is_sprint_start_eq word_mod_eq_0_iff)
qed

theorem span_start_is_sprint_start_witness:
  "is_span_start 77414400 (span_size 77414400) = Inr True \<and> is_sprint_start 77414400 = Inr True"
proof -
  have h: "is_span_start 77414400 (span_size 77414400) = Inr True"
    by (simp add: is_span_start_eq span_size_def)
  show ?thesis using h span_start_is_sprint_start [OF h] by simp
qed

text \<open>
  Parsing inverts printing: \<open>FromStr\<close> accepts exactly the spellings of a hardfork name up
  to letter case and returns that fork; any other string is returned inside the error message.
\<close>

theorem hardfork_from_str_correct:
  "hardfork_from_str (show_bor_hardfork f) = Inr f \<and>
   (hardfork_from_str s = Inr f \<longleftrightarrow> to_lowercase s = to_lowercase (hardfork_name f)) \<and>
   ((\<exists>g. hardfork_from_str s = Inr g) \<or> hardfork_from_str s = Inl (''unknown Bor hardfork: '' @ s))"
proof -
  have "(\<exists>g. hardfork_from_str s = Inr g) \<or> hardfork_from_str s = Inl (''unknown Bor hardfork: '' @ s)"
    by (simp add: hardfork_from_str_def Let_def)
  then show ?thesis by (simp add: hardfork_from_str_iff show_bor_hardfork_def)
qed

end
