(* ===== verification/Bor_Primitives.thy ===== *)
theory Bor_Primitives
  imports Bor_Prelude
begin

text \<open>
  The crate \<open>bor-primitives\<close>: validators, validator sets and spans, the span arithmetic and
  the byte encoding of a validator list, with its round trip.
\<close>

section \<open>Data\<close>

record validator =
  v_id :: u64
  v_address :: address
  v_voting_power :: i64
  v_signer :: address
  v_proposer_priority :: i64

record validator_set =
  vs_validators :: "validator list"
  vs_proposer :: "validator option"

record span =
  sp_id :: u64
  sp_start_block :: u64
  sp_end_block :: u64
  sp_validator_set :: validator_set
  sp_selected_producers :: "validator list"
  sp_bor_chain_id :: string

section \<open>Operations\<close>

definition span_id_at :: "u64 \<Rightarrow> u64 \<Rightarrow> panic + u64" where
  "span_id_at block sz = u64_div block sz"

definition encode_validator_bytes :: "validator list \<Rightarrow> bytes" where
  "encode_validator_bytes vs = foldl (\<lambda>bs v. bs @ address_bytes (v_signer v)) [] vs"

definition decode_validator_bytes :: "bytes \<Rightarrow> panic + address list" where
  "decode_validator_bytes bs = collectR (map address_from_slice (chunks_exact 20 bs))"

section \<open>Lemmas\<close>

text \<open>The part shared with \<open>ExtraData::validators\<close>: reading addresses off full chunks.\<close>

lemma decode_address_chunks:
  "collectR (map address_from_slice (chunks_exact 20 (concat (map address_bytes as)))) = Inr as"
proof -
  have "chunks_exact 20 (concat (map address_bytes as)) = map address_bytes as"
    by (rule chunks_exact_concat) auto
  then show ?thesis
    using collectR_all_Inr [of "map address_bytes as" address_from_slice
        "\<lambda>bs. word_of_nat (be_value bs)"] collectR_Inr [of "\<lambda>a. a" as]
    by (simp add: comp_def)
qed

lemma address_chunks_total:
  "\<exists>as. collectR (map address_from_slice (chunks_exact 20 bs)) = Inr as \<and>
        length as = length bs div 20 \<and>
        concat (map address_bytes as) = concat (chunks_exact 20 bs)"
proof -
  let ?cs = "chunks_exact 20 bs"
  let ?f = "\<lambda>c. word_of_nat (be_value c) :: address"
  have len: "length c = 20" if "c \<in> set ?cs" for c
    using that by (rule chunks_exact_lengths)
  then have val: "address_from_slice c = Inr (?f c)" if "c \<in> set ?cs" for c
    using that by (simp add: address_from_slice_def)
  have "collectR (map address_from_slice ?cs) = Inr (map ?f ?cs)"
    using val by (rule collectR_all_Inr)
  moreover have "map (address_bytes \<circ> ?f) ?cs = map (\<lambda>c. c) ?cs"
    using val by (intro map_cong) (auto dest: address_bytes_from_slice)
  ultimately show ?thesis
    by (simp add: length_chunks_exact)
qed

lemma encode_validator_bytes_eq:
  "encode_validator_bytes vs = concat (map address_bytes (map v_signer vs))"
proof -
  have "foldl (\<lambda>bs v. bs @ address_bytes (v_signer v)) acc vs =
      acc @ concat (map address_bytes (map v_signer vs))" for acc
    by (induction vs arbitrary: acc) auto
  then show ?thesis by (simp add: encode_validator_bytes_def)
qed

lemma length_encode_validator_bytes [simp, byte_simps]:
  "length (encode_validator_bytes vs) = 20 * length vs"
  unfolding encode_validator_bytes_eq by (induction vs) auto

section \<open>Properties\<close>

text \<open>
  Encoding a validator list takes 20 bytes per validator and decoding it returns the
  signer addresses in order; the decoder never panics, whatever the bytes, and where the
  length is a multiple of 20 re-encoding the decoded addresses gives the same bytes.
\<close>

theorem validator_bytes_roundtrip:
  "length (encode_validator_bytes vs) = 20 * length vs \<and>
   decode_validator_bytes (encode_validator_bytes vs) = Inr (map v_signer vs) \<and>
   (\<exists>as. decode_validator_bytes bs = Inr as \<and> length as = length bs div 20 \<and>
      (\<not> 20 dvd length bs \<or> concat (map address_bytes as) = bs))"
proof -
  obtain as where "decode_validator_bytes bs = Inr as" "length as = length bs div 20"
      and c: "concat (map address_bytes as) = concat (chunks_exact 20 bs)"
    using address_chunks_total [of bs] unfolding decode_validator_bytes_def by blast
  moreover have "\<not> 20 dvd length bs \<or> concat (chunks_exact 20 bs) = bs"
    using concat_chunks_exact [of 20 bs] by auto
  ultimately have "\<exists>as. decode_validator_bytes bs = Inr as \<and> length as = length bs div 20 \<and>
      (\<not> 20 dvd length bs \<or> concat (map address_bytes as) = bs)"
    by auto
  moreover have "decode_validator_bytes (encode_validator_bytes vs) = Inr (map v_signer vs)"
    unfolding decode_validator_bytes_def encode_validator_bytes_eq by (rule decode_address_chunks)
  ultimately show ?thesis by simp
qed

theorem validator_bytes_roundtrip_witness:
  "decode_validator_bytes (encode_validator_bytes
      [\<lparr>v_id = 1, v_address = 7, v_voting_power = 100, v_signer = 0xaa, v_proposer_priority = 0\<rparr>,
       \<lparr>v_id = 2, v_address = 8, v_voting_power = 50, v_signer = 0xbb, v_proposer_priority = 0\<rparr>])
     = Inr [0xaa, 0xbb]"
  using validator_bytes_roundtrip
    [of "[\<lparr>v_id = 1, v_address = 7, v_voting_power = 100, v_signer = 0xaa, v_proposer_priority = 0\<rparr>,
       \<lparr>v_id = 2, v_address = 8, v_voting_power = 50, v_signer = 0xbb, v_proposer_priority = 0\<rparr>]" "[]"]
  by simp

text \<open>
  Spans partition the chain: for a non-zero span size each block belongs to exactly the
  span whose identifier \<open>span_id_at\<close> returns; with span size 0 the division panics.
\<close>

theorem span_id_at_partition:
  "if sz = 0 then span_id_at block sz = Inl DivisionByZero
   else \<exists>i. span_id_at block sz = Inr i \<and>
     {k. k * unat sz \<le> unat block \<and> unat block < (k + 1) * unat sz} = {unat i}"
proof (cases "sz = 0")
  case True
  then show ?thesis by (simp add: span_id_at_def u64_div_def)
next
  case False
  then have pos: "0 < unat sz" by (simp add: unat_gt_0)
  have "k * unat sz \<le> unat block \<and> unat block < (k + 1) * unat sz \<longleftrightarrow> unat block div unat sz = k" for k
    using div_nat_eqI [of "unat sz" k "unat block"] pos
    by (auto simp: mult.commute dividend_less_times_div)
  with False show ?thesis
    by (auto simp: span_id_at_def u64_div_def unat_div)
qed

end
