(* ===== verification/Consensus_Extra_Data.thy ===== *)
theory Consensus_Extra_Data
  imports Bor_Chainspec Bor_Primitives
begin

text \<open>
  \<open>bor-consensus/src/extra_data.rs\<close>: the layout of a header's extra data (32 bytes of
  vanity, 20 bytes per validator, a 65 byte seal), its parser and its two errors.
\<close>

section \<open>Model\<close>

definition MIN_EXTRA_DATA_LEN :: nat where
  [simp]: "MIN_EXTRA_DATA_LEN = EXTRADATA_VANITY_LEN + EXTRADATA_SEAL_LEN"

definition ADDRESS_LEN :: nat where
  [simp]: "ADDRESS_LEN = 20"

datatype extra_data_error = TooShort nat | InvalidValidatorBytes nat

primrec show_extra_data_error :: "extra_data_error \<Rightarrow> string" where
  "show_extra_data_error (TooShort n) =
     ''extra data too short: '' @ show_nat n @ '' bytes, minimum is '' @ show_nat MIN_EXTRA_DATA_LEN"
| "show_extra_data_error (InvalidValidatorBytes n) =
     ''validator bytes length '' @ show_nat n @ '' is not a multiple of '' @ show_nat ADDRESS_LEN"

record extra_data =
  ed_vanity :: bytes
  ed_validator_bytes :: bytes
  ed_seal :: bytes

definition extra_data_parse :: "bytes \<Rightarrow> extra_data_error + extra_data" where
  "extra_data_parse extra =
     (if length extra < MIN_EXTRA_DATA_LEN then Inl (TooShort (length extra))
      else
        let vlen = length extra - EXTRADATA_VANITY_LEN - EXTRADATA_SEAL_LEN in
        if vlen mod ADDRESS_LEN \<noteq> 0 then Inl (InvalidValidatorBytes vlen)
        else Inr \<lparr>ed_vanity = take EXTRADATA_VANITY_LEN extra,
                  ed_validator_bytes = take vlen (drop EXTRADATA_VANITY_LEN extra),
                  ed_seal = drop (length extra - EXTRADATA_SEAL_LEN) extra\<rparr>)"

definition extra_data_validators :: "extra_data \<Rightarrow> panic + address list" where
  "extra_data_validators ed =
     collectR (map address_from_slice (chunks_exact ADDRESS_LEN (ed_validator_bytes ed)))"

text \<open>The header bytes that carry a parsed value: what a producer writes.\<close>

definition extra_data_layout :: "extra_data \<Rightarrow> bytes" where
  "extra_data_layout ed = ed_vanity ed @ ed_validator_bytes ed @ ed_seal ed"

definition extra_data_wf :: "extra_data \<Rightarrow> bool" where
  "extra_data_wf ed \<longleftrightarrow>
     length (ed_vanity ed) = EXTRADATA_VANITY_LEN \<and>
     ADDRESS_LEN dvd length (ed_validator_bytes ed) \<and>
     length (ed_seal ed) = EXTRADATA_SEAL_LEN"

section \<open>Lemmas\<close>

lemma extra_data_parse_layout:
  "extra_data_wf ed \<Longrightarrow> extra_data_parse (extra_data_layout ed) = Inr ed"
  by (auto simp: extra_data_parse_def extra_data_layout_def extra_data_wf_def)

lemma extra_data_parse_Inr:
  assumes "extra_data_parse bs = Inr ed"
  shows "extra_data_wf ed \<and> extra_data_layout ed = bs"
proof -
  let ?v = "length bs - 32 - 65"
  from assms have len: "97 \<le> length bs" and dv: "?v mod 20 = 0"
      and ed: "ed = \<lparr>ed_vanity = take 32 bs, ed_validator_bytes = take ?v (drop 32 bs),
        ed_seal = drop (length bs - 65) bs\<rparr>"
    by (auto simp: extra_data_parse_def Let_def split: if_splits)
  have "take 32 bs @ take ?v (drop 32 bs) = take (length bs - 65) bs"
    using len take_add [of 32 ?v bs] by simp
  then have "take 32 bs @ take ?v (drop 32 bs) @ drop (length bs - 65) bs = bs"
    by (metis append_assoc append_take_drop_id)
  with len dv show ?thesis
    by (simp add: ed extra_data_wf_def extra_data_layout_def mod_eq_0_iff_dvd)
qed

lemma extra_data_parse_iff:
  "extra_data_parse bs = Inr ed \<longleftrightarrow> extra_data_wf ed \<and> extra_data_layout ed = bs"
  using extra_data_parse_layout extra_data_parse_Inr by blast

lemma extra_data_parse_ok_iff:
  "(\<exists>ed. extra_data_parse bs = Inr ed) \<longleftrightarrow> 97 \<le> length bs \<and> 20 dvd length bs - 97"
  by (auto simp: extra_data_parse_def Let_def mod_eq_0_iff_dvd)

lemma extra_data_seal_length: "extra_data_parse bs = Inr ed \<Longrightarrow> length (ed_seal ed) = 65"
  by (drule extra_data_parse_Inr) (simp add: extra_data_wf_def)

lemma extra_data_seal_eq:
  "extra_data_parse bs = Inr ed \<Longrightarrow> ed_seal ed = drop (length bs - 65) bs"
  by (auto simp: extra_data_parse_def Let_def split: if_splits)

lemma extra_data_validators_total:
  "\<exists>as. extra_data_validators ed = Inr as \<and> length as = length (ed_validator_bytes ed) div 20"
  using address_chunks_total [of "ed_validator_bytes ed"] by (auto simp: extra_data_validators_def)

section \<open>Properties\<close>

text \<open>
  The parser is the exact inverse of the layout: it succeeds with \<open>ed\<close> if and only if \<open>ed\<close>
  has a 32 byte vanity, whole validator addresses and a 65 byte seal, and its parts in order
  are the input. So no byte of a header's extra data is lost, duplicated or reinterpreted.
\<close>

theorem extra_data_parse_exact:
  "extra_data_parse bs = Inr ed \<longleftrightarrow> extra_data_wf ed \<and> extra_data_layout ed = bs"
  by (rule extra_data_parse_iff)

text \<open>
  The two errors: input shorter than 97 bytes is \<open>TooShort\<close> with its length, and otherwise
  a validator section that is not a multiple of 20 is \<open>InvalidValidatorBytes\<close> with the
  section's length; every other input parses.
\<close>

theorem extra_data_parse_errors:
  "extra_data_parse bs = Inl e \<longleftrightarrow>
     (if length bs < 97 then e = TooShort (length bs)
      else (length bs - 97) mod 20 \<noteq> 0 \<and> e = InvalidValidatorBytes (length bs - 97))"
  by (auto simp: extra_data_parse_def Let_def)

text \<open>
  What a producer encodes is what a validator reads: extra data laid out from a vanity,
  the encoded validator set and a seal parses, and \<open>validators()\<close> returns the signer
  addresses in order without a panic.
\<close>

theorem extra_data_validators_roundtrip:
  assumes "length vanity = 32" and "length seal = 65"
  shows "\<exists>ed. extra_data_parse (vanity @ encode_validator_bytes vs @ seal) = Inr ed \<and>
     ed_vanity ed = vanity \<and> ed_seal ed = seal \<and>
     extra_data_validators ed = Inr (map v_signer vs)"
proof -
  let ?ed = "\<lparr>ed_vanity = vanity, ed_validator_bytes = encode_validator_bytes vs, ed_seal = seal\<rparr>"
  have "extra_data_wf ?ed" using assms by (simp add: extra_data_wf_def)
  then have "extra_data_parse (vanity @ encode_validator_bytes vs @ seal) = Inr ?ed"
    by (simp add: extra_data_parse_iff extra_data_layout_def)
  moreover have "extra_data_validators ?ed = Inr (map v_signer vs)"
    using decode_address_chunks [of "map v_signer vs"]
    by (simp only: extra_data_validators_def ADDRESS_LEN_def encode_validator_bytes_eq extra_data.simps)
  ultimately show ?thesis by simp
qed

theorem extra_data_validators_roundtrip_witness:
  "\<exists>ed. extra_data_parse (replicate 32 1 @ encode_validator_bytes
        [\<lparr>v_id = 1, v_address = 7, v_voting_power = 100, v_signer = 0xaa, v_proposer_priority = 0\<rparr>]
        @ replicate 65 255) = Inr ed \<and>
     ed_vanity ed = replicate 32 1 \<and> ed_seal ed = replicate 65 255 \<and>
     extra_data_validators ed = Inr [0xaa]"
  using extra_data_validators_roundtrip [of "replicate 32 1" "replicate 65 255"
      "[\<lparr>v_id = 1, v_address = 7, v_voting_power = 100, v_signer = 0xaa, v_proposer_priority = 0\<rparr>]"]
  by simp

end
