(* ===== verification/Consensus_Seal.thy ===== *)
theory Consensus_Seal
  imports Consensus_Extra_Data
begin

text \<open>
  \<open>bor-consensus/src/seal.rs\<close>: the hash a block producer signs and the recovery of the
  signer. RLP, Keccak and ECDSA come from the \<open>alloy\<close> crates: they are the fields of
  \<open>crypto\<close>, an argument of every definition that calls them. What the main theorem assumes of
  RLP is \<open>rlp_laws\<close>: an encoded item can be read back from the front of a byte string.
\<close>

section \<open>Headers\<close>

type_synonym bloom = "2048 word"

text \<open>The accessors of \<open>BlockHeader\<close> that the code calls.\<close>

record header =
  hd_parent_hash :: b256
  hd_ommers_hash :: b256
  hd_beneficiary :: address
  hd_state_root :: b256
  hd_transactions_root :: b256
  hd_receipts_root :: b256
  hd_logs_bloom :: bloom
  hd_difficulty :: u256
  hd_number :: u64
  hd_gas_limit :: u64
  hd_gas_used :: u64
  hd_timestamp :: u64
  hd_extra_data :: bytes
  hd_mix_hash :: "b256 option"
  hd_nonce :: "b64 option"
  hd_base_fee_per_gas :: "u64 option"
  hd_withdrawals_root :: "b256 option"
  hd_blob_gas_used :: "u64 option"
  hd_excess_blob_gas :: "u64 option"
  hd_parent_beacon_block_root :: "b256 option"
  hd_requests_hash :: "b256 option"

record 'sig crypto =
  rlp_b256 :: "b256 \<Rightarrow> bytes"
  rlp_address :: "address \<Rightarrow> bytes"
  rlp_bloom :: "bloom \<Rightarrow> bytes"
  rlp_u256 :: "u256 \<Rightarrow> bytes"
  rlp_u64 :: "u64 \<Rightarrow> bytes"
  rlp_bytes :: "bytes \<Rightarrow> bytes"
  rlp_b64 :: "b64 \<Rightarrow> bytes"
  rlp_list_header :: "nat \<Rightarrow> bytes"
  keccak256 :: "bytes \<Rightarrow> b256"
  sig_from_raw :: "bytes \<Rightarrow> string + 'sig"
  sig_recover :: "'sig \<Rightarrow> b256 \<Rightarrow> string + address"

section \<open>compute\_seal\_hash\<close>

definition trimmed_extra :: "bytes \<Rightarrow> bytes" where
  "trimmed_extra extra = take (length extra - EXTRADATA_SEAL_LEN) extra"

text \<open>\<open>if let Some(x) = .. { x.encode(..) }\<close>\<close>

definition encode_opt :: "('a \<Rightarrow> bytes) \<Rightarrow> 'a option \<Rightarrow> bytes" where
  "encode_opt enc x = (case x of None \<Rightarrow> [] | Some v \<Rightarrow> enc v)"

definition seal_list_content :: "'sig crypto \<Rightarrow> header \<Rightarrow> bytes" where
  "seal_list_content C h =
     rlp_b256 C (hd_parent_hash h) @
     rlp_b256 C (hd_ommers_hash h) @
     rlp_address C (hd_beneficiary h) @
     rlp_b256 C (hd_state_root h) @
     rlp_b256 C (hd_transactions_root h) @
     rlp_b256 C (hd_receipts_root h) @
     rlp_bloom C (hd_logs_bloom h) @
     rlp_u256 C (hd_difficulty h) @
     rlp_u256 C (ucast (hd_number h)) @
     rlp_u256 C (ucast (hd_gas_limit h)) @
     rlp_u256 C (ucast (hd_gas_used h)) @
     rlp_u64 C (hd_timestamp h) @
     rlp_bytes C (trimmed_extra (hd_extra_data h)) @
     rlp_b256 C (case hd_mix_hash h of Some m \<Rightarrow> m | None \<Rightarrow> 0) @
     rlp_b64 C (case hd_nonce h of Some n \<Rightarrow> n | None \<Rightarrow> 0) @
     encode_opt (\<lambda>f. rlp_u256 C (ucast f)) (hd_base_fee_per_gas h) @
     encode_opt (rlp_b256 C) (hd_withdrawals_root h) @
     encode_opt (\<lambda>g. rlp_u256 C (ucast g)) (hd_blob_gas_used h) @
     encode_opt (\<lambda>g. rlp_u256 C (ucast g)) (hd_excess_blob_gas h) @
     encode_opt (rlp_b256 C) (hd_parent_beacon_block_root h) @
     encode_opt (rlp_b256 C) (hd_requests_hash h)"

text \<open>The bytes that are hashed.\<close>

definition seal_preimage :: "'sig crypto \<Rightarrow> header \<Rightarrow> bytes" where
  "seal_preimage C h =
     rlp_list_header C (length (seal_list_content C h)) @ seal_list_content C h"

definition compute_seal_hash :: "'sig crypto \<Rightarrow> header \<Rightarrow> b256" where
  "compute_seal_hash C h = keccak256 C (seal_preimage C h)"

section \<open>ecrecover\_seal\<close>

datatype seal_error = InvalidSignatureLength nat | RecoveryFailed string

primrec show_seal_error :: "seal_error \<Rightarrow> string" where
  "show_seal_error (InvalidSignatureLength n) =
     ''invalid signature length: expected 65, got '' @ show_nat n"
| "show_seal_error (RecoveryFailed e) = ''recovery failed: '' @ e"

definition ecrecover_seal :: "'sig crypto \<Rightarrow> b256 \<Rightarrow> bytes \<Rightarrow> seal_error + address" where
  "ecrecover_seal C seal_hash signature =
     (if length signature \<noteq> 65 then Inl (InvalidSignatureLength (length signature))
      else bindR (map_err RecoveryFailed (sig_from_raw C signature)) (\<lambda>sig.
           map_err RecoveryFailed (sig_recover C sig seal_hash)))"

section \<open>What the theorems assume of RLP\<close>

text \<open>\<open>enc\<close> can be read back from the front of any byte string that starts with an encoding.\<close>

definition prefix_code :: "('a \<Rightarrow> bytes) \<Rightarrow> bool" where
  "prefix_code enc \<longleftrightarrow> (\<forall>x y a b. enc x @ a = enc y @ b \<longrightarrow> x = y)"

definition rlp_laws :: "'sig crypto \<Rightarrow> bool" where
  "rlp_laws C \<longleftrightarrow>
     prefix_code (rlp_b256 C) \<and> prefix_code (rlp_address C) \<and> prefix_code (rlp_bloom C) \<and>
     prefix_code (rlp_u256 C) \<and> prefix_code (rlp_u64 C) \<and> prefix_code (rlp_bytes C) \<and>
     prefix_code (rlp_b64 C) \<and> prefix_code (rlp_list_header C)"

section \<open>Lemmas\<close>

text \<open>
  The optional fields come with forks, each on top of the one before: a header that has one of
  them has those in front of it too.
\<close>

definition optional_in_order :: "header \<Rightarrow> bool" where
  "optional_in_order h \<longleftrightarrow>
     (hd_base_fee_per_gas h = None \<longrightarrow> hd_withdrawals_root h = None) \<and>
     (hd_withdrawals_root h = None \<longrightarrow> hd_blob_gas_used h = None) \<and>
     (hd_blob_gas_used h = None \<longrightarrow> hd_excess_blob_gas h = None) \<and>
     (hd_excess_blob_gas h = None \<longrightarrow> hd_parent_beacon_block_root h = None) \<and>
     (hd_parent_beacon_block_root h = None \<longrightarrow> hd_requests_hash h = None)"

lemma prefix_codeD: "prefix_code enc \<Longrightarrow> enc x @ a = enc y @ b \<longleftrightarrow> x = y \<and> a = b"
  by (auto simp: prefix_code_def)

lemma prefix_code_fixed:
  assumes "\<And>x. length (enc x) = n" and "inj enc"
  shows "prefix_code enc"
  using assms by (auto simp: prefix_code_def dest: injD)

lemma rlp_lawsD:
  assumes "rlp_laws C"
  shows "rlp_b256 C h @ a = rlp_b256 C h' @ b \<longleftrightarrow> h = h' \<and> a = b"
    and "rlp_address C ad @ a = rlp_address C ad' @ b \<longleftrightarrow> ad = ad' \<and> a = b"
    and "rlp_bloom C bl @ a = rlp_bloom C bl' @ b \<longleftrightarrow> bl = bl' \<and> a = b"
    and "rlp_u256 C u @ a = rlp_u256 C u' @ b \<longleftrightarrow> u = u' \<and> a = b"
    and "rlp_u64 C w @ a = rlp_u64 C w' @ b \<longleftrightarrow> w = w' \<and> a = b"
    and "rlp_bytes C bs @ a = rlp_bytes C bs' @ b \<longleftrightarrow> bs = bs' \<and> a = b"
    and "rlp_b64 C n @ a = rlp_b64 C n' @ b \<longleftrightarrow> n = n' \<and> a = b"
    and "rlp_list_header C l @ a = rlp_list_header C l' @ b \<longleftrightarrow> l = l' \<and> a = b"
  using assms unfolding rlp_laws_def by (simp_all only: prefix_codeD simp_thms)

lemma ucast_u64_inj: "(ucast (a :: u64) :: u256) = ucast b \<longleftrightarrow> a = b"
proof
  assume eq: "(ucast a :: u256) = ucast b"
  have "unat (ucast x :: u256) = unat x" for x :: u64
    using unat_bound [of x] by (simp add: unsigned_ucast_eq take_bit_nat_eq_self)
  with eq show "a = b" by (metis word_unat_eq_iff)
qed simp

text \<open>Codes compose, and a code of a type with two values has no empty word.\<close>

lemma prefix_code_comp: "prefix_code enc \<Longrightarrow> inj f \<Longrightarrow> prefix_code (\<lambda>x. enc (f x))"
  by (auto simp: prefix_code_def dest: injD)

lemma prefix_code_nonempty:
  assumes "prefix_code enc" and "x \<noteq> y"
  shows "enc x \<noteq> []"
proof
  assume "enc x = []"
  then have "enc x @ enc y = enc y @ []" by simp
  with assms show False by (metis prefix_codeD)
qed

lemma word_code_nonempty: "prefix_code enc \<Longrightarrow> enc (w :: 'a::len word) \<noteq> []"
  by (rule prefix_code_nonempty [of enc w "w + 1"]) simp_all

lemma encode_opt_None [simp]: "encode_opt enc None = []"
  by (simp add: encode_opt_def)

lemma encode_opt_append:
  assumes "prefix_code enc" and "x = None \<Longrightarrow> a = []" and "y = None \<Longrightarrow> b = []"
  shows "encode_opt enc (x :: 'a::len word option) @ a = encode_opt enc y @ b \<longleftrightarrow> x = y \<and> a = b"
proof (cases x; cases y)
  fix v w assume "x = Some v" "y = Some w"
  then show ?thesis by (simp add: encode_opt_def prefix_codeD [OF assms(1)])
qed (use assms word_code_nonempty [OF assms(1)] in \<open>auto simp: encode_opt_def\<close>)

lemmas encode_opt_last = encode_opt_append [where a = "[]" and b = "[]", simplified]

lemma u64_as_u256_code: "rlp_laws C \<Longrightarrow> prefix_code (\<lambda>f. rlp_u256 C (ucast (f :: u64)))"
  by (rule prefix_code_comp [of "rlp_u256 C"]) (simp_all add: rlp_laws_def inj_def ucast_u64_inj)

text \<open>The tail of the list: the optional fields, the encoding of each and what they amount to.\<close>

definition optional_fields :: "header \<Rightarrow> u64 option \<times> b256 option \<times> u64 option \<times> u64 option \<times> b256 option \<times> b256 option" where
  "optional_fields h = (hd_base_fee_per_gas h, hd_withdrawals_root h, hd_blob_gas_used h, hd_excess_blob_gas h,
     hd_parent_beacon_block_root h, hd_requests_hash h)"

definition encode_optional :: "'sig crypto \<Rightarrow> header \<Rightarrow> bytes" where
  "encode_optional C h =
     encode_opt (\<lambda>f. rlp_u256 C (ucast f)) (hd_base_fee_per_gas h) @
     encode_opt (rlp_b256 C) (hd_withdrawals_root h) @
     encode_opt (\<lambda>g. rlp_u256 C (ucast g)) (hd_blob_gas_used h) @
     encode_opt (\<lambda>g. rlp_u256 C (ucast g)) (hd_excess_blob_gas h) @
     encode_opt (rlp_b256 C) (hd_parent_beacon_block_root h) @
     encode_opt (rlp_b256 C) (hd_requests_hash h)"

lemma encode_optional_inj:
  assumes "rlp_laws C" and "optional_in_order h" and "optional_in_order h'"
  shows "encode_optional C h = encode_optional C h' \<longleftrightarrow> optional_fields h = optional_fields h'"
proof -
  have b: "prefix_code (rlp_b256 C)" using assms(1) by (simp add: rlp_laws_def)
  note u = u64_as_u256_code [OF assms(1)]
  have ord: "optional_in_order h \<Longrightarrow> hd_base_fee_per_gas h = None \<Longrightarrow> hd_withdrawals_root h = None"
    "optional_in_order h \<Longrightarrow> hd_withdrawals_root h = None \<Longrightarrow> hd_blob_gas_used h = None"
    "optional_in_order h \<Longrightarrow> hd_blob_gas_used h = None \<Longrightarrow> hd_excess_blob_gas h = None"
    "optional_in_order h \<Longrightarrow> hd_excess_blob_gas h = None \<Longrightarrow> hd_parent_beacon_block_root h = None"
    "optional_in_order h \<Longrightarrow> hd_parent_beacon_block_root h = None \<Longrightarrow> hd_requests_hash h = None" for h
    by (simp_all add: optional_in_order_def)
  show ?thesis
    unfolding encode_optional_def optional_fields_def
    by (simp add: encode_opt_append [OF u] encode_opt_append [OF b] encode_opt_last [OF b] ord assms(2,3))
qed

lemma seal_preimage_content:
  "rlp_laws C \<Longrightarrow> seal_preimage C h = seal_preimage C h' \<longleftrightarrow> seal_list_content C h = seal_list_content C h'"
  by (auto simp: seal_preimage_def rlp_lawsD(8))

section \<open>Properties\<close>

text \<open>A number alone after the nonce may be a base fee or blob gas.\<close>

lemma seal_preimage_gap:
  "seal_preimage C (h\<lparr>hd_base_fee_per_gas := Some x, hd_withdrawals_root := None, hd_blob_gas_used := None\<rparr>) =
   seal_preimage C (h\<lparr>hd_base_fee_per_gas := None, hd_withdrawals_root := None, hd_blob_gas_used := Some x\<rparr>)"
  by (simp add: seal_preimage_def seal_list_content_def encode_opt_def)

text \<open>
  C15. The signed bytes commit to the whole header except the seal: for two headers whose optional
  fields (base fee, withdrawals root, blob gas, excess blob gas, beacon root and requests hash)
  are present in this order without gaps, however many they have, the bytes that are hashed
  agree if and only if the headers agree in every field, the extra data up to its last 65 bytes
  and an absent mix hash or nonce read as zero. RLP only has to be readable from the front
  (\<open>rlp_laws\<close>). With a gap the bytes do not say which field is absent (\<open>seal_preimage_gap\<close>).
\<close>

theorem seal_preimage_binds:
  assumes "rlp_laws C" and "optional_in_order h" and "optional_in_order h'"
  shows "seal_preimage C h = seal_preimage C h' \<longleftrightarrow>
     h\<lparr>hd_extra_data := trimmed_extra (hd_extra_data h),
       hd_mix_hash := Some (case hd_mix_hash h of Some m \<Rightarrow> m | None \<Rightarrow> 0),
       hd_nonce := Some (case hd_nonce h of Some n \<Rightarrow> n | None \<Rightarrow> 0)\<rparr> =
     h'\<lparr>hd_extra_data := trimmed_extra (hd_extra_data h'),
       hd_mix_hash := Some (case hd_mix_hash h' of Some m \<Rightarrow> m | None \<Rightarrow> 0),
       hd_nonce := Some (case hd_nonce h' of Some n \<Rightarrow> n | None \<Rightarrow> 0)\<rparr>"
  unfolding seal_preimage_content [OF assms(1)] seal_list_content_def rlp_lawsD [OF assms(1)] ucast_u64_inj
    encode_optional_def [symmetric] encode_optional_inj [OF assms]
  by (cases h; cases h') (auto simp: optional_fields_def)

text \<open>
  Sealing does not change what is signed: replacing the last 65 bytes of the extra data
  leaves the seal hash as it is, so a producer can hash first and write the signature after.
\<close>

theorem seal_hash_ignores_seal:
  assumes "length seal = 65" and "length seal' = 65"
  shows "compute_seal_hash C (h\<lparr>hd_extra_data := prefix @ seal\<rparr>) =
     compute_seal_hash C (h\<lparr>hd_extra_data := prefix @ seal'\<rparr>)"
  using assms
  by (simp add: compute_seal_hash_def seal_preimage_def seal_list_content_def trimmed_extra_def)

text \<open>
  Recovery: exactly a 65 byte signature reaches the curve library; any other length is
  reported with the length, and an error of the library is wrapped unchanged.
\<close>

theorem ecrecover_seal_outcomes:
  "ecrecover_seal C hash signature =
     (if length signature \<noteq> 65 then Inl (InvalidSignatureLength (length signature))
      else case sig_from_raw C signature of
             Inl e \<Rightarrow> Inl (RecoveryFailed e)
           | Inr sig \<Rightarrow> (case sig_recover C sig hash of
                Inl e \<Rightarrow> Inl (RecoveryFailed e)
              | Inr a \<Rightarrow> Inr a))"
  by (simp add: ecrecover_seal_def split: sum.splits)

section \<open>A concrete instance\<close>

text \<open>Fixed-width encodings, with a unary length in front of a byte string.\<close>

definition unary :: "nat \<Rightarrow> bytes" where
  "unary n = replicate n 1 @ [0]"

definition demo_crypto :: "address crypto" where
  "demo_crypto =
     \<lparr>rlp_b256 = b256_bytes, rlp_address = address_bytes,
      rlp_bloom = (\<lambda>b. be_bytes 256 (unat b)), rlp_u256 = (\<lambda>u. be_bytes 32 (unat u)),
      rlp_u64 = u64_be_bytes, rlp_bytes = (\<lambda>bs. unary (length bs) @ bs),
      rlp_b64 = u64_be_bytes, rlp_list_header = unary,
      keccak256 = (\<lambda>bs. word_of_nat (be_value bs)),
      sig_from_raw = (\<lambda>bs. if last bs \<le> 1 then Inr (word_of_nat (be_value (take 20 bs))) else Inl ''invalid parity''),
      sig_recover = (\<lambda>sig h. Inr sig)\<rparr>"

lemma unary_prefix_code: "unary m @ a = unary n @ b \<longleftrightarrow> m = n \<and> a = b"
proof (induction m arbitrary: n)
  case 0
  then show ?case by (cases n) (auto simp: unary_def)
next
  case (Suc m)
  then show ?case by (cases n) (auto simp: unary_def)
qed

lemma prefix_code_unary_bytes: "prefix_code (\<lambda>bs. unary (length bs) @ bs)"
  by (auto simp: prefix_code_def unary_prefix_code)

lemma prefix_code_be_bytes:
  assumes "LENGTH('a) \<le> 8 * n"
  shows "prefix_code (\<lambda>w::'a::len word. be_bytes n (unat w))"
proof (rule prefix_code_fixed)
  show "inj (\<lambda>w::'a word. be_bytes n (unat w))"
  proof (rule injI)
    fix v w :: "'a word"
    assume eq: "be_bytes n (unat v) = be_bytes n (unat w)"
    have "unat x < 256 ^ n" for x :: "'a word"
    proof -
      have "unat x < 2 ^ LENGTH('a)" by (rule unat_bound)
      also have "\<dots> \<le> 2 ^ (8 * n)" using assms by (rule power_increasing) simp
      also have "\<dots> = 256 ^ n" by (simp add: power_mult)
      finally show ?thesis .
    qed
    with eq show "v = w" by (metis be_value_be_bytes mod_less word_unat_eq_iff)
  qed
qed simp

lemma demo_rlp_laws: "rlp_laws demo_crypto"
proof -
  have "prefix_code unary" by (auto simp: prefix_code_def unary_prefix_code)
  moreover have "prefix_code b256_bytes" "prefix_code address_bytes" "prefix_code u64_be_bytes"
    using prefix_code_be_bytes [where 'a = 256 and n = 32] prefix_code_be_bytes [where 'a = 160 and n = 20]
      prefix_code_be_bytes [where 'a = 64 and n = 8]
    by (simp_all add: b256_bytes_def [abs_def] address_bytes_def [abs_def] u64_be_bytes_def [abs_def])
  ultimately show ?thesis
    by (simp add: rlp_laws_def demo_crypto_def prefix_code_unary_bytes prefix_code_be_bytes)
qed

text \<open>A header of the kind the engine accepts: block 6400, validator 7 in its extra data.\<close>

definition demo_header :: header where
  "demo_header =
     \<lparr>hd_parent_hash = 1, hd_ommers_hash = 2, hd_beneficiary = 3, hd_state_root = 4,
      hd_transactions_root = 5, hd_receipts_root = 6, hd_logs_bloom = 0, hd_difficulty = 1,
      hd_number = 6400, hd_gas_limit = 30000000, hd_gas_used = 21000, hd_timestamp = 1000,
      hd_extra_data = replicate 32 0 @ address_bytes 7 @ address_bytes 7 @ replicate 45 0,
      hd_mix_hash = Some 0, hd_nonce = Some 0, hd_base_fee_per_gas = Some 7,
      hd_withdrawals_root = None, hd_blob_gas_used = None, hd_excess_blob_gas = None,
      hd_parent_beacon_block_root = None, hd_requests_hash = None\<rparr>"

theorem seal_preimage_binds_witness:
  "seal_preimage demo_crypto demo_header \<noteq> seal_preimage demo_crypto (demo_header\<lparr>hd_gas_used := 21001\<rparr>) \<and>
   seal_preimage demo_crypto (demo_header\<lparr>hd_withdrawals_root := Some 1, hd_blob_gas_used := Some 2\<rparr>) \<noteq>
     seal_preimage demo_crypto (demo_header\<lparr>hd_withdrawals_root := Some 1, hd_blob_gas_used := Some 2, hd_excess_blob_gas := Some 0\<rparr>)"
  using seal_preimage_binds [OF demo_rlp_laws, of demo_header "demo_header\<lparr>hd_gas_used := 21001\<rparr>"]
    seal_preimage_binds [OF demo_rlp_laws, of "demo_header\<lparr>hd_withdrawals_root := Some 1, hd_blob_gas_used := Some 2\<rparr>"
      "demo_header\<lparr>hd_withdrawals_root := Some 1, hd_blob_gas_used := Some 2, hd_excess_blob_gas := Some 0\<rparr>"]
  by (simp add: optional_in_order_def demo_header_def)

theorem seal_hash_ignores_seal_witness:
  "compute_seal_hash demo_crypto (demo_header\<lparr>hd_extra_data := replicate 32 0 @ replicate 65 1\<rparr>) =
   compute_seal_hash demo_crypto (demo_header\<lparr>hd_extra_data := replicate 32 0 @ replicate 65 2\<rparr>)"
  by (rule seal_hash_ignores_seal) simp_all

end
