(* ===== verification/Consensus_Difficulty.thy ===== *)
theory Consensus_Difficulty
  imports Bor_Prelude
begin

text \<open>
  \<open>bor-consensus/src/difficulty.rs\<close>: the in-turn test and the difficulty of a block, which
  decide the fork choice. The properties say that on a set of distinct signers the
  difficulties are a permutation of \<open>1..n\<close> that starts at the in-turn signer.
\<close>

section \<open>Model\<close>

definition diff_inturn :: "nat \<Rightarrow> u256" where
  "diff_inturn validator_count = word_of_nat validator_count"

definition diff_noturn :: "nat \<Rightarrow> nat \<Rightarrow> u256" where
  "diff_noturn validator_count distance =
     (let diff = (if validator_count \<le> distance then 1 else validator_count - distance)
      in word_of_nat (max diff 1))"

definition is_inturn :: "address \<Rightarrow> address list \<Rightarrow> u64 \<Rightarrow> bool" where
  "is_inturn signer validators block_number =
     (if validators = [] then False
      else validators ! (unat block_number mod length validators) = signer)"

definition calculate_difficulty :: "address \<Rightarrow> address list \<Rightarrow> u64 \<Rightarrow> u256" where
  "calculate_difficulty signer validators block_number =
     (if validators = [] then 1
      else
        let count = length validators;
            inturn_idx = unat block_number mod count
        in case position (\<lambda>v. v = signer) validators of
             Some signer_idx \<Rightarrow>
               if signer_idx = inturn_idx then diff_inturn count
               else
                 let distance =
                   (if inturn_idx < signer_idx then signer_idx - inturn_idx
                    else count - inturn_idx + signer_idx)
                 in diff_noturn count distance
           | None \<Rightarrow> 1)"

section \<open>Lemmas\<close>

text \<open>The distance of position \<open>i\<close> behind the in-turn position \<open>t\<close>, going round the ring.\<close>

definition ring_distance :: "nat \<Rightarrow> nat \<Rightarrow> nat \<Rightarrow> nat" where
  "ring_distance n t i = (if t \<le> i then i - t else n - t + i)"

lemma inturn_index_less: "i < length vs \<Longrightarrow> unat b mod length vs < length vs"
  by (rule mod_less_divisor) auto

lemma ring_distance_less: "t < n \<Longrightarrow> i < n \<Longrightarrow> ring_distance n t i < n"
  by (auto simp: ring_distance_def)

lemma ring_distance_0_iff: "t < n \<Longrightarrow> i < n \<Longrightarrow> ring_distance n t i = 0 \<longleftrightarrow> i = t"
  by (auto simp: ring_distance_def)

lemma ring_distance_inj: "t < n \<Longrightarrow> inj_on (ring_distance n t) {..<n}"
  by (rule inj_onI) (auto simp: ring_distance_def split: if_splits)

lemma ring_distance_mod: "t < n \<Longrightarrow> i < n \<Longrightarrow> ring_distance n t i = (i + n - t) mod n"
  by (auto simp: ring_distance_def mod_if)

lemma ring_distance_bij: "t < n \<Longrightarrow> bij_betw (ring_distance n t) {..<n} {..<n}"
  by (rule bij_betw_imageI [OF ring_distance_inj endo_inj_surj])
    (auto simp: ring_distance_less ring_distance_inj)

lemma calculate_difficulty_at:
  assumes "position (\<lambda>v. v = s) vs = Some i"
  shows "calculate_difficulty s vs b =
     word_of_nat (length vs - ring_distance (length vs) (unat b mod length vs) i)"
proof -
  let ?n = "length vs" and ?t = "unat b mod length vs"
  have i: "i < ?n" using position_Some [OF assms] by simp
  then have t: "?t < ?n" by (rule inturn_index_less)
  have ne: "vs \<noteq> []" using i by auto
  show ?thesis
  proof (cases "i = ?t")
    case True
    then show ?thesis
      by (simp add: calculate_difficulty_def assms ne ring_distance_def diff_inturn_def Let_def)
  next
    case False
    have "(if ?t < i then i - ?t else ?n - ?t + i) = ring_distance ?n ?t i"
      using False by (auto simp: ring_distance_def)
    moreover have "ring_distance ?n ?t i < ?n"
      using t i by (rule ring_distance_less)
    ultimately show ?thesis
      using False ne by (simp add: calculate_difficulty_def assms Let_def diff_noturn_def)
  qed
qed

lemma calculate_difficulty_absent:
  "s \<notin> set vs \<Longrightarrow> calculate_difficulty s vs b = 1"
  using position_None_iff [of "\<lambda>v. v = s" vs]
  by (auto simp: calculate_difficulty_def Let_def)

lemma unat_u256_length: "k \<le> length (vs :: 'a list) \<Longrightarrow> length vs < 2 ^ 64 \<Longrightarrow> unat (word_of_nat k :: u256) = k"
  by (subst unat_of_nat) (simp add: take_bit_nat_eq_self)

lemma unat_calculate_difficulty:
  assumes "position (\<lambda>v. v = s) vs = Some i" and "length vs < 2 ^ 64"
  shows "unat (calculate_difficulty s vs b) =
     length vs - ring_distance (length vs) (unat b mod length vs) i"
  by (simp add: calculate_difficulty_at [OF assms(1)] unat_u256_length [OF _ assms(2)])

lemma is_inturn_nth:
  "distinct vs \<Longrightarrow> i < length vs \<Longrightarrow> is_inturn (vs ! i) vs b \<longleftrightarrow> i = unat b mod length vs"
  by (cases "vs = []") (auto simp: is_inturn_def nth_eq_iff_index_eq)

lemma calculate_difficulty_inj:
  assumes "distinct vs" and "length vs < 2 ^ 64" and "a \<in> set vs" and "b \<in> set vs"
    and "calculate_difficulty a vs n = calculate_difficulty b vs n"
  shows "a = b"
proof -
  let ?t = "unat n mod length vs"
  obtain i j where i: "i < length vs" "a = vs ! i" and j: "j < length vs" "b = vs ! j"
    using assms(3,4) by (metis in_set_conv_nth)
  have t: "?t < length vs" using i(1) by (rule inturn_index_less)
  have "length vs - ring_distance (length vs) ?t i = length vs - ring_distance (length vs) ?t j"
    using assms(5) unat_calculate_difficulty [OF position_distinct [OF assms(1) i(1)] assms(2), of n]
      unat_calculate_difficulty [OF position_distinct [OF assms(1) j(1)] assms(2), of n]
    by (simp add: i(2) j(2))
  then have "ring_distance (length vs) ?t i = ring_distance (length vs) ?t j"
    using ring_distance_less [OF t i(1)] ring_distance_less [OF t j(1)] by linarith
  with ring_distance_inj [OF t] i j show ?thesis by (auto dest: inj_onD)
qed

section \<open>Properties\<close>

text \<open>
  C20. For distinct signers the difficulty at a block is a bijection from the validator set onto
  \<open>1..n\<close>: no two validators can seal the same height with equal difficulty, and every
  difficulty from \<open>1\<close> to \<open>n\<close> is taken, so the fork choice among them is never a tie.
\<close>

theorem difficulty_bijection:
  assumes "distinct vs" and "length vs < 2 ^ 64"
  shows "bij_betw (\<lambda>s. unat (calculate_difficulty s vs b)) (set vs) {1..length vs}"
proof (cases "vs = []")
  case True
  then show ?thesis by (simp add: bij_betw_def)
next
  case False
  let ?n = "length vs" and ?t = "unat b mod length vs"
  have t: "?t < ?n" using False by simp
  have dist: "bij_betw (ring_distance ?n ?t) {..<?n} {..<?n}"
    using t by (rule ring_distance_bij)
  have flip: "bij_betw (\<lambda>d. ?n - d) {..<?n} {1..?n}"
    by (rule bij_betw_byWitness [where f' = "\<lambda>d. ?n - d"]) auto
  have "bij_betw (\<lambda>i. ?n - ring_distance ?n ?t i) {..<?n} {1..?n}"
    using bij_betw_trans [OF dist flip] by (simp add: comp_def)
  moreover have "unat (calculate_difficulty (vs ! i) vs b) = ?n - ring_distance ?n ?t i"
    if "i < ?n" for i
    using unat_calculate_difficulty [OF position_distinct [OF assms(1) that] assms(2)] .
  ultimately have idx: "bij_betw (\<lambda>i. unat (calculate_difficulty (vs ! i) vs b)) {..<?n} {1..?n}"
    by (subst bij_betw_cong) auto
  have nth: "bij_betw (\<lambda>i. vs ! i) {..<?n} (set vs)"
    using assms(1) by (simp add: bij_betw_nth)
  have "bij_betw ((\<lambda>s. unat (calculate_difficulty s vs b)) \<circ> (\<lambda>i. vs ! i)) {..<?n} {1..?n}"
    using idx by (simp add: comp_def)
  then show ?thesis
    using nth bij_betw_comp_iff by blast
qed

theorem difficulty_bijection_witness:
  "bij_betw (\<lambda>s. unat (calculate_difficulty s [10, 20, 30] 7)) {10, 20, 30} {1..3}"
  using difficulty_bijection [of "[10, 20, 30]" 7] by (simp add: numeral_3_eq_3)

text \<open>
  The closed form of the difficulty: the validator \<open>d\<close> places after the in-turn position
  (round the ring) has difficulty \<open>n - d\<close>; in particular a member is in turn exactly when
  its difficulty is \<open>n\<close>, as the header of the module states.
\<close>

theorem difficulty_closed_form:
  assumes "distinct vs" and "i < length vs" and "length vs < 2 ^ 64"
  shows "unat (calculate_difficulty (vs ! i) vs b) =
       length vs - (i + length vs - unat b mod length vs) mod length vs \<and>
     (is_inturn (vs ! i) vs b \<longleftrightarrow> calculate_difficulty (vs ! i) vs b = diff_inturn (length vs))"
proof -
  let ?n = "length vs" and ?t = "unat b mod length vs"
  have t: "?t < ?n" using assms(2) by (rule inturn_index_less)
  have d: "unat (calculate_difficulty (vs ! i) vs b) = ?n - ring_distance ?n ?t i"
    using unat_calculate_difficulty [OF position_distinct [OF assms(1,2)] assms(3)] .
  have n: "unat (diff_inturn ?n) = ?n"
    by (simp add: diff_inturn_def unat_u256_length [OF _ assms(3)])
  have "calculate_difficulty (vs ! i) vs b = diff_inturn ?n \<longleftrightarrow> ring_distance ?n ?t i = 0"
    using d n ring_distance_less [OF t assms(2)] assms(2) by (auto simp: word_unat_eq_iff)
  then have "is_inturn (vs ! i) vs b \<longleftrightarrow> calculate_difficulty (vs ! i) vs b = diff_inturn ?n"
    using t assms by (simp add: is_inturn_nth ring_distance_0_iff)
  then show ?thesis
    using d t assms(2) by (simp add: ring_distance_mod)
qed

theorem difficulty_closed_form_witness:
  "unat (calculate_difficulty ([10, 20, 30, 40, 50] ! 1) [10, 20, 30, 40, 50] 3) = 2"
  using difficulty_closed_form [of "[10, 20, 30, 40, 50]" 1 3] by simp

text \<open>
  For any list, even with repeated or no validators, the difficulty lies between 1 and
  \<open>max 1 n\<close>; a signer outside the list gets the minimum.
\<close>

theorem difficulty_bounds:
  assumes "length vs < 2 ^ 64"
  shows "1 \<le> unat (calculate_difficulty s vs b) \<and>
     unat (calculate_difficulty s vs b) \<le> max 1 (length vs) \<and>
     (s \<in> set vs \<or> calculate_difficulty s vs b = 1)"
proof (cases "position (\<lambda>v. v = s) vs")
  case None
  then have "s \<notin> set vs" by (auto simp: position_None_iff)
  then show ?thesis by (simp add: calculate_difficulty_absent)
next
  case (Some i)
  then have i: "i < length vs" and s: "s \<in> set vs" by (auto dest!: position_Some)
  then have "ring_distance (length vs) (unat b mod length vs) i < length vs"
    by (intro ring_distance_less inturn_index_less)
  with s show ?thesis
    by (simp add: unat_calculate_difficulty [OF Some assms])
qed

theorem difficulty_bounds_witness:
  "1 \<le> unat (calculate_difficulty 20 [10, 20, 20] 5) \<and>
   unat (calculate_difficulty 20 [10, 20, 20] 5) \<le> 3"
  using difficulty_bounds [of "[10, 20, 20]" 20 5] by simp

end
