(* ===== verification/Consensus_Recents.thy ===== *)
theory Consensus_Recents
  imports Bor_Primitives
begin

text \<open>
  \<open>bor-consensus/src/recents.rs\<close> and \<open>snapshot.rs\<close>: the two logs of recent block signers.
  Both keep a \<open>BTreeMap\<close> from block numbers to signers and cut it to a window of
  \<open>validators / 2 + 1\<close> blocks. What the consensus rules need of such a log is the locale
  \<open>signer_log\<close>; it is interpreted on \<open>Recents\<close> and on \<open>BorSnapshot\<close>.
\<close>

section \<open>recents.rs\<close>

text \<open>
  The window arithmetic that \<open>recents.rs\<close>, \<open>snapshot.rs\<close> and \<open>validation.rs\<close> share:
  \<open>len / 2 + 1\<close> blocks, counted back from the current block and stopping at block 0.
\<close>

definition sign_window :: "nat \<Rightarrow> nat" where
  "sign_window validator_count = validator_count div 2 + 1"

definition window_start :: "u64 \<Rightarrow> nat \<Rightarrow> u64" where
  "window_start block validator_count =
     saturating_sub block (word_of_nat (sign_window validator_count))"

record recents =
  rc_signers :: "(u64, address) btree"

definition recents_new :: recents where
  "recents_new = \<lparr>rc_signers = []\<rparr>"

definition is_recently_signed :: "recents \<Rightarrow> address \<Rightarrow> u64 \<Rightarrow> nat \<Rightarrow> panic + bool" where
  "is_recently_signed r signer current_block validator_count =
     bindR (bt_range (window_start current_block validator_count) current_block (rc_signers r))
       (\<lambda>es. Inr (list_ex (\<lambda>e. snd e = signer) es))"

definition recents_add_signer :: "recents \<Rightarrow> u64 \<Rightarrow> address \<Rightarrow> recents" where
  "recents_add_signer r block signer = r\<lparr>rc_signers := bt_insert block signer (rc_signers r)\<rparr>"

definition recents_prune :: "recents \<Rightarrow> u64 \<Rightarrow> nat \<Rightarrow> recents" where
  "recents_prune r current_block validator_count =
     r\<lparr>rc_signers := bt_split_off (window_start current_block validator_count) (rc_signers r)\<rparr>"

section \<open>snapshot.rs\<close>

record bor_snapshot =
  sn_number :: u64
  sn_hash :: b256
  sn_validator_set :: validator_set
  sn_recents :: "(u64, address) btree"

definition snapshot_new :: "u64 \<Rightarrow> b256 \<Rightarrow> validator_set \<Rightarrow> bor_snapshot" where
  "snapshot_new number hash vset =
     \<lparr>sn_number = number, sn_hash = hash, sn_validator_set = vset, sn_recents = []\<rparr>"

definition snapshot_apply :: "bor_snapshot \<Rightarrow> u64 \<Rightarrow> address \<Rightarrow> bor_snapshot" where
  "snapshot_apply s block_number signer =
     (let s1 = s\<lparr>sn_number := block_number,
                 sn_recents := bt_insert block_number signer (sn_recents s)\<rparr>;
          validator_count = length (vs_validators (sn_validator_set s1))
      in if 0 < validator_count then
           s1\<lparr>sn_recents :=
                 bt_split_off (window_start block_number validator_count) (sn_recents s1)\<rparr>
         else s1)"

definition snapshot_is_authorized :: "bor_snapshot \<Rightarrow> address \<Rightarrow> bool" where
  "snapshot_is_authorized s addr =
     list_ex (\<lambda>v. v_signer v = addr) (vs_validators (sn_validator_set s))"

text \<open>
  \<open>encode\<close> and \<open>decode\<close> go through \<open>serde_json\<close>, whose two functions are arguments; an
  encoding error is the \<open>expect\<close> panic.
\<close>

definition snapshot_encode :: "(bor_snapshot \<Rightarrow> string + bytes) \<Rightarrow> bor_snapshot \<Rightarrow> panic + bytes" where
  "snapshot_encode to_vec s =
     map_err (\<lambda>_. ExpectFailed ''snapshot serialization should not fail'') (to_vec s)"

definition snapshot_decode :: "(bytes \<Rightarrow> string + bor_snapshot) \<Rightarrow> bytes \<Rightarrow> string + bor_snapshot" where
  "snapshot_decode from_slice data = from_slice data"

section \<open>The contract of a signer log\<close>

text \<open>
  \<open>signer_at s k\<close> is the signer recorded for block \<open>k\<close>, \<open>record_block n a\<close> records block
  \<open>n\<close> and forgets what is more than \<open>w\<close> blocks older. The lemmas are what the
  anti-double-sign rule rests on, for any log that keeps this contract.
\<close>

locale signer_log =
  fixes signer_at :: "'s \<Rightarrow> u64 \<Rightarrow> address option"
    and record_block :: "u64 \<Rightarrow> address \<Rightarrow> 's \<Rightarrow> 's"
    and ok :: "'s \<Rightarrow> bool"
    and w :: nat
  assumes ok_record: "ok s \<Longrightarrow> ok (record_block n a s)"
    and signer_at_record: "ok s \<Longrightarrow>
      signer_at (record_block n a s) k =
        (if unat n - w \<le> unat k then if k = n then Some a else signer_at s k else None)"
begin

lemma signer_at_recorded: "ok s \<Longrightarrow> signer_at (record_block n a s) n = Some a"
  by (simp add: signer_at_record)

lemma fold_record_ok: "ok s \<Longrightarrow> ok (fold (\<lambda>(k, b). record_block k b) bs s)"
  by (induction bs arbitrary: s) (auto intro: ok_record)

text \<open>An entry survives every later block of its window.\<close>

lemma fold_record_keeps:
  assumes "ok s" and "signer_at s n = Some a"
    and "\<And>k b. (k, b) \<in> set bs \<Longrightarrow> unat n < unat k \<and> unat k \<le> unat n + w"
  shows "signer_at (fold (\<lambda>(k, b). record_block k b) bs s) n = Some a"
  using assms
proof (induction bs arbitrary: s)
  case Nil
  then show ?case by simp
next
  case (Cons e bs)
  obtain k b where e: "e = (k, b)" by (cases e)
  have k: "unat n < unat k \<and> unat k \<le> unat n + w"
    using Cons.prems(3) [of k b] by (simp add: e)
  have "signer_at (record_block k b s) n = Some a"
    using Cons.prems(1,2) k by (auto simp: signer_at_record)
  then have "signer_at (fold (\<lambda>(k, b). record_block k b) bs (record_block k b s)) n = Some a"
    using Cons.prems by (intro Cons.IH) (auto intro: ok_record)
  then show ?case by (simp add: e)
qed

text \<open>What the log holds after any run of blocks of strictly increasing numbers.\<close>

lemma fold_record_window:
  assumes "ok s" and "\<And>k. signer_at s k = None"
    and "sorted_wrt (<) (map fst (bs @ [(n, a)]))"
  shows "signer_at (fold (\<lambda>(k, b). record_block k b) (bs @ [(n, a)]) s) k =
     (if unat n - w \<le> unat k then map_of (bs @ [(n, a)]) k else None)"
  using assms(3)
proof (induction bs arbitrary: n a rule: rev_induct)
  case Nil
  then show ?case using assms(1,2) by (simp add: signer_at_record)
next
  case (snoc e bs)
  obtain m b where e: "e = (m, b)" by (cases e)
  let ?s = "fold (\<lambda>(k, b). record_block k b) (bs @ [(m, b)]) s"
  have IH: "signer_at ?s k = (if unat m - w \<le> unat k then map_of (bs @ [(m, b)]) k else None)"
    using snoc.prems by (intro snoc.IH) (simp add: e sorted_wrt_append)
  have "ok ?s" using assms(1) by (rule fold_record_ok)
  then have step: "signer_at (record_block n a ?s) k =
      (if unat n - w \<le> unat k then if k = n then Some a else signer_at ?s k else None)"
    by (rule signer_at_record)
  have mn: "unat m < unat n" and new: "map_of (bs @ [(m, b)]) n = None"
    using snoc.prems by (auto simp: e sorted_wrt_append word_less_nat_alt map_of_eq_None_iff)
  then have "map_of ((bs @ [(m, b)]) @ [(n, a)]) k =
      (if k = n then Some a else map_of (bs @ [(m, b)]) k)"
    by (auto simp: map_add_def split: option.splits)
  with step IH mn show ?case by (auto simp: e)
qed

text \<open>With more signers than the window has blocks, one of them is always free to sign.\<close>

lemma free_signer_exists:
  assumes "distinct vs" and "w < length vs"
  shows "\<exists>a\<in>set vs. \<not> (\<exists>k. unat cur - w \<le> unat k \<and> unat k < unat cur \<and> signer_at s k = Some a)"
proof -
  let ?busy = "{a. \<exists>k. unat cur - w \<le> unat k \<and> unat k < unat cur \<and> signer_at s k = Some a}"
  let ?img = "(\<lambda>k. the (signer_at s (word_of_nat k))) ` {unat cur - w..<unat cur}"
  have "a \<in> ?img" if "a \<in> ?busy" for a
  proof -
    from that obtain k where k: "unat cur - w \<le> unat k" "unat k < unat cur" "signer_at s k = Some a"
      by blast
    then have "a = the (signer_at s (word_of_nat (unat k)))" by simp
    with k show ?thesis by (intro image_eqI [of _ _ "unat k"]) simp_all
  qed
  then have sub: "?busy \<subseteq> ?img" by blast
  have "card ?busy \<le> card ?img"
    using sub by (intro card_mono) simp_all
  also have "\<dots> \<le> w"
    using card_image_le [of "{unat cur - w..<unat cur}"] by (rule order_trans) simp_all
  finally have "card ?busy < card (set vs)"
    using assms by (simp add: distinct_card)
  then have "\<not> set vs \<subseteq> ?busy"
    using card_mono [of ?busy "set vs"] finite_subset [OF sub] by force
  then show ?thesis by blast
qed

end

section \<open>Both logs keep the contract\<close>

lemma window_start_le:
  "c < 2 ^ 64 \<Longrightarrow> window_start n c \<le> k \<longleftrightarrow> unat n - sign_window c \<le> unat k"
proof -
  assume "c < 2 ^ 64"
  then have "unat (word_of_nat (sign_window c) :: u64) = sign_window c"
    by (subst unat_of_nat) (simp add: take_bit_nat_eq_self sign_window_def)
  then show ?thesis
    by (simp add: window_start_def word_le_nat_alt)
qed

lemma bt_range_window [simp]:
  "bt_range (window_start n c) n m = Inr (bt_entries (window_start n c) n m)"
  by (simp add: window_start_def)

interpretation rc: signer_log "\<lambda>r::recents. bt_get (rc_signers r)"
    "\<lambda>n a r. recents_prune (recents_add_signer r n a) n c"
    "\<lambda>r::recents. bt_inv (rc_signers r) \<and> c < 2 ^ 64" "sign_window c" for c
proof unfold_locales
  fix r :: recents and n a k
  assume "bt_inv (rc_signers r) \<and> c < 2 ^ 64"
  then show "bt_inv (rc_signers (recents_prune (recents_add_signer r n a) n c)) \<and> c < 2 ^ 64"
    and "bt_get (rc_signers (recents_prune (recents_add_signer r n a) n c)) k =
      (if unat n - sign_window c \<le> unat k then if k = n then Some a else bt_get (rc_signers r) k else None)"
    using bt.lookup_ins_split [of "rc_signers r" _ n a k]
    by (auto simp: recents_prune_def recents_add_signer_def Let_def window_start_le)
qed

interpretation sn: signer_log "\<lambda>s::bor_snapshot. bt_get (sn_recents s)" "\<lambda>n a s. snapshot_apply s n a"
    "\<lambda>s::bor_snapshot. bt_inv (sn_recents s) \<and> length (vs_validators (sn_validator_set s)) = c \<and> 0 < c \<and> c < 2 ^ 64"
    "sign_window c" for c
proof unfold_locales
  fix s :: bor_snapshot and n a k
  assume ok: "bt_inv (sn_recents s) \<and> length (vs_validators (sn_validator_set s)) = c \<and> 0 < c \<and> c < 2 ^ 64"
  then show "bt_inv (sn_recents (snapshot_apply s n a)) \<and>
      length (vs_validators (sn_validator_set (snapshot_apply s n a))) = c \<and> 0 < c \<and> c < 2 ^ 64"
    by (auto simp: snapshot_apply_def Let_def)
  from ok show "bt_get (sn_recents (snapshot_apply s n a)) k =
      (if unat n - sign_window c \<le> unat k then if k = n then Some a else bt_get (sn_recents s) k else None)"
    using bt.lookup_ins_split [of "sn_recents s" _ n a k]
    by (auto simp: snapshot_apply_def Let_def window_start_le)
qed

section \<open>Lemmas\<close>

text \<open>The rule the code enforces: \<open>a\<close> signed one of the \<open>sign_window c\<close> blocks before \<open>cur\<close>.\<close>

definition signed_in_window :: "(u64 \<Rightarrow> address option) \<Rightarrow> nat \<Rightarrow> u64 \<Rightarrow> address \<Rightarrow> bool" where
  "signed_in_window log c cur a \<longleftrightarrow>
     (\<exists>k. unat cur - sign_window c \<le> unat k \<and> unat k < unat cur \<and> log k = Some a)"

lemma window_scan:
  assumes "bt_inv m" and "c < 2 ^ 64"
  shows "list_ex (\<lambda>e. snd e = a) (bt_entries (window_start n c) n m) \<longleftrightarrow>
     signed_in_window (bt_get m) c n a"
proof -
  have "list_ex (\<lambda>e. snd e = a) es \<longleftrightarrow> a \<in> snd ` set es" for es :: "(u64 \<times> address) list"
    by (auto simp: list_ex_iff)
  then show ?thesis
    by (simp add: bt.scan_iff [OF assms(1)] signed_in_window_def window_start_le [OF assms(2)]
        word_less_nat_alt)
qed

lemma is_recently_signed_eq:
  "bt_inv (rc_signers r) \<Longrightarrow> c < 2 ^ 64 \<Longrightarrow>
     is_recently_signed r a n c = Inr (signed_in_window (bt_get (rc_signers r)) c n a)"
  by (simp add: is_recently_signed_def window_scan)

lemma sign_window_less: "3 \<le> c \<Longrightarrow> sign_window c < c"
  by (simp add: sign_window_def)

lemma recents_inv_new [simp]: "bt_inv (rc_signers recents_new)"
  by (simp add: recents_new_def)

lemma recents_inv_record:
  "bt_inv (rc_signers r) \<Longrightarrow> bt_inv (rc_signers (recents_prune (recents_add_signer r n a) m c))"
  by (auto simp: recents_prune_def recents_add_signer_def)

lemma bt_get_prune:
  "c < 2 ^ 64 \<Longrightarrow> bt_get (rc_signers (recents_prune r n c)) k =
     (if unat n - sign_window c \<le> unat k then bt_get (rc_signers r) k else None)"
  by (simp add: recents_prune_def bt_get_split_off window_start_le)

section \<open>Properties\<close>

text \<open>
  The anti-double-sign check never panics and decides exactly whether the signer is
  recorded for one of the \<open>validators / 2 + 1\<close> blocks before the current one.
\<close>

theorem is_recently_signed_exact:
  assumes "bt_inv (rc_signers r)" and "c < 2 ^ 64"
  shows "is_recently_signed r a n c =
     Inr (\<exists>k. unat n - (c div 2 + 1) \<le> unat k \<and> unat k < unat n \<and> bt_get (rc_signers r) k = Some a)"
  using is_recently_signed_eq [OF assms] by (simp add: signed_in_window_def sign_window_def)

theorem is_recently_signed_exact_witness:
  "is_recently_signed (recents_add_signer recents_new 5 9) 9 11 10 = Inr True \<and>
   is_recently_signed (recents_add_signer recents_new 5 9) 9 12 10 = Inr False"
proof -
  let ?r = "recents_add_signer recents_new 5 9"
  have inv: "bt_inv (rc_signers ?r)" by (simp add: recents_add_signer_def recents_new_def bt_inv_def)
  have get: "bt_get (rc_signers ?r) k = (if k = 5 then Some 9 else None)" for k
    by (simp add: recents_add_signer_def recents_new_def bt_get_def)
  show ?thesis
    using is_recently_signed_exact [OF inv, of 10 9 11] is_recently_signed_exact [OF inv, of 10 9 12]
    by (simp add: get)
qed

text \<open>
  Pruning at a block never changes the verdict of a later check: the entries it drops are
  outside the window of every block from that one on (for the same validator count).
\<close>

theorem prune_preserves_checks:
  assumes "bt_inv (rc_signers r)" and "c < 2 ^ 64" and "n \<le> m"
  shows "is_recently_signed (recents_prune r n c) a m c = is_recently_signed r a m c"
proof -
  have inv: "bt_inv (rc_signers (recents_prune r n c))"
    using assms(1) by (auto simp: recents_prune_def)
  have nm: "unat n \<le> unat m" using assms(3) by (simp add: word_le_nat_alt)
  show ?thesis
    using nm by (auto simp: is_recently_signed_eq [OF inv assms(2)] is_recently_signed_eq [OF assms(1,2)]
        signed_in_window_def bt_get_prune [OF assms(2)])
qed

theorem prune_preserves_checks_witness:
  "is_recently_signed (recents_prune (recents_add_signer recents_new 5 9) 8 5) 9 8 5 = Inr True"
proof -
  let ?r = "recents_add_signer recents_new 5 9"
  have inv: "bt_inv (rc_signers ?r)" by (simp add: recents_add_signer_def recents_new_def bt_inv_def)
  have "is_recently_signed (recents_prune ?r 8 5) 9 8 5 = is_recently_signed ?r 9 8 5"
    by (rule prune_preserves_checks [OF inv]) simp_all
  moreover have "is_recently_signed ?r 9 8 5 = Inr True"
    by (simp add: is_recently_signed_def recents_add_signer_def recents_new_def bt_entries_def
        bt_range_def window_start_def sign_window_def saturating_sub_def)
  ultimately show ?thesis by simp
qed

text \<open>
  Liveness of the signing rule: with at least three distinct signers, whatever the log
  holds, some authorised signer passes the check at every block, so the rule alone cannot
  halt the chain.
\<close>

theorem some_signer_may_sign:
  assumes "bt_inv (rc_signers r)" and "distinct vs" and "3 \<le> length vs" and "length vs < 2 ^ 64"
  shows "\<exists>a\<in>set vs. is_recently_signed r a n (length vs) = Inr False"
  using rc.free_signer_exists [OF assms(2), of "length vs" n r]
  by (simp add: sign_window_less assms(3) is_recently_signed_eq [OF assms(1,4)] signed_in_window_def)

theorem some_signer_may_sign_witness:
  "\<exists>a\<in>set [7, 8, 9]. is_recently_signed (recents_add_signer (recents_add_signer recents_new 1 7) 2 8) a 3 3 = Inr False"
  using some_signer_may_sign
    [of "recents_add_signer (recents_add_signer recents_new 1 7) 2 8" "[7, 8, 9]" 3]
  by (simp add: recents_add_signer_def recents_new_def bt_inv_def numeral_3_eq_3)

text \<open>
  C33. With one or two validators the window covers the whole set: once each validator has
  signed one of the last \<open>n\<close> blocks, no authorised signer passes the check at the next block
  and the chain stalls, although the in-turn signer is one of them.
\<close>

theorem small_sets_stall:
  assumes "bt_inv (rc_signers r)" and "length vs \<in> {1, 2}" and "length vs \<le> unat n"
    and "set vs \<subseteq> {a. \<exists>k. unat n - length vs \<le> unat k \<and> unat k < unat n \<and> bt_get (rc_signers r) k = Some a}"
  shows "\<forall>a\<in>set vs. is_recently_signed r a n (length vs) = Inr True"
proof
  fix a
  assume "a \<in> set vs"
  then obtain k where "unat n - length vs \<le> unat k" "unat k < unat n" "bt_get (rc_signers r) k = Some a"
    using assms(4) by blast
  moreover have "sign_window (length vs) = length vs"
    using assms(2) by (auto simp: sign_window_def)
  ultimately have "signed_in_window (bt_get (rc_signers r)) (length vs) n a"
    unfolding signed_in_window_def by auto
  moreover have "length vs < 2 ^ 64" using assms(2) by auto
  ultimately show "is_recently_signed r a n (length vs) = Inr True"
    by (simp add: is_recently_signed_eq [OF assms(1)])
qed

theorem small_sets_stall_witness:
  "map (\<lambda>a. is_recently_signed
     (recents_prune (recents_add_signer
       (recents_prune (recents_add_signer recents_new 100 7) 100 2) 101 8) 101 2) a 102 2) [7, 8] = [Inr True, Inr True]"
proof -
  let ?r = "recents_prune (recents_add_signer
       (recents_prune (recents_add_signer recents_new 100 7) 100 2) 101 8) 101 2"
  have sg: "rc_signers ?r = [(100, 7), (101, 8)]"
    by (simp add: recents_prune_def recents_add_signer_def recents_new_def bt_split_off_def
        window_start_def sign_window_def saturating_sub_def)
  have "\<forall>a\<in>set [7, 8]. is_recently_signed ?r a 102 (length [7, 8 :: address]) = Inr True"
  proof (rule small_sets_stall)
    show "bt_inv (rc_signers ?r)" by (simp only: sg) (simp add: bt_inv_def)
    show "length [7, 8 :: address] \<in> {1, 2}" and "length [7, 8 :: address] \<le> unat (102 :: u64)" by simp_all
    have "\<exists>k. unat (102 :: u64) - length [7, 8 :: address] \<le> unat k \<and> unat k < unat (102 :: u64) \<and>
        bt_get (rc_signers ?r) k = Some 7"
      by (simp only: sg, rule exI [of _ 100]) (simp add: bt_get_def)
    moreover have "\<exists>k. unat (102 :: u64) - length [7, 8 :: address] \<le> unat k \<and> unat k < unat (102 :: u64) \<and>
        bt_get (rc_signers ?r) k = Some 8"
      by (simp only: sg, rule exI [of _ 101]) (simp add: bt_get_def)
    ultimately show "set [7, 8] \<subseteq> {a. \<exists>k. unat (102 :: u64) - length [7, 8 :: address] \<le> unat k \<and>
        unat k < unat (102 :: u64) \<and> bt_get (rc_signers ?r) k = Some a}"
      by simp
  qed
  then show ?thesis by (simp add: numeral_2_eq_2)
qed

text \<open>
  What a snapshot remembers: after applying blocks of strictly increasing numbers to a new
  snapshot of a non-empty validator set, its recent signers are exactly the applied blocks of
  the last \<open>validators / 2 + 1\<close> numbers and the current one.
\<close>

theorem snapshot_recents_window:
  assumes "sorted_wrt (<) (map fst (bs @ [(n, a)]))"
    and "vs_validators vset \<noteq> []" and "length (vs_validators vset) < 2 ^ 64"
  shows "bt_get (sn_recents (fold (\<lambda>(k, b) s. snapshot_apply s k b) (bs @ [(n, a)]) (snapshot_new n0 h vset))) k =
     (if unat n - sign_window (length (vs_validators vset)) \<le> unat k
      then map_of (bs @ [(n, a)]) k else None)"
proof (rule sn.fold_record_window [OF _ _ assms(1)])
  show "bt_inv (sn_recents (snapshot_new n0 h vset)) \<and>
      length (vs_validators (sn_validator_set (snapshot_new n0 h vset))) = length (vs_validators vset) \<and>
      0 < length (vs_validators vset) \<and> length (vs_validators vset) < 2 ^ 64"
    using assms(2,3) by (simp add: snapshot_new_def)
  show "bt_get (sn_recents (snapshot_new n0 h vset)) k = None" for k
    by (simp add: snapshot_new_def bt_get_def)
qed

theorem snapshot_recents_window_witness:
  "bt_get (sn_recents (fold (\<lambda>(k, b) s. snapshot_apply s k b) [(101, 7), (102, 8), (103, 9)]
     (snapshot_new 100 0 \<lparr>vs_validators =
        [\<lparr>v_id = 1, v_address = 7, v_voting_power = 1, v_signer = 7, v_proposer_priority = 0\<rparr>],
        vs_proposer = None\<rparr>))) 102 = Some 8"
  using snapshot_recents_window [of "[(101, 7), (102, 8)]" 103 9
      "\<lparr>vs_validators =
        [\<lparr>v_id = 1, v_address = 7, v_voting_power = 1, v_signer = 7, v_proposer_priority = 0\<rparr>],
        vs_proposer = None\<rparr>" 100 0 102]
  by (simp add: sign_window_def)

text \<open>
  The snapshot and the engine's \<open>Recents\<close> are one mechanism: applying a block to a
  snapshot of a non-empty validator set changes its log exactly as recording the signer and
  pruning does in \<open>Recents\<close>, and keeps the validator set, so the authorised signers.
\<close>

theorem snapshot_apply_refines_recents:
  assumes "vs_validators (sn_validator_set s) \<noteq> []"
  shows "\<lparr>rc_signers = sn_recents (snapshot_apply s n a)\<rparr> =
      recents_prune (recents_add_signer \<lparr>rc_signers = sn_recents s\<rparr> n a) n
        (length (vs_validators (sn_validator_set s))) \<and>
     sn_number (snapshot_apply s n a) = n \<and>
     snapshot_is_authorized (snapshot_apply s n a) = snapshot_is_authorized s"
  using assms by (auto simp: snapshot_apply_def Let_def recents_prune_def recents_add_signer_def
      snapshot_is_authorized_def)

theorem snapshot_apply_refines_recents_witness:
  "sn_number (snapshot_apply (snapshot_new 100 0 \<lparr>vs_validators =
        [\<lparr>v_id = 1, v_address = 7, v_voting_power = 1, v_signer = 7, v_proposer_priority = 0\<rparr>],
        vs_proposer = None\<rparr>) 101 7) = 101"
  using snapshot_apply_refines_recents [of "snapshot_new 100 0 \<lparr>vs_validators =
        [\<lparr>v_id = 1, v_address = 7, v_voting_power = 1, v_signer = 7, v_proposer_priority = 0\<rparr>],
        vs_proposer = None\<rparr>" 101 7]
  by (simp add: snapshot_new_def)

end
