(* ===== verification/Consensus_Validation.thy ===== *)
theory Consensus_Validation
  imports Consensus_Seal Consensus_Difficulty Consensus_Recents
begin

text \<open>
  \<open>bor-consensus/src/validation.rs\<close> and \<open>block_validation.rs\<close>: the header and block rules
  with every check in the order of the code. The properties characterise acceptance exactly.
\<close>

section \<open>validation.rs\<close>

definition MAX_FUTURE_BLOCK_TIME :: u64 where
  [simp]: "MAX_FUTURE_BLOCK_TIME = 15"

datatype validation_error =
    NonZeroNonce
  | NonZeroMixHash
  | NonEmptyOmmers
  | InvalidExtraData string
  | WrongDifficulty u256 u256
  | FutureBlock u64 u64
  | UnauthorizedSigner address
  | RecentlySigned address
  | SealError string
  | InvalidGasLimit u64 u64
  | InvalidBaseFee u256 u256
  | TimestampNotIncreasing u64 u64
  | NonEmptyWithdrawals
  | MissingValidatorsAtSpanStart u64
  | StateRootMismatch b256 b256
  | ReceiptRootMismatch b256 b256
  | GasUsedMismatch u64 u64

text \<open>\<open>Display\<close> of the errors; Alloy's output of an address and of a hash are arguments.\<close>

primrec show_validation_error :: "(address \<Rightarrow> string) \<Rightarrow> (b256 \<Rightarrow> string) \<Rightarrow> validation_error \<Rightarrow> string" where
  "show_validation_error sa sh NonZeroNonce = ''non-zero nonce: expected 0x0000000000000000''"
| "show_validation_error sa sh NonZeroMixHash = ''non-zero mix hash''"
| "show_validation_error sa sh NonEmptyOmmers = ''non-empty ommers list''"
| "show_validation_error sa sh (InvalidExtraData s) = ''invalid extra data: '' @ s"
| "show_validation_error sa sh (WrongDifficulty expected got) =
     ''wrong difficulty: expected '' @ show_nat (unat expected) @ '', got '' @ show_nat (unat got)"
| "show_validation_error sa sh (FutureBlock block_time now) =
     ''block timestamp '' @ show_u64 block_time @ '' is too far in the future (now='' @ show_u64 now @ '')''"
| "show_validation_error sa sh (UnauthorizedSigner a) = ''unauthorized signer: '' @ sa a"
| "show_validation_error sa sh (RecentlySigned a) = ''signer '' @ sa a @ '' signed recently''"
| "show_validation_error sa sh (SealError s) = ''seal recovery failed: '' @ s"
| "show_validation_error sa sh (InvalidGasLimit expected got) =
     ''invalid gas limit: expected '' @ show_u64 expected @ '', got '' @ show_u64 got"
| "show_validation_error sa sh (InvalidBaseFee expected got) =
     ''invalid base fee: expected '' @ show_nat (unat expected) @ '', got '' @ show_nat (unat got)"
| "show_validation_error sa sh (TimestampNotIncreasing block_time parent_time) =
     ''block timestamp must be greater than parent: block='' @ show_u64 block_time @ '', parent='' @
     show_u64 parent_time"
| "show_validation_error sa sh NonEmptyWithdrawals = ''non-empty withdrawals''"
| "show_validation_error sa sh (MissingValidatorsAtSpanStart n) =
     ''missing validators at span start block '' @ show_u64 n"
| "show_validation_error sa sh (StateRootMismatch expected got) =
     ''state root mismatch: expected '' @ sh expected @ '', got '' @ sh got"
| "show_validation_error sa sh (ReceiptRootMismatch expected got) =
     ''receipt root mismatch: expected '' @ sh expected @ '', got '' @ sh got"
| "show_validation_error sa sh (GasUsedMismatch expected got) =
     ''gas used mismatch: expected '' @ show_u64 expected @ '', got '' @ show_u64 got"

record header_validation_params =
  hp_number :: u64
  hp_timestamp :: u64
  hp_nonce :: u64
  hp_mix_hash :: b256
  hp_difficulty :: u256
  hp_extra_data :: bytes
  hp_gas_limit :: u64
  hp_seal_hash :: b256
  hp_has_ommers :: bool

record parent_validation_params =
  pp_parent_timestamp :: u64

definition validate_header ::
    "bool \<Rightarrow> 'sig crypto \<Rightarrow> header_validation_params \<Rightarrow> address list \<Rightarrow> (u64, address) btree \<Rightarrow> u64 \<Rightarrow>
     validation_error failure + address" where
  "validate_header oc C params authorized_signers recent_signers current_time =
     bindR (ensure (hp_nonce params = 0) (Err NonZeroNonce)) (\<lambda>_.
     bindR (ensure (hp_mix_hash params = 0) (Err NonZeroMixHash)) (\<lambda>_.
     bindR (ensure (\<not> hp_has_ommers params) (Err NonEmptyOmmers)) (\<lambda>_.
     bindR (map_err (\<lambda>e. Err (InvalidExtraData (show_extra_data_error e)))
              (extra_data_parse (hp_extra_data params))) (\<lambda>extra.
     bindR (map_err Panic (u64_add oc current_time MAX_FUTURE_BLOCK_TIME)) (\<lambda>horizon.
     bindR (ensure (\<not> horizon < hp_timestamp params)
              (Err (FutureBlock (hp_timestamp params) current_time))) (\<lambda>_.
     bindR (map_err (\<lambda>e. Err (SealError (show_seal_error e)))
              (ecrecover_seal C (hp_seal_hash params) (ed_seal extra))) (\<lambda>signer.
     bindR (ensure (List.member authorized_signers signer) (Err (UnauthorizedSigner signer))) (\<lambda>_.
     bindR (map_err Panic (bt_range
              (window_start (hp_number params) (length authorized_signers)) (hp_number params)
              recent_signers)) (\<lambda>window.
     bindR (ensure (\<not> list_ex (\<lambda>e. snd e = signer) window) (Err (RecentlySigned signer))) (\<lambda>_.
     let expected_diff = calculate_difficulty signer authorized_signers (hp_number params) in
     bindR (ensure (hp_difficulty params = expected_diff)
              (Err (WrongDifficulty expected_diff (hp_difficulty params)))) (\<lambda>_.
     Inr signer)))))))))))"

definition validate_header_against_parent ::
    "header_validation_params \<Rightarrow> parent_validation_params \<Rightarrow> validation_error + unit" where
  "validate_header_against_parent params parent =
     ensure (\<not> hp_timestamp params \<le> pp_parent_timestamp parent)
       (TimestampNotIncreasing (hp_timestamp params) (pp_parent_timestamp parent))"

section \<open>block\_validation.rs\<close>

text \<open>The loop over the zipped lists; \<open>show_address\<close> is the \<open>Display\<close> of an address.\<close>

primrec check_validators ::
    "(address \<Rightarrow> string) \<Rightarrow> nat \<Rightarrow> (address \<times> address) list \<Rightarrow> validation_error failure + unit" where
  "check_validators show_address i [] = Inr ()"
| "check_validators show_address i (p # ps) =
     bindR (ensure (fst p = snd p) (Err (InvalidExtraData
         (''validator mismatch at index '' @ show_nat i @ '': got '' @ show_address (fst p) @
          '', expected '' @ show_address (snd p)))))
       (\<lambda>_. check_validators show_address (Suc i) ps)"

definition validate_block_pre_execution ::
    "(address \<Rightarrow> string) \<Rightarrow> u64 \<Rightarrow> bytes \<Rightarrow> bool \<Rightarrow> bool \<Rightarrow> u64 \<Rightarrow> address list option \<Rightarrow>
     validation_error failure + unit" where
  "validate_block_pre_execution show_address block_number extra has_ommers has_withdrawals sz expected =
     bindR (ensure (\<not> has_ommers) (Err NonEmptyOmmers)) (\<lambda>_.
     bindR (ensure (\<not> has_withdrawals) (Err NonEmptyWithdrawals)) (\<lambda>_.
     bindR (if 0 < block_number
            then map_err Panic (bindR (u64_rem block_number sz) (\<lambda>r. Inr (r = 0)))
            else Inr False) (\<lambda>span_start.
     if span_start then
       bindR (map_err (\<lambda>e. Err (InvalidExtraData (show_extra_data_error e))) (extra_data_parse extra)) (\<lambda>parsed.
       bindR (map_err Panic (extra_data_validators parsed)) (\<lambda>validators.
       bindR (ensure (validators \<noteq> []) (Err (MissingValidatorsAtSpanStart block_number))) (\<lambda>_.
       case expected of
         None \<Rightarrow> Inr ()
       | Some want \<Rightarrow>
           bindR (ensure (length validators = length want) (Err (InvalidExtraData
               (''expected '' @ show_nat (length want) @ '' validators at span start, got '' @
                show_nat (length validators))))) (\<lambda>_.
           check_validators show_address 0 (zip validators want)))))
     else Inr ())))"

definition validate_block_post_execution ::
    "b256 \<Rightarrow> b256 \<Rightarrow> b256 \<Rightarrow> b256 \<Rightarrow> u64 \<Rightarrow> u64 \<Rightarrow> validation_error + unit" where
  "validate_block_post_execution expected_state_root actual_state_root
       expected_receipt_root actual_receipt_root expected_gas_used actual_gas_used =
     bindR (ensure (expected_state_root = actual_state_root)
              (StateRootMismatch expected_state_root actual_state_root)) (\<lambda>_.
     bindR (ensure (expected_receipt_root = actual_receipt_root)
              (ReceiptRootMismatch expected_receipt_root actual_receipt_root)) (\<lambda>_.
     ensure (expected_gas_used = actual_gas_used)
       (GasUsedMismatch expected_gas_used actual_gas_used)))"

section \<open>Lemmas\<close>

text \<open>Acceptance of a header, as one conjunction.\<close>

definition header_ok ::
    "'sig crypto \<Rightarrow> header_validation_params \<Rightarrow> address list \<Rightarrow> (u64 \<Rightarrow> address option) \<Rightarrow> u64 \<Rightarrow> address \<Rightarrow> bool" where
  "header_ok C p vs log now a \<longleftrightarrow>
     hp_nonce p = 0 \<and> hp_mix_hash p = 0 \<and> \<not> hp_has_ommers p \<and>
     97 \<le> length (hp_extra_data p) \<and> 20 dvd length (hp_extra_data p) - 97 \<and>
     unat (hp_timestamp p) \<le> unat now + 15 \<and>
     ecrecover_seal C (hp_seal_hash p) (drop (length (hp_extra_data p) - 65) (hp_extra_data p)) = Inr a \<and>
     a \<in> set vs \<and> \<not> signed_in_window log (length vs) (hp_number p) a \<and>
     hp_difficulty p = calculate_difficulty a vs (hp_number p)"

lemma horizon_iff:
  assumes "unat now + 15 < 2 ^ 64"
  shows "u64_add oc now 15 = Inr (now + 15)" and "\<not> now + 15 < ts \<longleftrightarrow> unat ts \<le> unat now + 15"
proof -
  show "u64_add oc now 15 = Inr (now + 15)" using assms by (simp add: u64_add_def)
  have "unat (now + 15) = unat now + 15" using assms by (simp add: unat_word_ariths)
  then show "\<not> now + 15 < ts \<longleftrightarrow> unat ts \<le> unat now + 15" by (simp add: word_less_nat_alt not_less)
qed

lemma extra_data_parse_cases:
  obtains (ok) ed where "extra_data_parse bs = Inr ed" "97 \<le> length bs" "20 dvd length bs - 97"
      "ed_seal ed = drop (length bs - 65) bs"
  | (bad) e where "extra_data_parse bs = Inl e" "\<not> (97 \<le> length bs \<and> 20 dvd length bs - 97)"
proof (cases "extra_data_parse bs")
  case (Inl e)
  with extra_data_parse_ok_iff [of bs] show thesis by (intro bad) auto
next
  case (Inr ed)
  with extra_data_parse_ok_iff [of bs] extra_data_seal_eq [OF Inr] show thesis by (intro ok) auto
qed

lemma validate_header_iff:
  assumes "bt_inv rs" and "length vs < 2 ^ 64" and "unat now + 15 < 2 ^ 64"
  shows "validate_header oc C p vs rs now = Inr a \<longleftrightarrow> header_ok C p vs (bt_get rs) now a"
proof (cases rule: extra_data_parse_cases [of "hp_extra_data p"])
  case (ok ed)
  show ?thesis
    using ok(2,3)
    by (auto simp: validate_header_def header_ok_def Let_def bindR_eq_Inr ok(1,4) horizon_iff [OF assms(3)]
        window_scan [OF assms(1,2)] List.member_iff)
next
  case (bad e)
  then show ?thesis by (auto simp: validate_header_def header_ok_def bindR_eq_Inr)
qed

lemma validate_header_no_panic:
  assumes "unat now + 15 < 2 ^ 64"
  shows "validate_header oc C p vs rs now \<noteq> Inl (Panic q)"
  by (auto simp: validate_header_def Let_def bindR_eq_Inl horizon_iff [OF assms] bt_range_def
      window_start_def map_err_eq_Inl)

lemma check_validators_iff:
  "check_validators sa i ps = Inr () \<longleftrightarrow> (\<forall>p\<in>set ps. fst p = snd p)"
  by (induction ps arbitrary: i) (auto simp: bindR_eq_Inr)

lemma check_validators_zip:
  "length xs = length ys \<Longrightarrow> check_validators sa i (zip xs ys) = Inr () \<longleftrightarrow> xs = ys"
proof -
  assume len: "length xs = length ys"
  have "(\<forall>p\<in>set (zip xs ys). fst p = snd p) \<longleftrightarrow> xs = ys"
    using len by (induction xs ys rule: list_induct2) auto
  then show ?thesis by (simp add: check_validators_iff)
qed

lemma extra_data_validators_iff:
  assumes "extra_data_wf ed"
  shows "extra_data_validators ed = Inr as \<longleftrightarrow> ed_validator_bytes ed = concat (map address_bytes as)"
proof
  assume dec: "extra_data_validators ed = Inr as"
  have "concat (chunks_exact 20 (ed_validator_bytes ed)) = ed_validator_bytes ed"
    using assms by (intro concat_chunks_exact) (simp_all add: extra_data_wf_def)
  with dec address_chunks_total [of "ed_validator_bytes ed"]
  show "ed_validator_bytes ed = concat (map address_bytes as)"
    by (auto simp: extra_data_validators_def)
next
  assume "ed_validator_bytes ed = concat (map address_bytes as)"
  then show "extra_data_validators ed = Inr as"
    using decode_address_chunks [of as] by (simp only: extra_data_validators_def ADDRESS_LEN_def)
qed

lemma parse_with_validators:
  "(\<exists>ed. extra_data_parse bs = Inr ed \<and> extra_data_validators ed = Inr (map v_signer vs)) \<longleftrightarrow>
   (\<exists>vanity seal. length vanity = 32 \<and> length seal = 65 \<and> bs = vanity @ encode_validator_bytes vs @ seal)"
proof
  assume "\<exists>ed. extra_data_parse bs = Inr ed \<and> extra_data_validators ed = Inr (map v_signer vs)"
  then obtain ed where wf: "extra_data_wf ed" and bs: "extra_data_layout ed = bs"
      and val: "extra_data_validators ed = Inr (map v_signer vs)"
    by (auto simp: extra_data_parse_iff)
  from val have "ed_validator_bytes ed = encode_validator_bytes vs"
    by (simp add: extra_data_validators_iff [OF wf] encode_validator_bytes_eq)
  with wf bs show "\<exists>vanity seal. length vanity = 32 \<and> length seal = 65 \<and>
      bs = vanity @ encode_validator_bytes vs @ seal"
    by (auto simp: extra_data_wf_def extra_data_layout_def)
next
  assume "\<exists>vanity seal. length vanity = 32 \<and> length seal = 65 \<and> bs = vanity @ encode_validator_bytes vs @ seal"
  then obtain vanity seal where *: "length vanity = 32" "length seal = 65"
      "bs = vanity @ encode_validator_bytes vs @ seal" by blast
  let ?ed = "\<lparr>ed_vanity = vanity, ed_validator_bytes = encode_validator_bytes vs, ed_seal = seal\<rparr>"
  have wf: "extra_data_wf ?ed" using * by (simp add: extra_data_wf_def)
  have "extra_data_parse bs = Inr ?ed"
    using wf * by (simp add: extra_data_parse_iff extra_data_layout_def)
  moreover have "extra_data_validators ?ed = Inr (map v_signer vs)"
    unfolding extra_data_validators_iff [OF wf] by (simp add: encode_validator_bytes_eq)
  ultimately show "\<exists>ed. extra_data_parse bs = Inr ed \<and> extra_data_validators ed = Inr (map v_signer vs)"
    by blast
qed

section \<open>Properties\<close>

text \<open>
  C7. Exact acceptance of a header: where the clock is more than 15 seconds from the end of a
  \<open>u64\<close>, validation never panics and returns signer \<open>a\<close> if and only if nonce and mix hash are
  zero, there are no ommers, the extra data has 97 bytes plus whole addresses, the timestamp
  is at most 15 seconds ahead, the last 65 bytes recover to \<open>a\<close>, \<open>a\<close> is authorised and signed
  none of the \<open>n / 2 + 1\<close> blocks before, and the difficulty is the one computed for \<open>a\<close>.
\<close>

theorem validate_header_accepts_iff:
  assumes "bt_inv rs" and "length vs < 2 ^ 64" and "unat now + 15 < 2 ^ 64"
  shows "(validate_header oc C p vs rs now = Inr a \<longleftrightarrow>
     hp_nonce p = 0 \<and> hp_mix_hash p = 0 \<and> \<not> hp_has_ommers p \<and>
     97 \<le> length (hp_extra_data p) \<and> 20 dvd length (hp_extra_data p) - 97 \<and>
     unat (hp_timestamp p) \<le> unat now + 15 \<and>
     ecrecover_seal C (hp_seal_hash p) (drop (length (hp_extra_data p) - 65) (hp_extra_data p)) = Inr a \<and>
     a \<in> set vs \<and>
     (\<nexists>k. unat (hp_number p) - (length vs div 2 + 1) \<le> unat k \<and> unat k < unat (hp_number p) \<and>
         bt_get rs k = Some a) \<and>
     hp_difficulty p = calculate_difficulty a vs (hp_number p)) \<and>
   (\<nexists>q. validate_header oc C p vs rs now = Inl (Panic q))"
  unfolding validate_header_iff [OF assms]
  by (simp add: validate_header_no_panic [OF assms(3)] header_ok_def signed_in_window_def sign_window_def)

definition demo_params :: header_validation_params where
  "demo_params = \<lparr>hp_number = 10, hp_timestamp = 1010, hp_nonce = 0, hp_mix_hash = 0,
     hp_difficulty = 3, hp_extra_data = replicate 32 0 @ address_bytes 8 @ replicate 45 0,
     hp_gas_limit = 30000000, hp_seal_hash = 5, hp_has_ommers = False\<rparr>"

lemma demo_recover: "ecrecover_seal demo_crypto h (address_bytes 8 @ replicate 45 0) = Inr 8"
  by (simp add: ecrecover_seal_def demo_crypto_def address_bytes_def be_value_be_bytes)

theorem validate_header_accepts_iff_witness:
  "validate_header True demo_crypto demo_params [7, 8, 9] [(5, 8), (8, 7), (9, 9)] 1000 = Inr 8"
proof -
  have inv: "bt_inv [(5 :: u64, 8), (8, 7), (9, 9 :: address)]" by (simp add: bt_inv_def)
  have d: "calculate_difficulty 8 [7, 8, 9] 10 = 3"
    by (simp add: calculate_difficulty_def diff_inturn_def Let_def)
  have nk: "\<nexists>k. 8 \<le> unat k \<and> unat k < 10 \<and> bt_get [(5 :: u64, 8), (8, 7), (9, 9)] k = Some (8 :: address)"
    by (auto simp: bt_get_def split: if_splits)
  show ?thesis
    using validate_header_accepts_iff [OF inv, of "[7, 8, 9]" 1000 True demo_crypto demo_params 8] nk
    by (simp add: demo_params_def demo_recover d)
qed

text \<open>
  No ties in the fork choice: two headers of the same height that validate against one set
  of distinct signers and come from different signers carry different difficulties.
\<close>

theorem accepted_headers_no_tie:
  assumes "bt_inv rs" and "bt_inv rs'" and "distinct vs" and "length vs < 2 ^ 64"
    and "unat now + 15 < 2 ^ 64" and "unat now' + 15 < 2 ^ 64"
    and "hp_number p = hp_number p'"
    and "validate_header oc C p vs rs now = Inr a" and "validate_header oc C p' vs rs' now' = Inr b"
    and "a \<noteq> b"
  shows "hp_difficulty p \<noteq> hp_difficulty p'"
proof -
  have "a \<in> set vs" "b \<in> set vs" "hp_difficulty p = calculate_difficulty a vs (hp_number p)"
      "hp_difficulty p' = calculate_difficulty b vs (hp_number p)"
    using assms(7-9) unfolding validate_header_iff [OF assms(1,4,5)] validate_header_iff [OF assms(2,4,6)]
    by (simp_all add: header_ok_def)
  with assms(3,4,10) show ?thesis using calculate_difficulty_inj by metis
qed

text \<open>
  C32. The validators published at a span start: at a positive multiple of the span size, with
  the expected set given, a block passes if and only if it has no ommers and no withdrawals,
  the set is not empty and the extra data is exactly 32 bytes, the encoded set in order and
  65 bytes of seal.
\<close>

theorem pre_execution_span_start:
  assumes "0 < n" and "sz \<noteq> 0" and "n mod sz = 0"
  shows "validate_block_pre_execution sa n extra ommers withdrawals sz (Some (map v_signer vs)) = Inr () \<longleftrightarrow>
     \<not> ommers \<and> \<not> withdrawals \<and> vs \<noteq> [] \<and>
     (\<exists>vanity seal. length vanity = 32 \<and> length seal = 65 \<and>
        extra = vanity @ encode_validator_bytes vs @ seal)"
  using assms unfolding parse_with_validators [symmetric]
  by (auto simp: validate_block_pre_execution_def u64_rem_def bindR_eq_Inr check_validators_zip)

definition demo_validator :: "address \<Rightarrow> validator" where
  "demo_validator a = \<lparr>v_id = 1, v_address = a, v_voting_power = 100, v_signer = a, v_proposer_priority = 0\<rparr>"

theorem pre_execution_span_start_witness:
  "validate_block_pre_execution (\<lambda>a. []) 6400
     (replicate 32 0 @ encode_validator_bytes [demo_validator 7] @ replicate 65 1)
     False False 6400 (Some [7]) = Inr ()"
proof -
  let ?e = "replicate 32 0 @ encode_validator_bytes [demo_validator 7] @ replicate 65 1"
  have "\<exists>vanity seal. length vanity = 32 \<and> length seal = 65 \<and>
      ?e = vanity @ encode_validator_bytes [demo_validator 7] @ seal"
    by (intro exI [of _ "replicate 32 0"] exI [of _ "replicate 65 1"]) simp
  then show ?thesis
    using pre_execution_span_start [of 6400 6400 "\<lambda>a. []" ?e False False "[demo_validator 7]"]
    by (simp add: demo_validator_def)
qed

theorem accepted_headers_no_tie_witness:
  "\<exists>p p'. validate_header True demo_crypto p [7, 8, 9] [] 1000 = Inr 8 \<and>
     validate_header True demo_crypto p' [7, 8, 9] [] 1000 = Inr 7 \<and> hp_difficulty p \<noteq> hp_difficulty p'"
proof -
  let ?p' = "demo_params\<lparr>hp_difficulty := 1, hp_extra_data := replicate 32 0 @ address_bytes 7 @ replicate 45 0\<rparr>"
  have rec: "ecrecover_seal demo_crypto h (address_bytes 7 @ replicate 45 0) = Inr 7" for h
    by (simp add: ecrecover_seal_def demo_crypto_def address_bytes_def be_value_be_bytes)
  have d: "calculate_difficulty 8 [7, 8, 9] 10 = 3" "calculate_difficulty 7 [7, 8, 9] 10 = 1"
    by (simp_all add: calculate_difficulty_def diff_inturn_def diff_noturn_def Let_def)
  have inv: "bt_inv ([] :: (u64, address) btree)" by (simp add: bt_inv_def)
  have a: "validate_header True demo_crypto demo_params [7, 8, 9] [] 1000 = Inr 8"
    "validate_header True demo_crypto ?p' [7, 8, 9] [] 1000 = Inr 7"
    by (simp_all add: validate_header_iff [OF inv] header_ok_def signed_in_window_def bt_get_def
        demo_params_def demo_recover rec d)
  have "hp_difficulty demo_params \<noteq> hp_difficulty ?p'"
    by (rule accepted_headers_no_tie [OF inv inv _ _ _ _ _ a]) (simp_all add: demo_params_def)
  with a show ?thesis by blast
qed

end
