(* ===== verification/Heimdall_Cache.thy ===== *)
theory Heimdall_Cache
  imports Bor_Primitives
begin

text \<open>
  \<open>heimdall-client/src/cache.rs\<close>: the span cache, a hash map of spans with a vector of ids in
  access order. The theory holds the operations as the code writes them, an abstract
  least-recently-used list with the refinement between the two, and the contract
  \<open>span_store\<close> that the consensus engine relies on.
\<close>

section \<open>Model\<close>

record span_cache =
  sc_spans :: "(u64, span) hmap"
  sc_max_size :: nat
  sc_access_order :: "u64 list"

definition span_cache_new :: "nat \<Rightarrow> span_cache" where
  "span_cache_new max_size = \<lparr>sc_spans = [], sc_max_size = max_size, sc_access_order = []\<rparr>"

text \<open>\<open>Vec::remove\<close> at an index that is in range.\<close>

definition vec_remove :: "nat \<Rightarrow> 'a list \<Rightarrow> 'a list" where
  "vec_remove p xs = take p xs @ drop (Suc p) xs"

definition span_cache_touch :: "u64 \<Rightarrow> span_cache \<Rightarrow> span_cache" where
  "span_cache_touch span_id c =
     (let order = (case position (\<lambda>i. i = span_id) (sc_access_order c) of
                     Some p \<Rightarrow> vec_remove p (sc_access_order c)
                   | None \<Rightarrow> sc_access_order c)
      in c\<lparr>sc_access_order := order @ [span_id]\<rparr>)"

definition span_cache_get :: "span_cache \<Rightarrow> u64 \<Rightarrow> span_cache \<times> span option" where
  "span_cache_get c span_id =
     (if hm_contains (sc_spans c) span_id
      then (let c' = span_cache_touch span_id c in (c', hm_get (sc_spans c') span_id))
      else (c, None))"

definition span_cache_insert :: "span_cache \<Rightarrow> span \<Rightarrow> span_cache" where
  "span_cache_insert c span =
     (let span_id = sp_id span in
      if hm_contains (sc_spans c) span_id
      then span_cache_touch span_id (c\<lparr>sc_spans := hm_insert span_id span (sc_spans c)\<rparr>)
      else
        (let c' = (if sc_max_size c \<le> length (sc_spans c) \<and> 0 < sc_max_size c
                   then (case sc_access_order c of
                           lru_id # _ \<Rightarrow>
                             c\<lparr>sc_access_order := vec_remove 0 (sc_access_order c),
                               sc_spans := hm_remove lru_id (sc_spans c)\<rparr>
                         | [] \<Rightarrow> c)
                   else c)
         in c'\<lparr>sc_spans := hm_insert span_id span (sc_spans c'),
               sc_access_order := sc_access_order c' @ [span_id]\<rparr>))"

definition span_cache_contains :: "span_cache \<Rightarrow> u64 \<Rightarrow> bool" where
  "span_cache_contains c span_id = hm_contains (sc_spans c) span_id"

definition span_cache_len :: "span_cache \<Rightarrow> nat" where
  "span_cache_len c = length (sc_spans c)"

definition span_cache_is_empty :: "span_cache \<Rightarrow> bool" where
  "span_cache_is_empty c = (sc_spans c = [])"

text \<open>Any sequence of calls on one cache.\<close>

datatype cache_op = Get u64 | Insert span

primrec cache_step :: "span_cache \<Rightarrow> cache_op \<Rightarrow> span_cache" where
  "cache_step c (Get i) = fst (span_cache_get c i)"
| "cache_step c (Insert s) = span_cache_insert c s"

definition cache_run :: "span_cache \<Rightarrow> cache_op list \<Rightarrow> span_cache" where
  "cache_run c ops = foldl cache_step c ops"

section \<open>The invariant and the abstract cache\<close>

text \<open>The two containers hold the same ids, every span is stored under its own id.\<close>

definition sc_inv :: "span_cache \<Rightarrow> bool" where
  "sc_inv c \<longleftrightarrow>
     hm_inv (sc_spans c) \<and> distinct (sc_access_order c) \<and>
     set (sc_access_order c) = fst ` set (sc_spans c) \<and>
     (\<forall>(i, s)\<in>set (sc_spans c). sp_id s = i) \<and>
     (0 < sc_max_size c \<longrightarrow> length (sc_access_order c) \<le> sc_max_size c)"

text \<open>The abstract cache: the spans in access order, the least recently used one first.\<close>

definition lru_abs :: "span_cache \<Rightarrow> span list" where
  "lru_abs c = map (\<lambda>i. the (hm_get (sc_spans c) i)) (sc_access_order c)"

definition lru_get :: "u64 \<Rightarrow> span list \<Rightarrow> span list \<times> span option" where
  "lru_get i xs =
     (case find (\<lambda>s. sp_id s = i) xs of
        None \<Rightarrow> (xs, None)
      | Some s \<Rightarrow> (filter (\<lambda>s. sp_id s \<noteq> i) xs @ [s], Some s))"

definition lru_insert :: "nat \<Rightarrow> span \<Rightarrow> span list \<Rightarrow> span list" where
  "lru_insert m s xs =
     (if sp_id s \<in> sp_id ` set xs then filter (\<lambda>t. sp_id t \<noteq> sp_id s) xs @ [s]
      else (if 0 < m \<and> m \<le> length xs then tl xs else xs) @ [s])"

text \<open>The ids that a sequence of calls accesses: inserts, and gets that hit.\<close>

primrec accessed :: "span_cache \<Rightarrow> cache_op list \<Rightarrow> u64 list" where
  "accessed c [] = []"
| "accessed c (op # ops) =
     (case op of
        Get i \<Rightarrow> if span_cache_contains c i then [i] else []
      | Insert s \<Rightarrow> [sp_id s]) @ accessed (cache_step c op) ops"

definition lastn :: "nat \<Rightarrow> 'a list \<Rightarrow> 'a list" where
  "lastn n xs = drop (length xs - n) xs"

section \<open>Lemmas: lists\<close>

lemma vec_remove_position:
  "distinct xs \<Longrightarrow> position (\<lambda>i. i = k) xs = Some p \<Longrightarrow> vec_remove p xs = filter (\<lambda>i. i \<noteq> k) xs"
proof (induction xs arbitrary: p)
  case Nil
  then show ?case by simp
next
  case (Cons x xs)
  show ?case
  proof (cases "x = k")
    case True
    with Cons.prems have "p = 0" and "k \<notin> set xs" by auto
    then have "filter (\<lambda>i. i \<noteq> k) xs = xs" by (auto simp: filter_id_conv)
    with True \<open>p = 0\<close> show ?thesis by (simp add: vec_remove_def)
  next
    case False
    with Cons.prems obtain q where "position (\<lambda>i. i = k) xs = Some q" "p = Suc q" by auto
    with Cons.IH [of q] Cons.prems False show ?thesis by (simp add: vec_remove_def)
  qed
qed

lemma touched_order:
  "distinct xs \<Longrightarrow> (case position (\<lambda>i. i = k) xs of Some p \<Rightarrow> vec_remove p xs | None \<Rightarrow> xs) =
     filter (\<lambda>i. i \<noteq> k) xs"
proof (cases "position (\<lambda>i. i = k) xs")
  case None
  then have "k \<notin> set xs" by (auto simp: position_None_iff)
  then have "filter (\<lambda>i. i \<noteq> k) xs = xs" by (auto simp: filter_id_conv)
  with None show ?thesis by simp
qed (simp add: vec_remove_position)

lemma remdups_snoc: "remdups (xs @ [k]) = filter (\<lambda>i. i \<noteq> k) (remdups xs) @ [k]"
  by (induction xs) auto

lemma lastn_all: "length xs \<le> n \<Longrightarrow> lastn n xs = xs"
  by (simp add: lastn_def)

lemma lastn_length: "length (lastn n xs) = min n (length xs)"
  by (simp add: lastn_def)

lemma lastn_snoc: "0 < n \<Longrightarrow> lastn n (xs @ [k]) = lastn (n - 1) xs @ [k]"
  by (cases n) (simp_all add: lastn_def Suc_diff_le)

lemma lastn_split: "xs = take (length xs - n) xs @ lastn n xs"
  by (simp add: lastn_def)

lemma lastn_append: "length ys = n \<Longrightarrow> lastn n (xs @ ys) = ys"
  by (simp add: lastn_def)

lemma lastn_tl: "n \<le> length xs \<Longrightarrow> 0 < n \<Longrightarrow> tl (lastn n xs) = lastn (n - 1) xs"
  by (simp add: lastn_def tl_drop drop_Suc [symmetric])
    (metis Suc_diff_diff Suc_diff_le diff_Suc_1 drop_Suc less_imp_Suc_add tl_drop)

lemma in_set_tl: "x \<in> set (tl xs) \<Longrightarrow> x \<in> set xs"
  by (cases xs) auto

lemma filter_neq_id: "k \<notin> set xs \<Longrightarrow> filter (\<lambda>i. i \<noteq> k) xs = xs"
  by (auto simp: filter_id_conv)

lemma length_filter_neq: "distinct xs \<Longrightarrow> k \<in> set xs \<Longrightarrow> Suc (length (filter (\<lambda>i. i \<noteq> k) xs)) = length xs"
  by (induction xs) (auto simp: filter_neq_id)

lemma lastn_hit:
  assumes "distinct r" and "k \<in> set (lastn m r)"
  shows "filter (\<lambda>i. i \<noteq> k) (lastn m r) @ [k] = lastn m (filter (\<lambda>i. i \<noteq> k) r @ [k])"
proof -
  define p s where "p = take (length r - m) r" and "s = lastn m r"
  have r: "r = p @ s" unfolding p_def s_def by (rule lastn_split)
  have k: "k \<in> set s" using assms(2) by (simp only: s_def)
  then have kp: "k \<notin> set p" using assms(1) r by auto
  have len: "Suc (length (filter (\<lambda>i. i \<noteq> k) s)) = length s"
    using assms(1) k r by (intro length_filter_neq) auto
  show ?thesis
  proof (cases "length r \<le> m")
    case True
    then have "p = []" "s = r" by (simp_all add: p_def s_def lastn_all)
    with True len show ?thesis by (simp add: lastn_all)
  next
    case False
    then have "length s = m" by (simp add: s_def lastn_length)
    then have "lastn m (p @ (filter (\<lambda>i. i \<noteq> k) s @ [k])) = filter (\<lambda>i. i \<noteq> k) s @ [k]"
      using len by (intro lastn_append) simp
    moreover have "filter (\<lambda>i. i \<noteq> k) r = p @ filter (\<lambda>i. i \<noteq> k) s"
      using kp by (simp add: r filter_neq_id)
    ultimately show ?thesis by (simp only: s_def [symmetric] append_assoc)
  qed
qed

lemma lastn_miss:
  assumes "distinct r" and "k \<notin> set (lastn m r)" and "0 < m"
  shows "(if m \<le> length (lastn m r) then tl (lastn m r) else lastn m r) @ [k] =
    lastn m (filter (\<lambda>i. i \<noteq> k) r @ [k])"
proof (cases "length r < m")
  case True
  then have s: "lastn m r = r" by (simp add: lastn_all)
  with assms True show ?thesis by (simp add: lastn_all filter_neq_id)
next
  case False
  define p s where "p = take (length r - m) r" and "s = lastn m r"
  have r: "r = p @ s" unfolding p_def s_def by (rule lastn_split)
  have len: "length s = m" using False by (simp add: s_def lastn_length)
  then obtain h t where s: "s = h # t" using assms(3) by (cases s) auto
  have "lastn m ((filter (\<lambda>i. i \<noteq> k) p @ [h]) @ (t @ [k])) = t @ [k]"
    using len s by (intro lastn_append) simp
  moreover have "filter (\<lambda>i. i \<noteq> k) r = filter (\<lambda>i. i \<noteq> k) p @ h # t"
  proof -
    have "k \<notin> set s" using assms(2) by (simp add: s_def)
    then have "filter (\<lambda>i. i \<noteq> k) s = s" by (rule filter_neq_id)
    then show ?thesis by (simp only: r filter_append s)
  qed
  moreover have "lastn m r = h # t" using s by (simp only: s_def)
  ultimately show ?thesis using len s by simp
qed

section \<open>Lemmas: the operations keep the invariant\<close>

lemma sc_inv_new [simp]: "sc_inv (span_cache_new m)"
  by (simp add: sc_inv_def span_cache_new_def)

lemma sc_inv_keys: "sc_inv c \<Longrightarrow> hm_contains (sc_spans c) i \<longleftrightarrow> i \<in> set (sc_access_order c)"
  by (simp add: sc_inv_def hm_contains_iff)

lemma sc_inv_length: "sc_inv c \<Longrightarrow> length (sc_spans c) = length (sc_access_order c)"
  by (simp add: sc_inv_def hm_length) (metis distinct_card)

lemma sc_inv_own_id: "sc_inv c \<Longrightarrow> hm_get (sc_spans c) i = Some s \<Longrightarrow> sp_id s = i"
  by (auto simp: sc_inv_def hm_get_def dest: map_of_SomeD)

lemma touch_simps:
  assumes "distinct (sc_access_order c)"
  shows "sc_access_order (span_cache_touch i c) = filter (\<lambda>j. j \<noteq> i) (sc_access_order c) @ [i]"
    and "sc_spans (span_cache_touch i c) = sc_spans c"
    and "sc_max_size (span_cache_touch i c) = sc_max_size c"
  using touched_order [OF assms, of i] by (simp_all add: span_cache_touch_def Let_def)

lemma hm_insert_all:
  "(\<forall>(i, s)\<in>set m. P i s) \<Longrightarrow> P k v \<Longrightarrow> hm_inv m \<Longrightarrow> (\<forall>(i, s)\<in>set (hm_insert k v m). P i s)"
proof -
  assume *: "\<forall>(i, s)\<in>set m. P i s" "P k v" "hm_inv m"
  have "P i s" if "(i, s) \<in> set (hm_insert k v m)" for i s
  proof -
    have "hm_get (hm_insert k v m) i = Some s"
      using hm_inv_insert [OF *(3), of k v] that by (simp add: hm_inv_def hm_get_def)
    then show "P i s" using * by (auto simp: map_laws split: if_splits) (auto simp: hm_get_def dest!: map_of_SomeD)
  qed
  then show ?thesis by auto
qed

lemma hm_remove_subset: "set (hm_remove k m) \<subseteq> set m"
  by (auto simp: hm_remove_def AList.delete_eq)

lemma sc_inv_touch:
  assumes "hm_inv (sc_spans c)" and "distinct (sc_access_order c)"
    and "set (sc_access_order c) = fst ` set (sc_spans c)"
    and "\<forall>(i, s)\<in>set (sc_spans c). sp_id s = i"
    and "0 < sc_max_size c \<longrightarrow> length (sc_access_order c) \<le> sc_max_size c"
    and "i \<in> set (sc_access_order c)"
  shows "sc_inv (span_cache_touch i c)"
proof -
  have "Suc (length (filter (\<lambda>j. j \<noteq> i) (sc_access_order c))) = length (sc_access_order c)"
    using assms by (intro length_filter_neq)
  with assms show ?thesis by (auto simp: sc_inv_def touch_simps)
qed

lemma sc_inv_get [intro]: "sc_inv c \<Longrightarrow> sc_inv (fst (span_cache_get c i))"
proof -
  assume c: "sc_inv c"
  have "sc_inv (span_cache_touch i c)" if "i \<in> set (sc_access_order c)"
    by (rule sc_inv_touch) (use c that in \<open>simp_all add: sc_inv_def\<close>)
  with c show ?thesis by (simp add: span_cache_get_def Let_def sc_inv_keys)
qed

text \<open>The eviction of \<open>insert\<close>, on its own.\<close>

definition evicted :: "span_cache \<Rightarrow> span_cache" where
  "evicted c = (if sc_max_size c \<le> length (sc_spans c) \<and> 0 < sc_max_size c
     then (case sc_access_order c of
             lru_id # _ \<Rightarrow> c\<lparr>sc_access_order := vec_remove 0 (sc_access_order c),
                              sc_spans := hm_remove lru_id (sc_spans c)\<rparr>
           | [] \<Rightarrow> c)
     else c)"

lemma evicted_full:
  assumes "sc_inv c" and "0 < sc_max_size c" and "sc_max_size c \<le> length (sc_access_order c)"
  shows "\<exists>lru rest. sc_access_order c = lru # rest \<and>
     evicted c = c\<lparr>sc_access_order := rest, sc_spans := hm_remove lru (sc_spans c)\<rparr>"
proof -
  obtain lru rest where "sc_access_order c = lru # rest"
    using assms(2,3) by (cases "sc_access_order c") auto
  with assms show ?thesis by (simp add: evicted_def sc_inv_length vec_remove_def)
qed

lemma evicted_id:
  "sc_inv c \<Longrightarrow> \<not> (0 < sc_max_size c \<and> sc_max_size c \<le> length (sc_access_order c)) \<Longrightarrow> evicted c = c"
  by (auto simp: evicted_def sc_inv_length)

lemma evicted_order:
  "sc_inv c \<Longrightarrow> sc_access_order (evicted c) =
     (if 0 < sc_max_size c \<and> sc_max_size c \<le> length (sc_access_order c)
      then tl (sc_access_order c) else sc_access_order c)"
  by (auto simp: evicted_def sc_inv_length vec_remove_def split: list.splits)

lemma evicted_max_size [simp]: "sc_max_size (evicted c) = sc_max_size c"
  by (auto simp: evicted_def split: list.splits)

lemma insert_cases:
  "span_cache_insert c s =
     (if hm_contains (sc_spans c) (sp_id s)
      then span_cache_touch (sp_id s) (c\<lparr>sc_spans := hm_insert (sp_id s) s (sc_spans c)\<rparr>)
      else (evicted c)\<lparr>sc_spans := hm_insert (sp_id s) s (sc_spans (evicted c)),
                        sc_access_order := sc_access_order (evicted c) @ [sp_id s]\<rparr>)"
  by (simp only: span_cache_insert_def evicted_def Let_def)

lemma sc_inv_evicted:
  assumes "sc_inv c"
  shows "sc_inv (evicted c)" and "0 < sc_max_size c \<Longrightarrow> length (sc_access_order (evicted c)) < sc_max_size c"
proof -
  have *: "sc_inv (c\<lparr>sc_access_order := rest, sc_spans := hm_remove lru (sc_spans c)\<rparr>)"
    if "sc_access_order c = lru # rest" for lru rest
  proof -
    have "set rest = fst ` set (hm_remove lru (sc_spans c))"
      using assms that by (auto simp: sc_inv_def hm_keys_remove)
    with assms that show ?thesis
      using hm_remove_subset [of lru "sc_spans c"] by (auto simp: sc_inv_def intro: hm_inv_remove)
  qed
  show "sc_inv (evicted c)"
  proof (cases "0 < sc_max_size c \<and> sc_max_size c \<le> length (sc_access_order c)")
    case True
    with evicted_full [OF assms] * show ?thesis by auto
  qed (simp add: evicted_id assms)
  show "length (sc_access_order (evicted c)) < sc_max_size c" if "0 < sc_max_size c"
    using that assms by (auto simp: evicted_order sc_inv_def)
qed

lemma sc_inv_insert [intro]:
  assumes "sc_inv c"
  shows "sc_inv (span_cache_insert c s)"
proof (cases "sp_id s \<in> set (sc_access_order c)")
  case True
  let ?c = "c\<lparr>sc_spans := hm_insert (sp_id s) s (sc_spans c)\<rparr>"
  have "\<forall>(i, t)\<in>set (hm_insert (sp_id s) s (sc_spans c)). sp_id t = i"
    using assms by (intro hm_insert_all) (auto simp: sc_inv_def)
  then have "sc_inv (span_cache_touch (sp_id s) ?c)"
    by (intro sc_inv_touch)
      (use assms True in \<open>auto simp: sc_inv_def hm_keys_insert intro: hm_inv_insert\<close>)
  with True show ?thesis by (simp add: insert_cases sc_inv_keys assms)
next
  case False
  note e = sc_inv_evicted [OF assms]
  have new: "sp_id s \<notin> set (sc_access_order (evicted c))"
    using False assms by (auto simp: evicted_order dest: in_set_tl split: if_splits)
  have "\<forall>(i, t)\<in>set (hm_insert (sp_id s) s (sc_spans (evicted c))). sp_id t = i"
    using e(1) by (intro hm_insert_all) (auto simp: sc_inv_def)
  with False e new show ?thesis
    by (auto simp: insert_cases sc_inv_keys assms)
      (auto simp: sc_inv_def hm_keys_insert hm_inv_insert)
qed

lemma sc_inv_step [intro]: "sc_inv c \<Longrightarrow> sc_inv (cache_step c op)"
  by (cases op) auto

lemma max_size_step [simp]: "sc_inv c \<Longrightarrow> sc_max_size (cache_step c op) = sc_max_size c"
  by (cases op) (auto simp: span_cache_get_def insert_cases touch_simps sc_inv_def Let_def)

lemma cache_run_simps [simp]:
  "cache_run c [] = c" "cache_run c (op # ops) = cache_run (cache_step c op) ops"
  by (simp_all add: cache_run_def)

lemma sc_inv_run [intro]: "sc_inv c \<Longrightarrow> sc_inv (cache_run c ops)"
  by (induction ops arbitrary: c) auto

lemma max_size_run: "sc_inv c \<Longrightarrow> sc_max_size (cache_run c ops) = sc_max_size c"
  by (induction ops arbitrary: c) (auto simp: sc_inv_step)

section \<open>Lemmas: refinement of the abstract cache\<close>

lemma lru_ids: "sc_inv c \<Longrightarrow> map sp_id (lru_abs c) = sc_access_order c"
proof -
  assume c: "sc_inv c"
  have "sp_id (the (hm_get (sc_spans c) i)) = i" if "i \<in> set (sc_access_order c)" for i
  proof -
    have "hm_contains (sc_spans c) i" using that c by (simp add: sc_inv_keys)
    then obtain s where "hm_get (sc_spans c) i = Some s" by (auto simp: hm_contains_def)
    with sc_inv_own_id [OF c this] show ?thesis by simp
  qed
  then show ?thesis by (auto simp: lru_abs_def intro: map_idI)
qed

lemma lru_set: "sc_inv c \<Longrightarrow> sp_id ` set (lru_abs c) = set (sc_access_order c)"
  using lru_ids [of c] by (metis set_map)

lemma lru_find: "sc_inv c \<Longrightarrow> find (\<lambda>s. sp_id s = i) (lru_abs c) = hm_get (sc_spans c) i"
proof -
  assume c: "sc_inv c"
  note keys = sc_inv_keys [OF c, unfolded hm_contains_def]
  have own: "sp_id (the (hm_get (sc_spans c) j)) = j" if "j \<in> set (sc_access_order c)" for j
    using that keys sc_inv_own_id [OF c] by auto
  have "find (\<lambda>s. sp_id s = i) (map (\<lambda>j. the (hm_get (sc_spans c) j)) js) =
      (if i \<in> set js then hm_get (sc_spans c) i else None)" if "set js \<subseteq> set (sc_access_order c)" for js
    using that by (induction js) (auto simp: own keys [symmetric] dest: keys [THEN iffD2])
  from this [of "sc_access_order c"] keys [of i] show ?thesis
    by (cases "hm_get (sc_spans c) i") (auto simp: lru_abs_def)
qed

lemma lru_filter:
  "sc_inv c \<Longrightarrow> filter (\<lambda>s. sp_id s \<noteq> i) (lru_abs c) =
     map (\<lambda>j. the (hm_get (sc_spans c) j)) (filter (\<lambda>j. j \<noteq> i) (sc_access_order c))"
proof -
  assume c: "sc_inv c"
  have own: "sp_id (the (hm_get (sc_spans c) j)) = j" if "j \<in> set (sc_access_order c)" for j
    using that sc_inv_keys [OF c, unfolded hm_contains_def] sc_inv_own_id [OF c] by auto
  show ?thesis by (auto simp: lru_abs_def filter_map comp_def own intro!: arg_cong2 [of _ _ _ _ map] filter_cong)
qed

lemma span_cache_get_refines:
  assumes "sc_inv c"
  shows "lru_get i (lru_abs c) = (lru_abs (fst (span_cache_get c i)), snd (span_cache_get c i))"
proof (cases "hm_get (sc_spans c) i")
  case None
  then show ?thesis by (simp add: lru_get_def lru_find assms span_cache_get_def hm_contains_def)
next
  case (Some s)
  have d: "distinct (sc_access_order c)" using assms by (simp add: sc_inv_def)
  from Some show ?thesis
    by (simp add: lru_get_def lru_find lru_filter assms span_cache_get_def hm_contains_def Let_def touch_simps [OF d])
      (simp add: lru_abs_def touch_simps [OF d])
qed

lemma map_lookup_insert:
  "k \<notin> set js \<Longrightarrow> map (\<lambda>j. the (hm_get (hm_insert k v m) j)) js = map (\<lambda>j. the (hm_get m j)) js"
  by (auto simp: map_laws)

lemma span_cache_insert_refines:
  assumes "sc_inv c"
  shows "lru_abs (span_cache_insert c s) = lru_insert (sc_max_size c) s (lru_abs c)"
proof (cases "sp_id s \<in> set (sc_access_order c)")
  case True
  have d: "distinct (sc_access_order (c\<lparr>sc_spans := m\<rparr>))" for m using assms by (simp add: sc_inv_def)
  from True show ?thesis
    by (simp add: insert_cases sc_inv_keys assms lru_insert_def lru_set lru_filter)
      (simp add: lru_abs_def touch_simps [OF d] map_lookup_insert map_laws)
next
  case False
  have new: "sp_id s \<notin> set (sc_access_order (evicted c))"
    using False assms by (auto simp: evicted_order dest: in_set_tl split: if_splits)
  have kept: "hm_get (sc_spans (evicted c)) j = hm_get (sc_spans c) j"
    if "j \<in> set (sc_access_order (evicted c))" for j
  proof (cases "0 < sc_max_size c \<and> sc_max_size c \<le> length (sc_access_order c)")
    case True
    then obtain lru rest where o: "sc_access_order c = lru # rest"
        and e: "evicted c = c\<lparr>sc_access_order := rest, sc_spans := hm_remove lru (sc_spans c)\<rparr>"
      using evicted_full [OF assms] by blast
    have "lru \<notin> set rest" using o assms by (simp add: sc_inv_def)
    with that e show ?thesis by (auto simp: map_laws)
  qed (simp add: evicted_id assms)
  have "lru_abs (evicted c) = (if 0 < sc_max_size c \<and> sc_max_size c \<le> length (lru_abs c)
      then tl (lru_abs c) else lru_abs c)"
    using kept by (auto simp: lru_abs_def evicted_order assms map_tl [symmetric] split: if_splits)
  moreover have "lru_abs (span_cache_insert c s) = lru_abs (evicted c) @ [s]"
    using False new
    by (simp add: insert_cases sc_inv_keys assms lru_abs_def hm_get_insert)
  ultimately show ?thesis using False by (simp add: lru_insert_def lru_set assms)
qed

section \<open>The contract of a span store\<close>

text \<open>
  What a client of the cache relies on: a lookup answers for the id it asks, an insert
  stores its own span, other ids keep their span or lose it.
\<close>

locale span_store =
  fixes look :: "'s \<Rightarrow> u64 \<Rightarrow> span option"
    and get :: "'s \<Rightarrow> u64 \<Rightarrow> 's \<times> span option"
    and ins :: "'s \<Rightarrow> span \<Rightarrow> 's"
    and inv :: "'s \<Rightarrow> bool"
  assumes get_look: "inv s \<Longrightarrow> snd (get s i) = look s i"
    and look_get: "inv s \<Longrightarrow> look (fst (get s i)) j = look s j"
    and look_ins_same: "inv s \<Longrightarrow> look (ins s sp) (sp_id sp) = Some sp"
    and look_ins_other: "inv s \<Longrightarrow> j \<noteq> sp_id sp \<Longrightarrow> look (ins s sp) j = None \<or> look (ins s sp) j = look s j"
    and inv_get: "inv s \<Longrightarrow> inv (fst (get s i))"
    and inv_ins: "inv s \<Longrightarrow> inv (ins s sp)"
begin

text \<open>A store whose every span is the latest one inserted under its id.\<close>

definition latest :: "'s \<Rightarrow> span list \<Rightarrow> bool" where
  "latest s hist \<longleftrightarrow> (\<forall>i sp. look s i = Some sp \<longrightarrow> find (\<lambda>t. sp_id t = i) hist = Some sp)"

lemma latest_get: "inv s \<Longrightarrow> latest s hist \<Longrightarrow> latest (fst (get s i)) hist"
  by (simp add: latest_def look_get)

lemma latest_ins:
  assumes "inv s" and "latest s hist"
  shows "latest (ins s sp) (sp # hist)"
proof -
  have "find (\<lambda>t. sp_id t = i) (sp # hist) = Some sp'" if "look (ins s sp) i = Some sp'" for i sp'
  proof (cases "i = sp_id sp")
    case True
    with that look_ins_same [OF assms(1), of sp] show ?thesis by simp
  next
    case False
    with that look_ins_other [OF assms(1) False] have "look s i = Some sp'" by auto
    with False assms(2) show ?thesis by (simp add: latest_def)
  qed
  then show ?thesis by (simp add: latest_def)
qed

lemma latest_lookup_id: "latest s hist \<Longrightarrow> look s i = Some sp \<Longrightarrow> sp_id sp = i \<and> sp \<in> set hist"
  unfolding latest_def find_Some_iff by (metis nth_mem)

lemma get_answers_latest:
  "inv s \<Longrightarrow> latest s hist \<Longrightarrow> snd (get s i) = Some sp \<Longrightarrow> sp_id sp = i \<and> find (\<lambda>t. sp_id t = i) hist = Some sp"
  by (metis get_look latest_def latest_lookup_id)

end

definition span_cache_look :: "span_cache \<Rightarrow> u64 \<Rightarrow> span option" where
  "span_cache_look c i = hm_get (sc_spans c) i"

lemma spans_get [simp]: "sc_inv c \<Longrightarrow> sc_spans (fst (span_cache_get c i)) = sc_spans c"
  by (simp add: span_cache_get_def Let_def touch_simps sc_inv_def)

lemma spans_insert:
  assumes "sc_inv c"
  shows "hm_get (sc_spans (span_cache_insert c s)) i =
     (if i = sp_id s then Some s
      else if hm_contains (sc_spans c) (sp_id s) then hm_get (sc_spans c) i
      else hm_get (sc_spans (evicted c)) i)"
  using assms by (simp add: insert_cases touch_simps sc_inv_def map_laws)

lemma spans_evicted: "hm_get (sc_spans (evicted c)) i = None \<or> hm_get (sc_spans (evicted c)) i = hm_get (sc_spans c) i"
  by (auto simp: evicted_def map_laws split: list.splits)

interpretation ss: span_store span_cache_look span_cache_get span_cache_insert sc_inv
proof unfold_locales
  fix c :: span_cache and i j :: u64 and sp :: span
  assume c: "sc_inv c"
  show "snd (span_cache_get c i) = span_cache_look c i"
    using c by (auto simp: span_cache_get_def span_cache_look_def hm_contains_def Let_def touch_simps sc_inv_def)
  show "span_cache_look (fst (span_cache_get c i)) j = span_cache_look c j"
    using c by (simp add: span_cache_look_def)
  show "span_cache_look (span_cache_insert c sp) (sp_id sp) = Some sp"
    using c by (simp add: span_cache_look_def spans_insert)
  show "span_cache_look (span_cache_insert c sp) j = None \<or>
      span_cache_look (span_cache_insert c sp) j = span_cache_look c j" if "j \<noteq> sp_id sp"
    using c that spans_evicted [of c j] by (auto simp: span_cache_look_def spans_insert)
  show "sc_inv (fst (span_cache_get c i))" "sc_inv (span_cache_insert c sp)"
    using c by auto
qed

section \<open>Lemmas: histories\<close>

lemma access_order_step:
  assumes "sc_inv c" and "0 < sc_max_size c" and "distinct r"
    and "sc_access_order c = lastn (sc_max_size c) r"
  shows "sc_access_order (cache_step c op) = lastn (sc_max_size c)
     (case op of
        Get i \<Rightarrow> if span_cache_contains c i then filter (\<lambda>j. j \<noteq> i) r @ [i] else r
      | Insert s \<Rightarrow> filter (\<lambda>j. j \<noteq> sp_id s) r @ [sp_id s])"
proof -
  have d: "distinct (sc_access_order (c\<lparr>sc_spans := m\<rparr>))" for m using assms by (simp add: sc_inv_def)
  have d': "distinct (sc_access_order c)" using assms by (simp add: sc_inv_def)
  show ?thesis
  proof (cases op)
    case (Get i)
    then show ?thesis
      using lastn_hit [OF assms(3), of i "sc_max_size c"] assms(4)
      by (simp add: span_cache_contains_def span_cache_get_def Let_def touch_simps [OF d'] sc_inv_keys assms(1))
  next
    case (Insert s)
    show ?thesis
    proof (cases "sp_id s \<in> set (sc_access_order c)")
      case True
      with Insert lastn_hit [OF assms(3), of "sp_id s" "sc_max_size c"] show ?thesis
        by (simp add: insert_cases touch_simps [OF d] sc_inv_keys assms(1,4))
    next
      case False
      with Insert lastn_miss [OF assms(3) _ assms(2), of "sp_id s"] show ?thesis
        using assms(2) by (simp add: insert_cases sc_inv_keys assms(1,4) evicted_order split: if_splits)
    qed
  qed
qed

lemma access_order_run:
  assumes "sc_inv c" and "0 < sc_max_size c" and "sc_access_order c = lastn (sc_max_size c) (remdups tr)"
  shows "sc_access_order (cache_run c ops) = lastn (sc_max_size c) (remdups (tr @ accessed c ops))"
  using assms
proof (induction ops arbitrary: c tr)
  case Nil
  then show ?case by simp
next
  case (Cons op ops)
  let ?t = "case op of Get i \<Rightarrow> if span_cache_contains c i then [i] else [] | Insert s \<Rightarrow> [sp_id s]"
  have "sc_access_order (cache_step c op) = lastn (sc_max_size c) (remdups (tr @ ?t))"
    using access_order_step [OF Cons.prems(1,2) _ Cons.prems(3), of op]
    by (auto simp: remdups_snoc split: cache_op.splits)
  with Cons.IH [of "cache_step c op" "tr @ ?t"] Cons.prems show ?case by (simp add: sc_inv_step)
qed

primrec inserted :: "cache_op list \<Rightarrow> span list" where
  "inserted [] = []"
| "inserted (op # ops) = (case op of Get i \<Rightarrow> [] | Insert s \<Rightarrow> [s]) @ inserted ops"

lemma latest_run:
  "sc_inv c \<Longrightarrow> ss.latest c hist \<Longrightarrow> ss.latest (cache_run c ops) (rev (inserted ops) @ hist)"
proof (induction ops arbitrary: c hist)
  case Nil
  then show ?case by simp
next
  case (Cons op ops)
  show ?case
  proof (cases op)
    case (Get i)
    with Cons show ?thesis by (simp add: sc_inv_get ss.latest_get)
  next
    case (Insert s)
    with Cons.IH [of "span_cache_insert c s" "s # hist"] Cons.prems show ?thesis
      by (simp add: sc_inv_insert ss.latest_ins)
  qed
qed

section \<open>Properties\<close>

text \<open>
  C16. The cache is a least-recently-used cache: after any sequence of \<open>get\<close> and \<open>insert\<close> calls
  on a new cache of positive capacity \<open>m\<close>, its ids are the last \<open>m\<close> of the accessed ids in the
  order of their last access (an insert or a hit is an access), the hash map holds exactly
  these, and it never holds more than \<open>m\<close>.
\<close>

theorem span_cache_is_lru:
  assumes "0 < m"
  shows "sc_access_order (cache_run (span_cache_new m) ops) =
       lastn m (remdups (accessed (span_cache_new m) ops)) \<and>
     (\<forall>i. span_cache_contains (cache_run (span_cache_new m) ops) i \<longleftrightarrow>
        i \<in> set (lastn m (remdups (accessed (span_cache_new m) ops)))) \<and>
     span_cache_len (cache_run (span_cache_new m) ops) \<le> m"
proof -
  let ?c = "cache_run (span_cache_new m) ops"
  have inv: "sc_inv ?c" by auto
  have mx: "sc_max_size (span_cache_new m) = m" by (simp add: span_cache_new_def)
  have "sc_access_order (span_cache_new m) = lastn (sc_max_size (span_cache_new m)) (remdups [])"
    by (simp add: span_cache_new_def lastn_def)
  from access_order_run [OF _ _ this, of ops]
  have ord: "sc_access_order ?c = lastn m (remdups (accessed (span_cache_new m) ops))"
    using assms by (simp add: mx)
  moreover have "span_cache_contains ?c i \<longleftrightarrow> i \<in> set (sc_access_order ?c)" for i
    using inv by (simp add: span_cache_contains_def sc_inv_keys)
  moreover have "span_cache_len ?c = length (sc_access_order ?c)"
    using inv by (simp add: span_cache_len_def sc_inv_length)
  ultimately show ?thesis by (simp add: lastn_length)
qed

text \<open>
  C17. The map and the vector together implement the abstract list of spans in access order:
  from an empty cache every \<open>get\<close> returns what the list returns, and \<open>get\<close> and \<open>insert\<close> change
  the list as the abstract operations do, eviction included, after any history of calls.
\<close>

theorem span_cache_refines_lru:
  "lru_get i (lru_abs (cache_run (span_cache_new m) ops)) =
     (lru_abs (fst (span_cache_get (cache_run (span_cache_new m) ops) i)),
      snd (span_cache_get (cache_run (span_cache_new m) ops) i)) \<and>
   lru_abs (span_cache_insert (cache_run (span_cache_new m) ops) s) =
     lru_insert m s (lru_abs (cache_run (span_cache_new m) ops)) \<and>
   lru_abs (span_cache_new m) = []"
proof -
  have inv: "sc_inv (cache_run (span_cache_new m) ops)" by auto
  have mx: "sc_max_size (cache_run (span_cache_new m) ops) = m"
    by (simp add: max_size_run) (simp add: span_cache_new_def)
  show ?thesis
    using span_cache_get_refines [OF inv, of i] span_cache_insert_refines [OF inv, of s]
    by (simp add: mx) (simp add: lru_abs_def span_cache_new_def)
qed

text \<open>
  A hit is never stale: whatever span a \<open>get\<close> returns after any history of calls has the
  requested id and is the one inserted last under it.
\<close>

theorem span_cache_get_latest:
  assumes "snd (span_cache_get (cache_run (span_cache_new m) ops) i) = Some s"
  shows "sp_id s = i \<and> find (\<lambda>t. sp_id t = i) (rev (inserted ops)) = Some s"
proof -
  have "ss.latest (span_cache_new m) []"
    by (simp add: ss.latest_def span_cache_look_def span_cache_new_def)
  then have "ss.latest (cache_run (span_cache_new m) ops) (rev (inserted ops))"
    using latest_run [of "span_cache_new m" "[]" ops] by simp
  then show ?thesis using assms by (intro ss.get_answers_latest) auto
qed

text \<open>With capacity zero nothing is ever evicted: the map grows with every new id.\<close>

lemma span_cache_zero_unbounded:
  assumes "sc_inv c" and "sc_max_size c = 0"
  shows "span_cache_len (span_cache_insert c s) =
    (if span_cache_contains c (sp_id s) then span_cache_len c else Suc (span_cache_len c))"
proof -
  have d: "distinct (sc_access_order c)" using assms(1) by (simp add: sc_inv_def)
  have "length (hm_insert k v m) = (if k \<in> fst ` set m then length m else Suc (length m))"
    for k :: u64 and v :: span and m
    by (induction m) (auto simp: hm_insert_def)
  then show ?thesis
    using assms d by (simp add: span_cache_len_def insert_cases span_cache_contains_def evicted_def
        touch_simps hm_contains_iff)
qed

section \<open>Witnesses\<close>

definition demo_span :: "u64 \<Rightarrow> u64 \<Rightarrow> span" where
  "demo_span i start = \<lparr>sp_id = i, sp_start_block = start, sp_end_block = start + 6399,
     sp_validator_set = \<lparr>vs_validators = [], vs_proposer = None\<rparr>, sp_selected_producers = [],
     sp_bor_chain_id = ''137''\<rparr>"

definition demo_ops :: "cache_op list" where
  "demo_ops = [Insert (demo_span 1 6400), Insert (demo_span 2 12800), Get 1, Insert (demo_span 3 19200)]"

lemmas cache_eval = cache_run_def demo_ops_def demo_span_def span_cache_new_def span_cache_insert_def
  span_cache_get_def span_cache_touch_def span_cache_contains_def vec_remove_def
  hm_contains_def hm_get_def hm_insert_def hm_remove_def Let_def

theorem span_cache_is_lru_witness:
  "sc_access_order (cache_run (span_cache_new 2) demo_ops) = [1, 3] \<and>
   lastn 2 (remdups (accessed (span_cache_new 2) demo_ops)) = [1, 3]"
proof -
  have "accessed (span_cache_new 2) demo_ops = [1, 2, 1, 3]" by (simp add: cache_eval)
  with span_cache_is_lru [of 2 demo_ops] show ?thesis by (simp add: lastn_def)
qed

theorem span_cache_get_latest_witness:
  "snd (span_cache_get (cache_run (span_cache_new 2) demo_ops) 3) = Some (demo_span 3 19200) \<and>
   find (\<lambda>t. sp_id t = 3) (rev (inserted demo_ops)) = Some (demo_span 3 19200)"
proof -
  have "snd (span_cache_get (cache_run (span_cache_new 2) demo_ops) 3) = Some (demo_span 3 19200)"
    by (simp add: cache_eval)
  with span_cache_get_latest [OF this] show ?thesis by simp
qed

end
