(* ===== verification/Consensus_Engine.thy ===== *)
theory Consensus_Engine
  imports Consensus_Validation Heimdall_Cache
begin

text \<open>
  \<open>bor-consensus/src/reth_consensus.rs\<close>: the consensus engine that the node installs. Its state
  is the span cache and the log of recent signers; block validation reads and changes both.
  The reachable states are an inductive relation over the calls a node makes, and the
  anti-double-sign guarantee is proved on it by rule induction.
\<close>

section \<open>Model\<close>

datatype consensus_error =
    TheMergeNonceIsNotZero
  | TheMergeOmmerRootIsNotEmpty
  | HeaderGasUsedExceedsGasLimit u64 u64
  | ExtraDataExceedsMax nat
  | WithdrawalsRootUnexpected
  | BlobGasUsedUnexpected
  | ExcessBlobGasUnexpected
  | ParentBeaconBlockRootUnexpected
  | RequestsHashUnexpected
  | ParentBlockNumberMismatch u64 u64
  | ParentHashMismatch b256 b256
  | TimestampIsInPast u64 u64
  | BodyOmmersHashDiff b256 b256
  | BodyTransactionRootDiff b256 b256
  | BlockGasUsed u64 u64
  | Other string

text \<open>
  What the engine takes from Reth and Alloy: the curve and hash library, the hash of an empty
  ommers list, the transaction trie root and the \<open>Display\<close> of an address.
\<close>

record ('sig, 'tx) env =
  en_crypto :: "'sig crypto"
  en_empty_ommer_root :: b256
  en_transaction_root :: "'tx list \<Rightarrow> b256"
  en_show_address :: "address \<Rightarrow> string"

record sealed_header =
  sh_header :: header
  sh_hash :: b256

type_synonym withdrawal = "u64 \<times> u64 \<times> address \<times> u64"

record 'tx block_body =
  bb_transactions :: "'tx list"
  bb_ommers :: "header list option"
  bb_withdrawals :: "withdrawal list option"

record bor_consensus =
  bc_span_cache :: span_cache
  bc_recents :: recents

definition bor_consensus_new :: bor_consensus where
  "bor_consensus_new = \<lparr>bc_span_cache = span_cache_new 64, bc_recents = recents_new\<rparr>"

definition engine_insert_span :: "bor_consensus \<Rightarrow> span \<Rightarrow> bor_consensus" where
  "engine_insert_span e s = e\<lparr>bc_span_cache := span_cache_insert (bc_span_cache e) s\<rparr>"

definition get_span_for_block :: "bor_consensus \<Rightarrow> u64 \<Rightarrow> u64 \<Rightarrow> panic + (bor_consensus \<times> span option)" where
  "get_span_for_block e block_number sz =
     bindR (span_id_at block_number sz) (\<lambda>span_id.
     let r = span_cache_get (bc_span_cache e) span_id
     in Inr (e\<lparr>bc_span_cache := fst r\<rparr>, snd r))"

definition authorized_signers :: "span \<Rightarrow> address list" where
  "authorized_signers s = map v_signer (vs_validators (sp_validator_set s))"

subsection \<open>Headers\<close>

definition engine_validate_header :: "('sig, 'tx) env \<Rightarrow> sealed_header \<Rightarrow> consensus_error + unit" where
  "engine_validate_header E sealed =
     (let h = sh_header sealed in
      bindR (ensure (hd_nonce h = Some 0) TheMergeNonceIsNotZero) (\<lambda>_.
      bindR (ensure (hd_ommers_hash h = en_empty_ommer_root E) TheMergeOmmerRootIsNotEmpty) (\<lambda>_.
      bindR (ensure (\<not> hd_gas_limit h < hd_gas_used h)
               (HeaderGasUsedExceedsGasLimit (hd_gas_used h) (hd_gas_limit h))) (\<lambda>_.
      bindR (ensure (\<not> length (hd_extra_data h) < 97) (ExtraDataExceedsMax (length (hd_extra_data h)))) (\<lambda>_.
      bindR (ensure (hd_withdrawals_root h = None) WithdrawalsRootUnexpected) (\<lambda>_.
      bindR (ensure (hd_blob_gas_used h = None) BlobGasUsedUnexpected) (\<lambda>_.
      bindR (ensure (hd_excess_blob_gas h = None) ExcessBlobGasUnexpected) (\<lambda>_.
      bindR (ensure (hd_parent_beacon_block_root h = None) ParentBeaconBlockRootUnexpected) (\<lambda>_.
      ensure (hd_requests_hash h = None) RequestsHashUnexpected)))))))))"


subsection \<open>Bodies\<close>

definition has_ommers :: "'tx block_body \<Rightarrow> bool" where
  "has_ommers b = (case bb_ommers b of None \<Rightarrow> False | Some os \<Rightarrow> os \<noteq> [])"

definition validate_body_against_header ::
    "('sig, 'tx) env \<Rightarrow> 'tx block_body \<Rightarrow> sealed_header \<Rightarrow> consensus_error + unit" where
  "validate_body_against_header E body sealed =
     bindR (ensure (\<not> has_ommers body) (BodyOmmersHashDiff 0 (en_empty_ommer_root E))) (\<lambda>_.
     bindR (ensure (bb_withdrawals body = None) WithdrawalsRootUnexpected) (\<lambda>_.
     let tx_root = en_transaction_root E (bb_transactions body);
         header_tx_root = hd_transactions_root (sh_header sealed)
     in ensure (tx_root = header_tx_root) (BodyTransactionRootDiff tx_root header_tx_root)))"

subsection \<open>Block validation\<close>

text \<open>The part of the handler that does not touch the state: who signed the block.\<close>

definition block_signer ::
    "('sig, 'tx) env \<Rightarrow> header \<Rightarrow> 'tx block_body \<Rightarrow> consensus_error + address" where
  "block_signer E h body =
     bindR (ensure (\<not> has_ommers body) (BodyOmmersHashDiff 0 (en_empty_ommer_root E))) (\<lambda>_.
     bindR (ensure (bb_withdrawals body = None) WithdrawalsRootUnexpected) (\<lambda>_.
     bindR (map_err (\<lambda>e. Other (''invalid extra data: '' @ show_extra_data_error e))
              (extra_data_parse (hd_extra_data h))) (\<lambda>extra.
     let seal_hash = compute_seal_hash (en_crypto E) h in
     map_err (\<lambda>e. Other (''seal recovery failed: '' @ show_seal_error e))
       (ecrecover_seal (en_crypto E) seal_hash (ed_seal extra)))))"

definition span_size_default :: u64 where
  [simp]: "span_size_default = 6400"

text \<open>First critical section on the log: the check.\<close>

definition check_signer ::
    "('sig, 'tx) env \<Rightarrow> bor_consensus \<Rightarrow> u64 \<Rightarrow> address \<Rightarrow> address list \<Rightarrow> consensus_error failure + unit" where
  "check_signer E e block_number signer signers =
     bindR (ensure (List.member signers signer)
              (Err (Other (''unauthorized signer '' @ en_show_address E signer @ '' at block '' @
                 show_u64 block_number)))) (\<lambda>_.
     bindR (map_err Panic (is_recently_signed (bc_recents e) signer block_number (length signers))) (\<lambda>recent.
     ensure (\<not> recent)
       (Err (Other (''signer '' @ en_show_address E signer @ '' signed too recently at block '' @
          show_u64 block_number)))))"

text \<open>Second critical section: the record.\<close>

definition record_signer :: "bor_consensus \<Rightarrow> u64 \<Rightarrow> address \<Rightarrow> address list \<Rightarrow> bor_consensus" where
  "record_signer e block_number signer signers =
     e\<lparr>bc_recents := recents_prune (recents_add_signer (bc_recents e) block_number signer)
                       block_number (length signers)\<rparr>"

definition engine_pre_execution ::
    "('sig, 'tx) env \<Rightarrow> bor_consensus \<Rightarrow> header \<Rightarrow> 'tx block_body \<Rightarrow>
     bor_consensus \<times> (consensus_error failure + unit)" where
  "engine_pre_execution E e h body =
     (case block_signer E h body of
        Inl err \<Rightarrow> (e, Inl (Err err))
      | Inr signer \<Rightarrow>
          (case get_span_for_block e (hd_number h) span_size_default of
             Inl p \<Rightarrow> (e, Inl (Panic p))
           | Inr (e1, None) \<Rightarrow> (e1, Inr ())
           | Inr (e1, Some span) \<Rightarrow>
               let signers = authorized_signers span in
               (case check_signer E e1 (hd_number h) signer signers of
                  Inl err \<Rightarrow> (e1, Inl err)
                | Inr _ \<Rightarrow> (record_signer e1 (hd_number h) signer signers, Inr ()))))"

definition engine_post_execution :: "header \<Rightarrow> u64 \<Rightarrow> consensus_error + unit" where
  "engine_post_execution h exec_gas =
     ensure (hd_gas_used h = exec_gas) (BlockGasUsed exec_gas (hd_gas_used h))"

section \<open>Reachable states\<close>

text \<open>
  The calls of a node on a new engine, one at a time: spans are inserted, blocks are validated.
  \<open>log\<close> lists the blocks that were accepted with a span in the cache, in the order of acceptance;
  only histories count in which their numbers strictly increase, as they do on one branch, and
  in which their spans, of any sizes, have at least \<open>c\<close> validators each. \<open>hist\<close> lists the inserted spans, the latest first.
\<close>

inductive reachable ::
    "('sig, 'tx) env \<Rightarrow> nat \<Rightarrow> bor_consensus \<Rightarrow> (u64 \<times> address) list \<Rightarrow> span list \<Rightarrow> bool" for E c where
  init: "reachable E c bor_consensus_new [] []"
| insert_span: "reachable E c e log hist \<Longrightarrow> reachable E c (engine_insert_span e s) log (s # hist)"
| reject: "reachable E c e log hist \<Longrightarrow> engine_pre_execution E e h b = (e', Inl err) \<Longrightarrow>
    reachable E c e' log hist"
| skip: "reachable E c e log hist \<Longrightarrow> get_span_for_block e (hd_number h) 6400 = Inr (e1, None) \<Longrightarrow>
    engine_pre_execution E e h b = (e', Inr ()) \<Longrightarrow> reachable E c e' log hist"
| accept: "reachable E c e log hist \<Longrightarrow> block_signer E h b = Inr a \<Longrightarrow>
    get_span_for_block e (hd_number h) 6400 = Inr (e1, Some s) \<Longrightarrow>
    c \<le> length (authorized_signers s) \<and> length (authorized_signers s) < 2 ^ 64 \<Longrightarrow>
    \<forall>(k, _)\<in>set log. k < hd_number h \<Longrightarrow>
    engine_pre_execution E e h b = (e', Inr ()) \<Longrightarrow>
    reachable E c e' (log @ [(hd_number h, a)]) hist"

section \<open>Lemmas\<close>

lemma get_span_eq:
  "get_span_for_block e n 6400 =
     Inr (e\<lparr>bc_span_cache := fst (span_cache_get (bc_span_cache e) (n div 6400))\<rparr>,
          snd (span_cache_get (bc_span_cache e) (n div 6400)))"
  by (simp add: get_span_for_block_def span_id_at_def u64_div_def Let_def)

lemma check_signer_iff:
  "bt_inv (rc_signers (bc_recents e)) \<Longrightarrow> length signers < 2 ^ 64 \<Longrightarrow>
     check_signer E e n a signers = Inr () \<longleftrightarrow>
       a \<in> set signers \<and> \<not> signed_in_window (bt_get (rc_signers (bc_recents e))) (length signers) n a"
  by (auto simp: check_signer_def bindR_eq_Inr is_recently_signed_eq List.member_iff)

lemma check_signer_no_panic:
  "check_signer E e n a signers \<noteq> Inl (Panic p)"
  by (auto simp: check_signer_def bindR_eq_Inl map_err_eq_Inl is_recently_signed_def)

text \<open>The handler with the lookup resolved.\<close>

lemma engine_pre_execution_eq:
  "engine_pre_execution E e h b =
     (let r = span_cache_get (bc_span_cache e) (hd_number h div 6400);
          e1 = e\<lparr>bc_span_cache := fst r\<rparr>
      in case block_signer E h b of
           Inl err \<Rightarrow> (e, Inl (Err err))
         | Inr a \<Rightarrow>
             (case snd r of
                None \<Rightarrow> (e1, Inr ())
              | Some s \<Rightarrow>
                  (case check_signer E e1 (hd_number h) a (authorized_signers s) of
                     Inl err \<Rightarrow> (e1, Inl err)
                   | Inr _ \<Rightarrow> (record_signer e1 (hd_number h) a (authorized_signers s), Inr ()))))"
  by (simp add: engine_pre_execution_def get_span_eq Let_def split: sum.splits option.splits)

lemma check_signer_recents_cong:
  "bc_recents e = bc_recents e' \<Longrightarrow> check_signer E e n a signers = check_signer E e' n a signers"
  by (simp add: check_signer_def)

text \<open>The answer of a validation depends on the log and on what the cache holds.\<close>

lemma check_signer_cache [simp]: "check_signer E (e\<lparr>bc_span_cache := cache\<rparr>) = check_signer E e"
  by (intro ext) (simp add: check_signer_def)

lemma pre_execution_answer:
  assumes "sc_inv (bc_span_cache e)"
  shows "snd (engine_pre_execution E e h b) =
    (case block_signer E h b of
       Inl err \<Rightarrow> Inl (Err err)
     | Inr a \<Rightarrow>
         (case span_cache_look (bc_span_cache e) (hd_number h div 6400) of
            None \<Rightarrow> Inr ()
          | Some s \<Rightarrow> check_signer E e (hd_number h) a (authorized_signers s)))"
  by (simp add: engine_pre_execution_eq ss.get_look [OF assms] Let_def split: sum.splits option.splits)

lemma pre_execution_cong:
  assumes "sc_inv (bc_span_cache e)" and "sc_inv (bc_span_cache e')" and "bc_recents e' = bc_recents e"
    and "span_cache_look (bc_span_cache e') = span_cache_look (bc_span_cache e)"
  shows "snd (engine_pre_execution E e' h b) = snd (engine_pre_execution E e h b)"
proof -
  have "check_signer E e' = check_signer E e" by (intro ext check_signer_recents_cong assms(3))
  then show ?thesis by (simp only: pre_execution_answer [OF assms(1)] pre_execution_answer [OF assms(2)] assms(4))
qed

lemma look_pre_execution:
  assumes "sc_inv (bc_span_cache e)"
  shows "span_cache_look (bc_span_cache (fst (engine_pre_execution E e h b))) = span_cache_look (bc_span_cache e)"
  using ss.look_get [OF assms]
  by (auto simp: engine_pre_execution_eq Let_def record_signer_def split: sum.splits option.splits)

lemma engine_invariants:
  assumes "sc_inv (bc_span_cache e)" and "bt_inv (rc_signers (bc_recents e))"
    and "engine_pre_execution E e h b = (e', r)"
  shows "sc_inv (bc_span_cache e') \<and> bt_inv (rc_signers (bc_recents e'))"
  using assms by (auto simp: engine_pre_execution_eq Let_def record_signer_def recents_inv_record
      split: sum.splits option.splits)

lemma reject_keeps_recents:
  "engine_pre_execution E e h b = (e', Inl err) \<Longrightarrow> bc_recents e' = bc_recents e"
  by (auto simp: engine_pre_execution_eq Let_def split: sum.splits option.splits)

lemma skip_keeps_recents:
  "get_span_for_block e (hd_number h) 6400 = Inr (e1, None) \<Longrightarrow>
   engine_pre_execution E e h b = (e', Inr ()) \<Longrightarrow> bc_recents e' = bc_recents e"
  by (auto simp: engine_pre_execution_eq get_span_eq Let_def split: sum.splits)

lemma accept_records:
  assumes "get_span_for_block e (hd_number h) 6400 = Inr (e1, Some s)"
    and "block_signer E h b = Inr a" and "engine_pre_execution E e h b = (e', Inr ())"
    and "bt_inv (rc_signers (bc_recents e))" and "length (authorized_signers s) < 2 ^ 64"
  shows "bc_recents e' = recents_prune (recents_add_signer (bc_recents e) (hd_number h) a)
      (hd_number h) (length (authorized_signers s)) \<and>
    a \<in> set (authorized_signers s) \<and>
    \<not> signed_in_window (bt_get (rc_signers (bc_recents e))) (length (authorized_signers s)) (hd_number h) a"
proof -
  let ?e1 = "e\<lparr>bc_span_cache := fst (span_cache_get (bc_span_cache e) (hd_number h div 6400))\<rparr>"
  have e1: "e1 = ?e1" and s: "snd (span_cache_get (bc_span_cache e) (hd_number h div 6400)) = Some s"
    using assms(1) by (simp_all add: get_span_eq)
  have "check_signer E e1 (hd_number h) a (authorized_signers s) = Inr ()"
      and e': "e' = record_signer e1 (hd_number h) a (authorized_signers s)"
    using assms(2,3) by (auto simp: engine_pre_execution_eq s e1 Let_def split: sum.splits)
  then show ?thesis
    using check_signer_iff [of e1 "authorized_signers s" E] assms(4,5)
    by (auto simp: record_signer_def e1)
qed

text \<open>
  The log keeps every recorded block that no recorded block has left behind by the window of
  \<open>c\<close> validators.
\<close>

definition kept :: "nat \<Rightarrow> bor_consensus \<Rightarrow> (u64 \<times> address) list \<Rightarrow> bool" where
  "kept c e log \<longleftrightarrow> bt_inv (rc_signers (bc_recents e)) \<and>
     (\<forall>(k, a)\<in>set log. (\<forall>(n, _)\<in>set log. unat n - sign_window c \<le> unat k) \<longrightarrow>
        bt_get (rc_signers (bc_recents e)) k = Some a)"

text \<open>A passed check finds no block of its signer in the window of a recorded one.\<close>

lemma passed_apart:
  assumes "kept c e log" and "check_signer E e n a sg = Inr ()" and "c \<le> length sg" and "length sg < 2 ^ 64"
    and "\<forall>(k, _)\<in>set log. k < n" and "(k, a) \<in> set log"
  shows "unat k + sign_window c < unat n"
proof (rule ccontr)
  assume "\<not> unat k + sign_window c < unat n"
  then have near: "unat n - sign_window c \<le> unat k" by linarith
  have below: "unat m < unat n" if "(m, b) \<in> set log" for m b
    using assms(5) that by (auto simp: word_less_nat_alt)
  have "unat m - sign_window c \<le> unat k" if "(m, b) \<in> set log" for m b
    using below [OF that] near by linarith
  then have "bt_get (rc_signers (bc_recents e)) k = Some a" using assms(1,6) by (fastforce simp: kept_def)
  moreover have "sign_window c \<le> sign_window (length sg)"
    using assms(3) by (auto simp: sign_window_def intro: div_le_mono)
  then have "unat n - sign_window (length sg) \<le> unat k" using near by linarith
  ultimately have "signed_in_window (bt_get (rc_signers (bc_recents e))) (length sg) n a"
    using below [OF assms(6)] by (auto simp: signed_in_window_def)
  with assms(1,2,4) show False by (simp add: check_signer_iff kept_def)
qed

lemma kept_record:
  assumes "kept c e log" and "c \<le> length sg" and "length sg < 2 ^ 64" and "n \<notin> fst ` set log"
  shows "kept c (record_signer e n a sg) (log @ [(n, a)])"
proof -
  let ?l = "length sg"
  have bt: "bt_inv (rc_signers (bc_recents e))" using assms(1) by (simp add: kept_def)
  have wide: "sign_window c \<le> sign_window ?l" using assms(2) by (auto simp: sign_window_def intro: div_le_mono)
  have get: "bt_get (rc_signers (bc_recents (record_signer e n a sg))) k =
      (if unat n - sign_window ?l \<le> unat k then if k = n then Some a else bt_get (rc_signers (bc_recents e)) k
       else None)" for k
    using rc.signer_at_record [of "bc_recents e" ?l n a k] bt assms(3) by (simp add: record_signer_def)
  have all: "bt_get (rc_signers (bc_recents (record_signer e n a sg))) k = Some b"
    if "(k, b) \<in> set (log @ [(n, a)])" "\<forall>(m, _)\<in>set (log @ [(n, a)]). unat m - sign_window c \<le> unat k" for k b
  proof -
    have "bt_get (rc_signers (bc_recents e)) k = Some b" if "(k, b) \<in> set log"
      using assms(1) that \<open>\<forall>(m, _)\<in>_. _\<close> by (fastforce simp: kept_def)
    moreover have "unat n - sign_window ?l \<le> unat k" using that(2) wide by fastforce
    moreover have "k \<noteq> n" if "(k, b) \<in> set log" using assms(4) that by force
    ultimately show ?thesis using that(1) by (auto simp: get)
  qed
  have "bt_inv (rc_signers (bc_recents (record_signer e n a sg)))" using bt by (simp add: record_signer_def recents_inv_record)
  with all show ?thesis unfolding kept_def by blast
qed

text \<open>The invariant of the reachable states.\<close>

definition engine_inv :: "nat \<Rightarrow> bor_consensus \<Rightarrow> (u64 \<times> address) list \<Rightarrow> span list \<Rightarrow> bool" where
  "engine_inv c e log hist \<longleftrightarrow>
     sc_inv (bc_span_cache e) \<and> ss.latest (bc_span_cache e) hist \<and> kept c e log \<and>
     (\<forall>(k, a)\<in>set log. \<forall>(n, b)\<in>set log. a = b \<longrightarrow> k < n \<longrightarrow> unat k + sign_window c < unat n)"

lemma engine_inv_wf:
  "engine_inv c e log hist \<Longrightarrow>
   sc_inv (bc_span_cache e) \<and> bt_inv (rc_signers (bc_recents e)) \<and> ss.latest (bc_span_cache e) hist"
  by (simp add: engine_inv_def kept_def)

lemma engine_inv_same_recents:
  "engine_inv c e log hist \<Longrightarrow> bc_recents e' = bc_recents e \<Longrightarrow> sc_inv (bc_span_cache e') \<Longrightarrow>
   ss.latest (bc_span_cache e') hist' \<Longrightarrow> engine_inv c e' log hist'"
  by (simp add: engine_inv_def kept_def)

lemma latest_pre_execution:
  assumes "sc_inv (bc_span_cache e)" and "ss.latest (bc_span_cache e) hist"
    and "engine_pre_execution E e h b = (e', r)"
  shows "ss.latest (bc_span_cache e') hist"
  using assms ss.latest_get [OF assms(1,2), of "hd_number h div 6400"]
  by (auto simp: engine_pre_execution_eq Let_def record_signer_def split: sum.splits option.splits)

lemma engine_inv_call:
  assumes "engine_inv c e log hist" and "engine_pre_execution E e h b = (e', r)"
    and "bc_recents e' = bc_recents e"
  shows "engine_inv c e' log hist"
proof -
  have e: "sc_inv (bc_span_cache e)" "bt_inv (rc_signers (bc_recents e))" "ss.latest (bc_span_cache e) hist"
    using engine_inv_wf [OF assms(1)] by simp_all
  show ?thesis
    using engine_invariants [OF e(1,2) assms(2)] latest_pre_execution [OF e(1,3) assms(2)]
    by (intro engine_inv_same_recents [OF assms(1,3)]) simp_all
qed

lemma engine_inv_accept:
  assumes inv: "engine_inv c e log hist"
    and signer: "block_signer E h b = Inr a"
    and span: "get_span_for_block e (hd_number h) 6400 = Inr (e1, Some s)"
    and len: "c \<le> length (authorized_signers s) \<and> length (authorized_signers s) < 2 ^ 64"
    and newer: "\<forall>(k, _)\<in>set log. k < hd_number h"
    and ok: "engine_pre_execution E e h b = (e', Inr ())"
  shows "engine_inv c e' (log @ [(hd_number h, a)]) hist"
proof -
  let ?n = "hd_number h" and ?sg = "authorized_signers s"
  have wf: "sc_inv (bc_span_cache e)" "bt_inv (rc_signers (bc_recents e))" "ss.latest (bc_span_cache e) hist"
    using engine_inv_wf [OF inv] by simp_all
  have kept: "kept c e log" and old: "unat k + sign_window c < unat m"
    if "(k, x) \<in> set log" "(m, x) \<in> set log" "k < m" for k m x
    using inv that by (fastforce simp: engine_inv_def)+
  have check: "check_signer E e ?n a ?sg = Inr ()"
    using accept_records [OF span signer ok wf(2) conjunct2 [OF len]] check_signer_iff [OF wf(2)] len by blast
  have "kept c (record_signer e ?n a ?sg) (log @ [(?n, a)])"
    using inv newer len by (intro kept_record) (auto simp: engine_inv_def)
  moreover have "bc_recents e' = bc_recents (record_signer e ?n a ?sg)"
    using accept_records [OF span signer ok wf(2) conjunct2 [OF len]] by (simp add: record_signer_def)
  ultimately have "kept c e' (log @ [(?n, a)])" by (simp add: kept_def)
  moreover have "unat k + sign_window c < unat m"
    if "(k, x) \<in> set (log @ [(?n, a)])" "(m, x) \<in> set (log @ [(?n, a)])" "k < m" for k m x
    using that old passed_apart [OF _ check conjunct1 [OF len] conjunct2 [OF len] newer] inv newer
    by (auto simp: engine_inv_def)
  moreover have "sc_inv (bc_span_cache e')" "ss.latest (bc_span_cache e') hist"
    using engine_invariants [OF wf(1,2) ok] latest_pre_execution [OF wf(1,3) ok] by simp_all
  ultimately show ?thesis unfolding engine_inv_def by blast
qed

lemma reachable_inv:
  assumes "reachable E c e log hist"
  shows "engine_inv c e log hist"
  using assms
proof (induction rule: reachable.induct)
  case init
  then show ?case
    by (simp add: engine_inv_def kept_def bor_consensus_new_def ss.latest_def span_cache_look_def span_cache_new_def
        sc_inv_new [unfolded span_cache_new_def])
next
  case (insert_span e log hist s)
  then have inv: "engine_inv c e log hist" by blast
  then have "sc_inv (bc_span_cache e)" "ss.latest (bc_span_cache e) hist" by (simp_all add: engine_inv_def)
  then show ?case
    by (intro engine_inv_same_recents [OF inv]) (simp_all add: engine_insert_span_def ss.latest_ins sc_inv_insert)
next
  case (reject e log hist h b e' err)
  then show ?case
    using engine_inv_call [OF _ reject.hyps(2)] reject_keeps_recents [OF reject.hyps(2)] by blast
next
  case (skip e log hist h e1 b e')
  then show ?case
    using engine_inv_call [OF _ skip.hyps(3)] skip_keeps_recents [OF skip.hyps(2,3)] by blast
next
  case (accept e log hist h b a e1 s e')
  show ?case
    by (rule engine_inv_accept [OF accept.IH accept.hyps(2-6)])
qed

lemma engine_pre_execution_accepts:
  assumes "bt_inv (rc_signers (bc_recents e))" and "sc_inv (bc_span_cache e)"
    and "\<And>s. span_cache_look (bc_span_cache e) (hd_number h div 6400) = Some s \<Longrightarrow>
      length (authorized_signers s) < 2 ^ 64"
  shows "snd (engine_pre_execution E e h b) = Inr () \<longleftrightarrow>
     (\<exists>a. block_signer E h b = Inr a \<and>
        (case span_cache_look (bc_span_cache e) (hd_number h div 6400) of
           None \<Rightarrow> True
         | Some s \<Rightarrow> a \<in> set (authorized_signers s) \<and>
             \<not> signed_in_window (bt_get (rc_signers (bc_recents e))) (length (authorized_signers s)) (hd_number h) a))"
  by (auto simp: pre_execution_answer [OF assms(2)] check_signer_iff [OF assms(1) assms(3)]
      split: sum.splits option.splits)


text \<open>One after the other, the second block of the window is refused.\<close>

lemma second_refused:
  assumes "sc_inv (bc_span_cache e)" and "bt_inv (rc_signers (bc_recents e))"
    and "span_cache_look (bc_span_cache e) (hd_number h1 div 6400) = Some s1"
    and "span_cache_look (bc_span_cache e) (hd_number h2 div 6400) = Some s2"
    and "length (authorized_signers s1) = c" and "length (authorized_signers s2) = c" and "c < 2 ^ 64"
    and "block_signer E h1 b1 = Inr a" and "block_signer E h2 b2 = Inr a"
    and "snd (engine_pre_execution E e h1 b1) = Inr ()"
    and "unat (hd_number h1) < unat (hd_number h2)"
    and "unat (hd_number h2) \<le> unat (hd_number h1) + sign_window c"
  shows "snd (engine_pre_execution E (fst (engine_pre_execution E e h1 b1)) h2 b2) \<noteq> Inr ()"
proof -
  let ?n1 = "hd_number h1" and ?n2 = "hd_number h2"
  obtain e' where e': "engine_pre_execution E e h1 b1 = (e', Inr ())" using assms(10) by (metis prod.collapse)
  have "\<exists>e1. get_span_for_block e ?n1 6400 = Inr (e1, Some s1)"
    using assms(3) ss.get_look [OF assms(1)] by (simp add: get_span_eq)
  then have r: "bc_recents e' = recents_prune (recents_add_signer (bc_recents e) ?n1 a) ?n1 c"
    using accept_records [OF _ assms(8) e' assms(2)] assms(5,7) by blast
  have inv': "sc_inv (bc_span_cache e')" "bt_inv (rc_signers (bc_recents e'))"
    using engine_invariants [OF assms(1,2) e'] by auto
  have look': "span_cache_look (bc_span_cache e') i = span_cache_look (bc_span_cache e) i" for i
    using look_pre_execution [OF assms(1), of E h1 b1] by (simp add: e')
  have "bt_get (rc_signers (bc_recents e')) ?n1 = Some a"
    using rc.signer_at_recorded [of "bc_recents e" c ?n1 a] assms(2,7) by (simp add: r)
  then have "signed_in_window (bt_get (rc_signers (bc_recents e'))) c ?n2 a"
    unfolding signed_in_window_def using assms(11,12) by (intro exI [of _ ?n1]) simp
  then show ?thesis
    using engine_pre_execution_accepts [OF inv'(2,1), of h2 E b2] assms(4,6,7,9) by (simp add: e' look')
qed

section \<open>Properties\<close>

text \<open>
  C1. No double signing: on any history of calls in which the blocks checked against a cached
  span come in increasing number and those spans, of any sizes, have at least \<open>c\<close> validators
  each, two accepted blocks of one signer lie more than \<open>c / 2 + 1\<close> blocks apart, whatever was
  rejected, skipped for want of a span, or inserted between.
\<close>

theorem engine_no_double_sign:
  assumes "reachable E c e log hist" and "(k, a) \<in> set log" and "(n, a) \<in> set log" and "k < n"
  shows "unat k + (c div 2 + 1) < unat n"
  using reachable_inv [OF assms(1)] assms(2-4) by (fastforce simp: engine_inv_def sign_window_def)

text \<open>
  C2. What the engine accepts after any history in which the blocks checked against a cached span
  come in increasing number: a block passes if and only if it has no
  ommers, no withdrawals and a recoverable seal and, where a span is cached for it, that span is the
  one inserted last under the block's span id, its validators contain the signer, and the
  signer signed none of the blocks of the window. Without a cached span no signer is refused.
\<close>

theorem engine_accepts_iff:
  assumes "reachable E c e log hist" and "\<forall>s\<in>set hist. length (authorized_signers s) < 2 ^ 64"
  shows "snd (engine_pre_execution E e h b) = Inr () \<longleftrightarrow>
     (\<exists>a. block_signer E h b = Inr a \<and>
        (case span_cache_look (bc_span_cache e) (hd_number h div 6400) of
           None \<Rightarrow> True
         | Some s \<Rightarrow> find (\<lambda>t. sp_id t = hd_number h div 6400) hist = Some s \<and>
             a \<in> set (authorized_signers s) \<and>
             (\<nexists>k. unat (hd_number h) - (length (authorized_signers s) div 2 + 1) \<le> unat k \<and>
                 unat k < unat (hd_number h) \<and> bt_get (rc_signers (bc_recents e)) k = Some a)))"
proof -
  have inv: "sc_inv (bc_span_cache e)" "bt_inv (rc_signers (bc_recents e))" "ss.latest (bc_span_cache e) hist"
    using engine_inv_wf [OF reachable_inv [OF assms(1)]] by simp_all
  have latest: "find (\<lambda>t. sp_id t = i) hist = Some s" and mem: "s \<in> set hist"
    if "span_cache_look (bc_span_cache e) i = Some s" for i s
    using that inv(3) ss.latest_lookup_id [OF inv(3) that] by (simp_all add: ss.latest_def)
  show ?thesis
    by (subst engine_pre_execution_accepts [OF inv(2,1)])
      (use assms(2) mem in \<open>auto simp: signed_in_window_def sign_window_def latest split: option.splits\<close>)
qed


text \<open>The fields that a header accepted by the engine leaves out.\<close>

definition pre_shanghai :: "header \<Rightarrow> bool" where
  "pre_shanghai h \<longleftrightarrow>
     hd_withdrawals_root h = None \<and> hd_blob_gas_used h = None \<and> hd_excess_blob_gas h = None \<and>
     hd_parent_beacon_block_root h = None \<and> hd_requests_hash h = None"

lemma pre_shanghai_in_order: "pre_shanghai h \<Longrightarrow> optional_in_order h"
  by (simp add: pre_shanghai_def optional_in_order_def)

text \<open>
  Structural header rules: a header passes if and only if its nonce is present and zero, its
  ommers hash is the empty one, the gas used is within the limit, the extra data has at least
  97 bytes and no post-Shanghai field is present.
\<close>

theorem engine_validate_header_iff:
  "engine_validate_header E h = Inr () \<longleftrightarrow>
     hd_nonce (sh_header h) = Some 0 \<and> hd_ommers_hash (sh_header h) = en_empty_ommer_root E \<and>
     hd_gas_used (sh_header h) \<le> hd_gas_limit (sh_header h) \<and>
     97 \<le> length (hd_extra_data (sh_header h)) \<and> pre_shanghai (sh_header h)"
  by (auto simp: engine_validate_header_def Let_def bindR_eq_Inr pre_shanghai_def not_less)

section \<open>Witnesses\<close>

definition demo_env :: "(address, unit) env" where
  "demo_env = \<lparr>en_crypto = demo_crypto, en_empty_ommer_root = 2, en_transaction_root = (\<lambda>txs. 0),
     en_show_address = (\<lambda>a. [])\<rparr>"

definition demo_block :: "u64 \<Rightarrow> address \<Rightarrow> header" where
  "demo_block n a = demo_header\<lparr>hd_number := n, hd_extra_data := replicate 32 0 @ address_bytes a @ replicate 45 0\<rparr>"

definition demo_body :: "unit block_body" where
  "demo_body = \<lparr>bb_transactions = [], bb_ommers = None, bb_withdrawals = None\<rparr>"

text \<open>Span 0 with the validators 7, 8 and 9, and an engine that holds it.\<close>

definition span_789 :: span where
  "span_789 = (demo_span 0 0)\<lparr>sp_validator_set :=
     \<lparr>vs_validators = map demo_validator [7, 8, 9], vs_proposer = None\<rparr>\<rparr>"

definition engine_789 :: bor_consensus where
  "engine_789 = engine_insert_span bor_consensus_new span_789"

lemma demo_signer: "block_signer demo_env (demo_block n a) demo_body = Inr a"
  by (simp add: block_signer_def demo_env_def demo_block_def demo_body_def has_ommers_def extra_data_parse_def
      ecrecover_seal_def demo_crypto_def address_bytes_def be_value_be_bytes Let_def unat_bound [of a, simplified])

lemma span_789_signers [simp]: "authorized_signers span_789 = [7, 8, 9]"
  by (simp add: authorized_signers_def span_789_def demo_validator_def)

lemma span_789_id [simp]: "sp_id span_789 = 0"
  by (simp add: span_789_def demo_span_def)

lemma engine_789_facts [simp]:
  "sc_inv (bc_span_cache engine_789)" "rc_signers (bc_recents engine_789) = []"
  "span_cache_look (bc_span_cache engine_789) 0 = Some span_789"
  using ss.look_ins_same [OF sc_inv_new, of 64 span_789]
  by (auto simp: engine_789_def engine_insert_span_def bor_consensus_new_def recents_new_def)

lemma reachable_789: "reachable demo_env 3 engine_789 [] [span_789]"
  unfolding engine_789_def by (intro reachable.insert_span reachable.init)

lemma demo_block_number [simp]: "hd_number (demo_block n a) = n"
  by (simp add: demo_block_def)

lemma look_789:
  "reachable demo_env 3 e log [span_789] \<Longrightarrow> engine_pre_execution demo_env e h b = (e', r) \<Longrightarrow>
   span_cache_look (bc_span_cache e) 0 = Some span_789 \<Longrightarrow> span_cache_look (bc_span_cache e') 0 = Some span_789"
  using reachable_inv [of demo_env 3 e log "[span_789]"] ss.look_get [of "bc_span_cache e"]
  by (auto simp: engine_inv_def engine_pre_execution_eq Let_def record_signer_def split: sum.splits option.splits)

text \<open>One accepted block of span 0.\<close>

lemma accept_789:
  assumes "reachable demo_env 3 e log [span_789]" and "span_cache_look (bc_span_cache e) 0 = Some span_789"
    and "n div 6400 = 0" and "a \<in> {7, 8, 9}" and "\<forall>(k, _)\<in>set log. k < n"
    and "\<not> signed_in_window (bt_get (rc_signers (bc_recents e))) 3 n a"
  shows "\<exists>e'. reachable demo_env 3 e' (log @ [(n, a)]) [span_789] \<and>
     span_cache_look (bc_span_cache e') 0 = Some span_789 \<and>
     bc_recents e' = recents_prune (recents_add_signer (bc_recents e) n a) n 3"
proof -
  let ?h = "demo_block n a"
  have inv: "sc_inv (bc_span_cache e)" "bt_inv (rc_signers (bc_recents e))"
    using engine_inv_wf [OF reachable_inv [OF assms(1)]] by simp_all
  have "snd (engine_pre_execution demo_env e ?h demo_body) = Inr ()"
    using engine_pre_execution_accepts [OF inv(2,1), of ?h demo_env demo_body] assms(2,3,4,6)
    by (auto simp: demo_signer numeral_3_eq_3)
  then obtain e' where ok: "engine_pre_execution demo_env e ?h demo_body = (e', Inr ())" by (metis prod.collapse)
  obtain e1 where span: "get_span_for_block e (hd_number ?h) 6400 = Inr (e1, Some span_789)"
    using assms(2,3) ss.get_look [OF inv(1)] by (auto simp: get_span_eq)
  have "reachable demo_env 3 e' (log @ [(hd_number ?h, a)]) [span_789]"
    by (rule reachable.accept [OF assms(1) demo_signer span _ _ ok]) (use assms(5) in auto)
  then show ?thesis
    using look_789 [OF assms(1) ok assms(2)] accept_records [OF span demo_signer ok inv(2)]
    by (auto simp: numeral_3_eq_3)
qed

lemma reachable_two_789:
  obtains e where "reachable demo_env 3 e [(10, 8), (13, 8)] [span_789]"
proof -
  obtain e where r: "reachable demo_env 3 e [(10, 8)] [span_789]"
      "span_cache_look (bc_span_cache e) 0 = Some span_789"
      "bc_recents e = recents_prune (recents_add_signer (bc_recents engine_789) 10 8) 10 3"
    using accept_789 [OF reachable_789, of 10 8] by (auto simp: signed_in_window_def bt_get_def)
  have "rc_signers (bc_recents e) = [(10, 8)]"
    by (simp add: r(3) recents_prune_def recents_add_signer_def bt_split_off_def window_start_def sign_window_def
        saturating_sub_def)
  then have "\<not> signed_in_window (bt_get (rc_signers (bc_recents e))) 3 13 8"
    by (auto simp: signed_in_window_def bt_get_def sign_window_def split: if_splits)
  then show thesis using accept_789 [OF r(1,2), of 13 8] that by auto
qed

theorem engine_no_double_sign_witness:
  "\<exists>e. reachable demo_env 3 e [(10, 8), (13, 8)] [span_789] \<and> unat (10 :: u64) + (3 div 2 + 1) < unat (13 :: u64)"
proof -
  obtain e where "reachable demo_env 3 e [(10, 8), (13, 8)] [span_789]" by (rule reachable_two_789)
  with engine_no_double_sign [OF this, of 10 8 13] show ?thesis by auto
qed

theorem engine_accepts_iff_witness:
  "snd (engine_pre_execution demo_env engine_789 (demo_block 10 8) demo_body) = Inr () \<and>
   snd (engine_pre_execution demo_env engine_789 (demo_block 10 6) demo_body) \<noteq> Inr () \<and>
   snd (engine_pre_execution demo_env engine_789 (demo_block 6410 6) demo_body) = Inr ()"
proof -
  have f: "find (\<lambda>t. sp_id t = 0) [span_789] = Some span_789" by simp
  have "span_cache_look (bc_span_cache engine_789) 1 = None"
    by (simp add: engine_789_def engine_insert_span_def bor_consensus_new_def span_cache_look_def cache_eval
        span_789_def)
  then show ?thesis
    using engine_accepts_iff [OF reachable_789, of "demo_block 10 8" demo_body]
      engine_accepts_iff [OF reachable_789, of "demo_block 10 6" demo_body]
      engine_accepts_iff [OF reachable_789, of "demo_block 6410 6" demo_body]
    by (simp add: demo_signer numeral_3_eq_3 bt_get_def)
qed


end
