(* ===== verification/Heimdall_Client.thy ===== *)
theory Heimdall_Client
  imports Bor_Primitives
begin

text \<open>
  \<open>heimdall-client/src/lib.rs\<close>, \<open>http.rs\<close> and \<open>mock.rs\<close>: errors and data of the Heimdall API, the
  HTTP client with its retry loop, and the mock. The network (\<open>reqwest\<close>) and the JSON decoder
  are arguments: the answer to each attempt, and the parse of a body. A call returns its result
  together with the delays it slept, in milliseconds.
\<close>

section \<open>lib.rs\<close>

datatype heimdall_error =
    NetworkError string
  | Timeout
  | InvalidResponse string
  | NotFound
  | RateLimited

primrec show_heimdall_error :: "heimdall_error \<Rightarrow> string" where
  "show_heimdall_error (NetworkError e) = ''network error: '' @ e"
| "show_heimdall_error Timeout = ''request timeout''"
| "show_heimdall_error (InvalidResponse e) = ''invalid response: '' @ e"
| "show_heimdall_error NotFound = ''not found''"
| "show_heimdall_error RateLimited = ''rate limited''"

record state_sync_event =
  sse_id :: u64
  sse_contract :: address
  sse_data :: bytes
  sse_tx_hash :: b256
  sse_log_index :: u64
  sse_bor_chain_id :: string
  sse_time :: u64

record checkpoint =
  cp_start_block :: u64
  cp_end_block :: u64
  cp_root_hash :: b256
  cp_proposer :: address

record milestone =
  ms_start_block :: u64
  ms_end_block :: u64
  ms_hash :: b256
  ms_proposer :: address

section \<open>http.rs\<close>

definition MAX_RETRIES :: nat where
  [simp]: "MAX_RETRIES = 3"

definition BASE_RETRY_DELAY :: nat where
  [simp]: "BASE_RETRY_DELAY = 500"

record 'a heimdall_response =
  hr_result :: 'a

text \<open>What one request gives: a response with its status, or an error of the transport.\<close>

datatype 'body http_answer =
    Response nat 'body
  | SendError bool string

text \<open>The network: the answer to the \<open>k\<close>-th attempt on a URL, and the \<open>Display\<close> of a status.\<close>

record 'body http_net =
  net_send :: "string \<Rightarrow> nat \<Rightarrow> 'body http_answer"
  net_show_status :: "nat \<Rightarrow> string"

record http_client =
  hc_base_url :: string

definition http_client_new :: "string \<Rightarrow> http_client" where
  "http_client_new base_url = \<lparr>hc_base_url = rev (dropWhile (\<lambda>c. c = CHR ''/'') (rev base_url))\<rparr>"

definition is_success :: "nat \<Rightarrow> bool" where
  "is_success status \<longleftrightarrow> 200 \<le> status \<and> status < 300"

text \<open>
  The loop \<open>for attempt in 0..MAX_RETRIES\<close>; the first argument counts the attempts that are
  left. A \<open>return\<close> ends it, \<open>continue\<close> keeps the error for the case that no attempt is left.
\<close>

primrec retry_loop ::
    "nat \<Rightarrow> 'body http_net \<Rightarrow> ('body \<Rightarrow> string + 'a) \<Rightarrow> string \<Rightarrow> nat \<Rightarrow> heimdall_error \<Rightarrow>
     (heimdall_error + 'a) \<times> nat list" where
  "retry_loop 0 N parse url attempt last_err = (Inl last_err, [])"
| "retry_loop (Suc n) N parse url attempt last_err =
     (let delays = (if 0 < attempt then [BASE_RETRY_DELAY * 2 ^ (attempt - 1)] else []);
          again = (\<lambda>err. let (r, ds) = retry_loop n N parse url (attempt + 1) err in (r, delays @ ds))
      in case net_send N url attempt of
           Response status body \<Rightarrow>
             if is_success status then
               (map_err (\<lambda>e. InvalidResponse (''failed to parse response: '' @ e)) (parse body), delays)
             else if status = 404 then (Inl NotFound, delays)
             else if status = 429 then again RateLimited
             else again (InvalidResponse (''unexpected status code: '' @ net_show_status N status))
         | SendError is_timeout e \<Rightarrow>
             if is_timeout then again Timeout else again (NetworkError e))"

definition get_with_retry ::
    "'body http_net \<Rightarrow> ('body \<Rightarrow> string + 'a) \<Rightarrow> http_client \<Rightarrow> string \<Rightarrow> (heimdall_error + 'a) \<times> nat list" where
  "get_with_retry N parse client path =
     retry_loop MAX_RETRIES N parse (hc_base_url client @ path) 0 (NetworkError ''no attempts made'')"

definition unwrap_result ::
    "(heimdall_error + 'a heimdall_response) \<times> nat list \<Rightarrow> (heimdall_error + 'a) \<times> nat list" where
  "unwrap_result r = (bindR (fst r) (\<lambda>resp. Inr (hr_result resp)), snd r)"

definition http_fetch_span ::
    "'body http_net \<Rightarrow> ('body \<Rightarrow> string + span heimdall_response) \<Rightarrow> http_client \<Rightarrow> u64 \<Rightarrow>
     (heimdall_error + span) \<times> nat list" where
  "http_fetch_span N parse client span_id =
     unwrap_result (get_with_retry N parse client (''/bor/span/'' @ show_u64 span_id))"

definition http_fetch_latest_span ::
    "'body http_net \<Rightarrow> ('body \<Rightarrow> string + span heimdall_response) \<Rightarrow> http_client \<Rightarrow>
     (heimdall_error + span) \<times> nat list" where
  "http_fetch_latest_span N parse client = unwrap_result (get_with_retry N parse client ''/bor/latest-span'')"

definition http_fetch_state_sync_events ::
    "'body http_net \<Rightarrow> ('body \<Rightarrow> string + state_sync_event list heimdall_response) \<Rightarrow> http_client \<Rightarrow>
     u64 \<Rightarrow> u64 \<Rightarrow> nat \<Rightarrow> (heimdall_error + state_sync_event list) \<times> nat list" where
  "http_fetch_state_sync_events N parse client from_id to_time limit =
     unwrap_result (get_with_retry N parse client
       (''/clerk/event-record/list?from-id='' @ show_u64 from_id @ ''&to-time='' @ show_u64 to_time @
        ''&limit='' @ show_nat limit))"

definition http_fetch_checkpoint ::
    "'body http_net \<Rightarrow> ('body \<Rightarrow> string + checkpoint heimdall_response) \<Rightarrow> http_client \<Rightarrow> u64 \<Rightarrow>
     (heimdall_error + checkpoint) \<times> nat list" where
  "http_fetch_checkpoint N parse client number =
     unwrap_result (get_with_retry N parse client (''/checkpoints/'' @ show_u64 number))"

definition http_fetch_milestone_latest ::
    "'body http_net \<Rightarrow> ('body \<Rightarrow> string + milestone heimdall_response) \<Rightarrow> http_client \<Rightarrow>
     (heimdall_error + milestone) \<times> nat list" where
  "http_fetch_milestone_latest N parse client = unwrap_result (get_with_retry N parse client ''/milestones/latest'')"

section \<open>mock.rs\<close>

record mock_client =
  mc_spans :: "(u64, span) hmap"
  mc_latest_span :: "span option"
  mc_events :: "state_sync_event list"
  mc_checkpoints :: "(u64, checkpoint) hmap"
  mc_latest_milestone :: "milestone option"

definition mock_client_new :: mock_client where
  "mock_client_new = \<lparr>mc_spans = [], mc_latest_span = None, mc_events = [], mc_checkpoints = [],
     mc_latest_milestone = None\<rparr>"

definition with_span :: "mock_client \<Rightarrow> u64 \<Rightarrow> span \<Rightarrow> mock_client" where
  "with_span c i span = c\<lparr>mc_spans := hm_insert i span (mc_spans c)\<rparr>"

definition with_latest_span :: "mock_client \<Rightarrow> span \<Rightarrow> mock_client" where
  "with_latest_span c span = c\<lparr>mc_latest_span := Some span\<rparr>"

definition with_events :: "mock_client \<Rightarrow> state_sync_event list \<Rightarrow> mock_client" where
  "with_events c events = c\<lparr>mc_events := events\<rparr>"

definition with_checkpoint :: "mock_client \<Rightarrow> u64 \<Rightarrow> checkpoint \<Rightarrow> mock_client" where
  "with_checkpoint c number cp = c\<lparr>mc_checkpoints := hm_insert number cp (mc_checkpoints c)\<rparr>"

definition with_latest_milestone :: "mock_client \<Rightarrow> milestone \<Rightarrow> mock_client" where
  "with_latest_milestone c m = c\<lparr>mc_latest_milestone := Some m\<rparr>"

definition ok_or :: "'e \<Rightarrow> 'a option \<Rightarrow> 'e + 'a" where
  "ok_or e x = (case x of None \<Rightarrow> Inl e | Some v \<Rightarrow> Inr v)"

definition mock_fetch_span :: "mock_client \<Rightarrow> u64 \<Rightarrow> heimdall_error + span" where
  "mock_fetch_span c span_id = ok_or NotFound (hm_get (mc_spans c) span_id)"

definition mock_fetch_latest_span :: "mock_client \<Rightarrow> heimdall_error + span" where
  "mock_fetch_latest_span c = ok_or NotFound (mc_latest_span c)"

definition mock_fetch_state_sync_events ::
    "mock_client \<Rightarrow> u64 \<Rightarrow> u64 \<Rightarrow> nat \<Rightarrow> heimdall_error + state_sync_event list" where
  "mock_fetch_state_sync_events c from_id to_time limit =
     Inr (take limit (filter (\<lambda>e. from_id \<le> sse_id e) (mc_events c)))"

definition mock_fetch_checkpoint :: "mock_client \<Rightarrow> u64 \<Rightarrow> heimdall_error + checkpoint" where
  "mock_fetch_checkpoint c number = ok_or NotFound (hm_get (mc_checkpoints c) number)"

definition mock_fetch_milestone_latest :: "mock_client \<Rightarrow> heimdall_error + milestone" where
  "mock_fetch_milestone_latest c = ok_or NotFound (mc_latest_milestone c)"

section \<open>The trait HeimdallClient\<close>

record 's heimdall_client =
  cl_fetch_span :: "'s \<Rightarrow> u64 \<Rightarrow> heimdall_error + span"
  cl_fetch_latest_span :: "'s \<Rightarrow> heimdall_error + span"
  cl_fetch_state_sync_events :: "'s \<Rightarrow> u64 \<Rightarrow> u64 \<Rightarrow> nat \<Rightarrow> heimdall_error + state_sync_event list"
  cl_fetch_checkpoint :: "'s \<Rightarrow> u64 \<Rightarrow> heimdall_error + checkpoint"
  cl_fetch_milestone_latest :: "'s \<Rightarrow> heimdall_error + milestone"

definition mock_heimdall_client :: "mock_client heimdall_client" where
  "mock_heimdall_client =
     \<lparr>cl_fetch_span = mock_fetch_span, cl_fetch_latest_span = mock_fetch_latest_span,
      cl_fetch_state_sync_events = mock_fetch_state_sync_events, cl_fetch_checkpoint = mock_fetch_checkpoint,
      cl_fetch_milestone_latest = mock_fetch_milestone_latest\<rparr>"

text \<open>The JSON decoders of the four kinds of body, and the HTTP client as a \<open>HeimdallClient\<close>.\<close>

record 'body json =
  js_span :: "'body \<Rightarrow> string + span heimdall_response"
  js_events :: "'body \<Rightarrow> string + state_sync_event list heimdall_response"
  js_checkpoint :: "'body \<Rightarrow> string + checkpoint heimdall_response"
  js_milestone :: "'body \<Rightarrow> string + milestone heimdall_response"

definition http_heimdall_client :: "'body http_net \<Rightarrow> 'body json \<Rightarrow> http_client heimdall_client" where
  "http_heimdall_client N J =
     \<lparr>cl_fetch_span = (\<lambda>c span_id. fst (http_fetch_span N (js_span J) c span_id)),
      cl_fetch_latest_span = (\<lambda>c. fst (http_fetch_latest_span N (js_span J) c)),
      cl_fetch_state_sync_events = (\<lambda>c from_id to_time limit.
        fst (http_fetch_state_sync_events N (js_events J) c from_id to_time limit)),
      cl_fetch_checkpoint = (\<lambda>c number. fst (http_fetch_checkpoint N (js_checkpoint J) c number)),
      cl_fetch_milestone_latest = (\<lambda>c. fst (http_fetch_milestone_latest N (js_milestone J) c))\<rparr>"

section \<open>Lemmas\<close>

text \<open>The meaning of one answer: final, or the error to keep for the next attempt.\<close>

definition verdict ::
    "'body http_net \<Rightarrow> ('body \<Rightarrow> string + 'a) \<Rightarrow> 'body http_answer \<Rightarrow> heimdall_error + (heimdall_error + 'a)" where
  "verdict N parse answer =
     (case answer of
        Response status body \<Rightarrow>
          if is_success status then Inr (map_err (\<lambda>e. InvalidResponse (''failed to parse response: '' @ e)) (parse body))
          else if status = 404 then Inr (Inl NotFound)
          else if status = 429 then Inl RateLimited
          else Inl (InvalidResponse (''unexpected status code: '' @ net_show_status N status))
      | SendError is_timeout e \<Rightarrow> Inl (if is_timeout then Timeout else NetworkError e))"

lemma retry_loop_verdict:
  "retry_loop (Suc n) N parse url k err =
     (let delays = (if 0 < k then [500 * 2 ^ (k - 1)] else [])
      in case verdict N parse (net_send N url k) of
           Inr r \<Rightarrow> (r, delays)
         | Inl e \<Rightarrow> (let (r, ds) = retry_loop n N parse url (Suc k) e in (r, delays @ ds)))"
  by (simp add: verdict_def Let_def split: http_answer.splits)

text \<open>At most two sleeps, of half a second and a second.\<close>

lemma get_with_retry_delays: "snd (get_with_retry N parse client path) \<in> {[], [500], [500, 1000]}"
  by (simp add: get_with_retry_def numeral_3_eq_3 retry_loop_verdict Let_def del: retry_loop.simps(2)
      split: sum.splits)

text \<open>A success is the first deciding answer of the three, and decodes.\<close>

definition transient :: "'body http_answer \<Rightarrow> bool" where
  "transient answer =
     (case answer of Response status _ \<Rightarrow> \<not> is_success status \<and> status \<noteq> 404 | SendError _ _ \<Rightarrow> True)"

lemma verdict_transient: "isl (verdict N parse answer) \<longleftrightarrow> transient answer"
  by (simp add: verdict_def transient_def split: http_answer.splits)

lemma verdict_success:
  "verdict N parse answer = Inr (Inr x) \<longleftrightarrow>
   (\<exists>status body. answer = Response status body \<and> is_success status \<and> parse body = Inr x)"
  by (auto simp: verdict_def map_err_def split: http_answer.splits sum.splits)

lemma get_with_retry_success:
  "fst (get_with_retry N parse client path) = Inr x \<longleftrightarrow>
   (\<exists>k<3. (\<forall>m<k. transient (net_send N (hc_base_url client @ path) m)) \<and>
      (\<exists>status body. net_send N (hc_base_url client @ path) k = Response status body \<and> is_success status \<and>
         parse body = Inr x))"
proof -
  let ?v = "\<lambda>k. verdict N parse (net_send N (hc_base_url client @ path) k)"
  have "fst (get_with_retry N parse client path) = Inr x \<longleftrightarrow>
      ?v 0 = Inr (Inr x) \<or> isl (?v 0) \<and> (?v 1 = Inr (Inr x) \<or> isl (?v 1) \<and> ?v 2 = Inr (Inr x))"
    by (simp add: get_with_retry_def numeral_3_eq_3 retry_loop_verdict numeral_2_eq_2 Let_def
        del: retry_loop.simps(2) split: sum.splits)
  also have "\<dots> \<longleftrightarrow> (\<exists>k<3. (\<forall>m<k. isl (?v m)) \<and> ?v k = Inr (Inr x))"
    by (auto simp: numeral_3_eq_3 numeral_2_eq_2 less_Suc_eq)
  finally show ?thesis by (simp only: verdict_transient verdict_success)
qed

section \<open>Properties\<close>

text \<open>
  The retry loop makes at most three attempts and always ends: the first answer that is a
  success or a 404 decides and nothing is sent after it; a rate limit, any other status and a
  transport error are retried after 500 and then 1000 milliseconds, and if all three attempts
  fail the error of the third is returned.
\<close>

theorem get_with_retry_outcomes:
  "get_with_retry N parse client path =
     (let answer = \<lambda>k. verdict N parse (net_send N (hc_base_url client @ path) k)
      in case answer 0 of
           Inr r \<Rightarrow> (r, [])
         | Inl _ \<Rightarrow>
             (case answer 1 of
                Inr r \<Rightarrow> (r, [500])
              | Inl _ \<Rightarrow>
                  (case answer 2 of
                     Inr r \<Rightarrow> (r, [500, 1000])
                   | Inl e \<Rightarrow> (Inl e, [500, 1000]))))"
  by (simp add: get_with_retry_def numeral_3_eq_3 retry_loop_verdict numeral_2_eq_2 Let_def
      del: retry_loop.simps(2) split: sum.splits)

text \<open>
  The mock answers what was registered: a span registered last under an id is fetched under
  it, other ids are unaffected, and an unregistered id is \<open>NotFound\<close>; events are the first
  \<open>limit\<close> of the registered ones from \<open>from_id\<close> on, whatever \<open>to_time\<close> says.
\<close>

theorem mock_client_answers:
  "mock_fetch_span (with_span c i s) j = (if j = i then Inr s else mock_fetch_span c j) \<and>
   mock_fetch_span mock_client_new j = Inl NotFound \<and>
   mock_fetch_checkpoint (with_checkpoint c i cp) j = (if j = i then Inr cp else mock_fetch_checkpoint c j) \<and>
   mock_fetch_state_sync_events (with_events c es) from_id t limit =
     Inr (take limit (filter (\<lambda>e. from_id \<le> sse_id e) es)) \<and>
   mock_fetch_state_sync_events c from_id t limit = mock_fetch_state_sync_events c from_id t' limit"
  by (simp add: mock_fetch_span_def with_span_def mock_client_new_def ok_or_def mock_fetch_checkpoint_def
      with_checkpoint_def mock_fetch_state_sync_events_def with_events_def map_laws)

end
