(* ===== verification/Consensus_Prefetch.thy ===== *)
theory Consensus_Prefetch
  imports Consensus_Engine Heimdall_Client
begin

text \<open>
  \<open>bor-consensus/src/span_prefetch.rs\<close>: the background task that fills the engine's span cache.
  \<open>fetch\<close> is the \<open>fetch_span\<close> of the Heimdall client. The endless loop of \<open>run\<close> is modelled by
  the states after any finite number of polls; the client may answer differently at every poll.
  The locale \<open>span_client\<close> is what the prefetcher relies on, interpreted on the mock client.
\<close>

section \<open>Model\<close>

definition DEFAULT_SPAN_SIZE :: u64 where
  [simp]: "DEFAULT_SPAN_SIZE = 6400"

definition PREFETCH_AHEAD :: nat where
  [simp]: "PREFETCH_AHEAD = 2"

record prefetcher =
  pf_consensus :: bor_consensus
  pf_last_fetched_span :: "u64 option"
  pf_span_size :: u64

definition prefetcher_new :: "bor_consensus \<Rightarrow> prefetcher" where
  "prefetcher_new consensus =
     \<lparr>pf_consensus = consensus, pf_last_fetched_span = None, pf_span_size = DEFAULT_SPAN_SIZE\<rparr>"

definition with_span_size :: "prefetcher \<Rightarrow> u64 \<Rightarrow> prefetcher" where
  "with_span_size p sz = p\<lparr>pf_span_size := sz\<rparr>"

definition fetch_and_cache_span ::
    "(u64 \<Rightarrow> heimdall_error + span) \<Rightarrow> prefetcher \<Rightarrow> u64 \<Rightarrow> prefetcher \<times> bool" where
  "fetch_and_cache_span fetch p span_id =
     (case fetch span_id of
        Inr span \<Rightarrow> (p\<lparr>pf_consensus := engine_insert_span (pf_consensus p) span\<rparr>, True)
      | Inl NotFound \<Rightarrow> (p, False)
      | Inl e \<Rightarrow> (p, False))"

text \<open>The loop over the offsets \<open>0..=PREFETCH_AHEAD\<close>.\<close>

primrec prefetch_loop ::
    "bool \<Rightarrow> (u64 \<Rightarrow> heimdall_error + span) \<Rightarrow> u64 \<Rightarrow> nat list \<Rightarrow> prefetcher \<Rightarrow> panic + prefetcher" where
  "prefetch_loop oc fetch current [] p = Inr p"
| "prefetch_loop oc fetch current (offset # offsets) p =
     bindR (u64_add oc current (word_of_nat offset)) (\<lambda>span_id.
     if (case pf_last_fetched_span p of None \<Rightarrow> False | Some latest \<Rightarrow> span_id \<le> latest)
     then prefetch_loop oc fetch current offsets p
     else
       (let (p', fetched) = fetch_and_cache_span fetch p span_id
        in if fetched
           then prefetch_loop oc fetch current offsets (p'\<lparr>pf_last_fetched_span := Some span_id\<rparr>)
           else Inr p'))"

definition ensure_spans_for_block ::
    "bool \<Rightarrow> (u64 \<Rightarrow> heimdall_error + span) \<Rightarrow> prefetcher \<Rightarrow> u64 \<Rightarrow> panic + prefetcher" where
  "ensure_spans_for_block oc fetch p block_number =
     bindR (span_id_at block_number (pf_span_size p)) (\<lambda>current_span_id.
     prefetch_loop oc fetch current_span_id [0..<Suc PREFETCH_AHEAD] p)"

definition prefetch_for_block ::
    "bool \<Rightarrow> (u64 \<Rightarrow> heimdall_error + span) \<Rightarrow> prefetcher \<Rightarrow> u64 \<Rightarrow> panic + prefetcher" where
  "prefetch_for_block oc fetch p block_number = ensure_spans_for_block oc fetch p block_number"

text \<open>
  \<open>run\<close> up to a number of polls: what the client would answer during the poll, and what
  \<open>get_block_number\<close> returned.
\<close>

type_synonym span_fetch = "u64 \<Rightarrow> heimdall_error + span"

fun prefetch_polls :: "bool \<Rightarrow> prefetcher \<Rightarrow> (span_fetch \<times> u64 option) list \<Rightarrow> panic + prefetcher" where
  "prefetch_polls oc p [] = Inr p"
| "prefetch_polls oc p ((fetch, poll) # polls) =
     bindR (case poll of None \<Rightarrow> Inr p | Some n \<Rightarrow> ensure_spans_for_block oc fetch p n)
       (\<lambda>p'. prefetch_polls oc p' polls)"

definition prefetch_run ::
    "bool \<Rightarrow> span_fetch \<Rightarrow> prefetcher \<Rightarrow> (span_fetch \<times> u64 option) list \<Rightarrow> panic + prefetcher" where
  "prefetch_run oc fetch p polls = prefetch_polls oc (fst (fetch_and_cache_span fetch p 0)) polls"

section \<open>The client\<close>

text \<open>A client answers with the span that was asked for, if it answers with a span at all.\<close>

definition honest :: "span_fetch \<Rightarrow> bool" where
  "honest fetch \<longleftrightarrow> (\<forall>i s. fetch i = Inr s \<longrightarrow> sp_id s = i)"

definition serves :: "span_fetch \<Rightarrow> u64 \<Rightarrow> bool" where
  "serves fetch i \<longleftrightarrow> \<not> isl (fetch i)"

definition mock_of :: "span list \<Rightarrow> mock_client" where
  "mock_of spans = foldl (\<lambda>c s. with_span c (sp_id s) s) mock_client_new spans"

section \<open>Lemmas: the cache\<close>

abbreviation pf_cache :: "prefetcher \<Rightarrow> span_cache" where
  "pf_cache p \<equiv> bc_span_cache (pf_consensus p)"

text \<open>
  The spans \<open>lo..hi\<close> are the most recently cached ones, \<open>hi\<close> is the last fetched and nothing
  above it is cached.
\<close>

definition covers :: "prefetcher \<Rightarrow> nat \<Rightarrow> nat \<Rightarrow> bool" where
  "covers p lo hi \<longleftrightarrow>
     lo \<le> hi \<and> hi < 2 ^ 64 \<and> pf_last_fetched_span p = Some (word_of_nat hi) \<and> pf_span_size p = 6400 \<and>
     sc_inv (pf_cache p) \<and> sc_max_size (pf_cache p) = 64 \<and>
     (\<exists>pre. sc_access_order (pf_cache p) = pre @ map word_of_nat [lo..<Suc hi]) \<and>
     (\<forall>i\<in>set (sc_access_order (pf_cache p)). unat i \<le> hi)"

text \<open>The states in which a pass at span \<open>lo\<close> or later may start.\<close>

definition ready :: "prefetcher \<Rightarrow> nat \<Rightarrow> bool" where
  "ready p lo \<longleftrightarrow>
     (\<exists>h\<le>lo + 2. covers p lo h) \<or>
     pf_last_fetched_span p = None \<and> pf_span_size p = 6400 \<and>
     sc_inv (pf_cache p) \<and> sc_max_size (pf_cache p) = 64 \<and>
     (\<forall>i\<in>set (sc_access_order (pf_cache p)). unat i \<le> lo)"

lemma unat_small: "n < 2 ^ 64 \<Longrightarrow> unat (word_of_nat n :: u64) = n"
  by (simp add: unat_of_nat)

lemma covers_weaken: "covers p lo hi \<Longrightarrow> lo \<le> lo' \<Longrightarrow> lo' \<le> hi \<Longrightarrow> covers p lo' hi"
proof -
  assume c: "covers p lo hi" and le: "lo \<le> lo'" "lo' \<le> hi"
  have "[lo..<Suc hi] = [lo..<lo'] @ [lo'..<Suc hi]"
    using le by (metis le_SucI upt_add_eq_append le_Suc_ex add.commute)
  with c le show ?thesis by (auto simp: covers_def)
qed

lemma covers_cached:
  assumes "covers p lo hi" and "lo \<le> i" and "i \<le> hi"
  shows "span_cache_contains (pf_cache p) (word_of_nat i)"
proof -
  have "word_of_nat i \<in> set (map word_of_nat [lo..<Suc hi] :: u64 list)"
    using assms(2,3) by (simp del: upt_Suc)
  then have "word_of_nat i \<in> set (sc_access_order (pf_cache p))"
    using assms(1) unfolding covers_def by fastforce
  with assms(1) show ?thesis by (simp add: covers_def span_cache_contains_def sc_inv_keys)
qed

text \<open>An insert of a new id keeps a tail of the access order that is shorter than the capacity.\<close>

lemma insert_keeps_tail:
  assumes "sc_inv c" and "sc_access_order c = pre @ tail" and "length tail < sc_max_size c"
    and "sp_id s \<notin> set (sc_access_order c)"
  shows "\<exists>pre'. sc_access_order (span_cache_insert c s) = pre' @ tail @ [sp_id s] \<and> set pre' \<subseteq> set pre"
proof (cases "sc_max_size c \<le> length (sc_access_order c)")
  case True
  with assms(2,3) obtain x pre1 where "pre = x # pre1" by (cases pre) auto
  with assms True show ?thesis
    by (intro exI [of _ pre1]) (auto simp: insert_cases sc_inv_keys evicted_order)
next
  case False
  with assms show ?thesis
    by (intro exI [of _ pre]) (auto simp: insert_cases sc_inv_keys evicted_order)
qed

lemma insert_ends_with:
  "sc_inv c \<Longrightarrow> \<exists>pre. sc_access_order (span_cache_insert c s) = pre @ [sp_id s] \<and> set pre \<subseteq> set (sc_access_order c)"
proof (cases "sp_id s \<in> set (sc_access_order c)")
  case True
  moreover assume "sc_inv c"
  moreover from this have "distinct (sc_access_order (c\<lparr>sc_spans := m\<rparr>))" for m by (simp add: sc_inv_def)
  ultimately show ?thesis by (auto simp: insert_cases sc_inv_keys touch_simps)
next
  case False
  moreover assume "sc_inv c"
  ultimately show ?thesis
    by (auto simp: insert_cases sc_inv_keys evicted_order dest: in_set_tl)
qed

lemma max_size_insert: "sc_inv c \<Longrightarrow> sc_max_size (span_cache_insert c s) = sc_max_size c"
  using max_size_step [of c "Insert s"] by simp

text \<open>The state after a fetched span.\<close>

definition fetched_state :: "prefetcher \<Rightarrow> span \<Rightarrow> u64 \<Rightarrow> prefetcher" where
  "fetched_state p s i =
     p\<lparr>pf_consensus := engine_insert_span (pf_consensus p) s, pf_last_fetched_span := Some i\<rparr>"

lemma covers_next:
  assumes "covers p lo hi" and "sp_id s = word_of_nat (Suc hi)" and "Suc hi < 2 ^ 64" and "hi < lo + 63"
  shows "covers (fetched_state p s (word_of_nat (Suc hi))) lo (Suc hi)"
proof -
  let ?c = "pf_cache p" and ?tail = "map word_of_nat [lo..<Suc hi] :: u64 list"
  have sz: "pf_span_size p = 6400" using assms(1) by (simp add: covers_def)
  from assms(1) obtain pre where ord: "sc_access_order ?c = pre @ ?tail" and inv: "sc_inv ?c"
      and mx: "sc_max_size ?c = 64" and le: "lo \<le> hi" and top: "\<forall>i\<in>set (sc_access_order ?c). unat i \<le> hi"
    by (auto simp: covers_def)
  have new: "sp_id s \<notin> set (sc_access_order ?c)"
    using top unat_small [OF assms(3)] assms(2) by fastforce
  have "length ?tail < sc_max_size ?c" using assms(4) le by (simp add: mx)
  then obtain pre' where ord': "sc_access_order (span_cache_insert ?c s) = pre' @ ?tail @ [sp_id s]"
      and sub: "set pre' \<subseteq> set pre"
    using insert_keeps_tail [OF inv ord _ new] by blast
  have "?tail @ [sp_id s] = map word_of_nat [lo..<Suc (Suc hi)]" using le by (simp add: assms(2))
  then have "sc_access_order (span_cache_insert ?c s) = pre' @ map word_of_nat [lo..<Suc (Suc hi)]"
    using ord' by simp
  moreover have "unat i \<le> Suc hi" if "i \<in> set (sc_access_order (span_cache_insert ?c s))" for i
    using that ord' sub top unat_small [OF assms(3)] assms(2) by (auto simp: ord intro: le_SucI)
  ultimately show ?thesis
    using inv mx le assms(3) sz
    by (auto simp: covers_def fetched_state_def engine_insert_span_def max_size_insert)
qed

lemma covers_jump:
  assumes "sc_inv (pf_cache p)" and "sc_max_size (pf_cache p) = 64"
    and "\<forall>i\<in>set (sc_access_order (pf_cache p)). unat i \<le> x" and "sp_id s = word_of_nat x" and "x < 2 ^ 64"
    and "pf_span_size p = 6400"
  shows "covers (fetched_state p s (word_of_nat x)) x x"
proof -
  obtain pre where ord: "sc_access_order (span_cache_insert (pf_cache p) s) = pre @ [sp_id s]"
      "set pre \<subseteq> set (sc_access_order (pf_cache p))"
    using insert_ends_with [OF assms(1)] by blast
  then show ?thesis
    using assms unat_small [OF assms(5)]
    by (auto simp: covers_def fetched_state_def engine_insert_span_def max_size_insert)
qed

section \<open>Lemmas: the loop\<close>

lemma offset_add:
  assumes "unat cur + k < 2 ^ 64"
  shows "u64_add oc cur (word_of_nat k) = Inr (word_of_nat (unat cur + k))"
proof -
  have "unat (word_of_nat k :: u64) = k" using assms by (intro unat_small) simp
  with assms show ?thesis by (simp add: u64_add_def)
qed

lemma loop_skip:
  assumes "covers p lo hi" and "unat cur + k \<le> hi"
  shows "prefetch_loop oc fetch cur (k # ks) p = prefetch_loop oc fetch cur ks p"
proof -
  have hi: "hi < 2 ^ 64" "pf_last_fetched_span p = Some (word_of_nat hi)" using assms(1) by (auto simp: covers_def)
  have "unat (word_of_nat (unat cur + k) :: u64) = unat cur + k"
    using assms(2) hi(1) by (intro unat_small) simp
  then have "(word_of_nat (unat cur + k) :: u64) \<le> word_of_nat hi"
    using assms(2) unfolding word_le_nat_alt unat_small [OF hi(1)] by (simp only:)
  then show ?thesis using offset_add [of cur k oc] assms(2) hi by simp
qed

text \<open>An offset that is not skipped.\<close>

definition not_fetched :: "prefetcher \<Rightarrow> nat \<Rightarrow> bool" where
  "not_fetched p x \<longleftrightarrow> (case pf_last_fetched_span p of None \<Rightarrow> True | Some l \<Rightarrow> unat l < x)"

lemma loop_asks:
  assumes "not_fetched p (unat cur + k)" and "unat cur + k < 2 ^ 64"
  shows "prefetch_loop oc fetch cur (k # ks) p =
     (case fetch (word_of_nat (unat cur + k)) of
        Inr s \<Rightarrow> prefetch_loop oc fetch cur ks (fetched_state p s (word_of_nat (unat cur + k)))
      | Inl e \<Rightarrow> Inr p)"
proof -
  have "\<not> (word_of_nat (unat cur + k) :: u64) \<le> l" if "pf_last_fetched_span p = Some l" for l
    using assms(1) that unfolding word_le_nat_alt not_fetched_def unat_small [OF assms(2)] by simp
  then show ?thesis
    using offset_add [OF assms(2), of oc]
    by (auto simp: fetch_and_cache_span_def fetched_state_def split: sum.splits heimdall_error.splits option.splits)
qed

locale span_client =
  fixes fetch :: span_fetch
  assumes honest: "honest fetch"
begin

lemma own_id: "fetch i = Inr s \<Longrightarrow> sp_id s = i"
  using honest by (simp add: honest_def)

text \<open>The offsets from \<open>k\<close> on, once the current span is cached.\<close>

lemma loop_ahead:
  assumes "covers p (unat cur) h" and "h \<le> unat cur + 2" and "unat cur + k \<le> Suc h" and "k \<le> 3"
    and "unat cur + 2 < 2 ^ 64"
  shows "\<exists>p' h'. prefetch_loop oc fetch cur [k..<3] p = Inr p' \<and> covers p' (unat cur) h' \<and>
     h \<le> h' \<and> h' \<le> unat cur + 2 \<and>
     (\<forall>j\<le>2. (\<forall>i\<in>{h<..unat cur + j}. serves fetch (word_of_nat i)) \<longrightarrow> unat cur + j \<le> h')"
  using assms(1-4)
proof (induction "3 - k" arbitrary: k p h)
  case 0
  then show ?case by auto
next
  case (Suc m)
  let ?c = "unat cur" and ?i = "word_of_nat (unat cur + k) :: u64"
  have ks: "[k..<3] = k # [Suc k..<3]" using Suc.hyps(2) by (simp add: upt_rec)
  have m: "m = 3 - Suc k" and k3: "Suc k \<le> 3" using Suc.hyps(2) by simp_all
  note IH = Suc.hyps(1) [OF m _ _ _ k3]
  show ?case
  proof (cases "?c + k \<le> h")
    case True
    then show ?thesis
      using IH [OF Suc.prems(1,2)] loop_skip [OF Suc.prems(1) True, of oc fetch] by (simp add: ks)
  next
    case False
    then have h: "?c + k = Suc h" and k: "?c + k < 2 ^ 64" using Suc.prems(3,4) Suc.hyps(2) assms(5) by simp_all
    have nf: "not_fetched p (?c + k)"
      using Suc.prems(1) h by (simp add: not_fetched_def covers_def unat_small)
    show ?thesis
    proof (cases "fetch ?i")
      case (Inl e)
      then have "\<not> serves fetch (word_of_nat (Suc h))" unfolding h [symmetric] serves_def by (simp only: sum.disc) simp
      then have "?c + j \<le> h" if "\<forall>i\<in>{h<..?c + j}. serves fetch (word_of_nat i)" for j
        using that by (metis Suc_leI greaterThanAtMost_iff lessI not_le)
      moreover have "prefetch_loop oc fetch cur [k..<3] p = Inr p" unfolding ks loop_asks [OF nf k] by (simp only: Inl sum.case)
      ultimately show ?thesis using Suc.prems(1,2) by (intro exI [of _ p] exI [of _ h]) simp
    next
      case (Inr s)
      have "covers (fetched_state p s ?i) ?c (Suc h)"
        using covers_next [OF Suc.prems(1), of s] own_id [OF Inr] k Suc.prems(2) by (simp add: h)
      note IH [OF this]
      moreover have "prefetch_loop oc fetch cur [k..<3] p =
          prefetch_loop oc fetch cur [Suc k..<3] (fetched_state p s ?i)"
        unfolding ks loop_asks [OF nf k] by (simp only: Inr sum.case)
      ultimately obtain p' h' where p': "prefetch_loop oc fetch cur [k..<3] p = Inr p'" "covers p' ?c h'"
          "Suc h \<le> h'" "h' \<le> ?c + 2"
          "\<forall>j\<le>2. (\<forall>i\<in>{Suc h<..?c + j}. serves fetch (word_of_nat i)) \<longrightarrow> ?c + j \<le> h'"
        using h k3 by auto
      from p' show ?thesis by (intro exI [of _ p'] exI [of _ h']) auto
    qed
  qed
qed

text \<open>The current span itself.\<close>

lemma loop_current:
  assumes "ready p lo" and "lo \<le> unat cur" and "serves fetch cur"
  shows "\<exists>p' h. prefetch_loop oc fetch cur (0 # ks) p = prefetch_loop oc fetch cur ks p' \<and>
     covers p' (unat cur) h \<and> h \<le> unat cur + 2"
proof -
  let ?c = "unat cur"
  obtain s where s: "fetch cur = Inr s" "sp_id s = cur"
    using assms(3) own_id by (cases "fetch cur") (auto simp: serves_def)
  have c: "?c < 2 ^ 64" using unat_bound [of cur] by simp
  have jump: "\<exists>p' h. prefetch_loop oc fetch cur (0 # ks) p = prefetch_loop oc fetch cur ks p' \<and>
      covers p' ?c h \<and> h \<le> ?c + 2"
    if "not_fetched p ?c" "sc_inv (pf_cache p)" "sc_max_size (pf_cache p) = 64" "pf_span_size p = 6400"
       "\<forall>i\<in>set (sc_access_order (pf_cache p)). unat i \<le> ?c"
    using covers_jump [OF that(2,3,5) _ c that(4), of s] loop_asks [of p cur 0 oc fetch ks] that(1) s c
    by (intro exI [of _ "fetched_state p s cur"] exI [of _ ?c]) simp
  from assms(1) consider (covered) h where "covers p lo h" "h \<le> lo + 2"
    | (fresh) "pf_last_fetched_span p = None" "pf_span_size p = 6400" "sc_inv (pf_cache p)"
        "sc_max_size (pf_cache p) = 64" "\<forall>i\<in>set (sc_access_order (pf_cache p)). unat i \<le> lo"
    by (auto simp: ready_def)
  then show ?thesis
  proof cases
    case (covered h)
    show ?thesis
    proof (cases "?c \<le> h")
      case True
      with covered assms(2) show ?thesis
        using loop_skip [OF covered(1), of cur 0 oc fetch ks] covers_weaken [OF covered(1) assms(2) True]
        by (intro exI [of _ p] exI [of _ h]) auto
    next
      case False
      with covered(1) show ?thesis
        by (intro jump) (auto simp: covers_def not_fetched_def unat_small)
    qed
  next
    case fresh
    with assms(2) show ?thesis by (intro jump) (auto simp: not_fetched_def)
  qed
qed

lemma pass_covers:
  assumes "ready p lo" and "lo \<le> unat (n div 6400)" and "serves fetch (n div 6400)"
  shows "\<exists>p' h. ensure_spans_for_block oc fetch p n = Inr p' \<and> covers p' (unat (n div 6400)) h \<and>
     h \<le> unat (n div 6400) + 2 \<and>
     (\<forall>j\<le>2. (\<forall>i\<le>j. serves fetch (n div 6400 + word_of_nat i)) \<longrightarrow> unat (n div 6400) + j \<le> h)"
proof -
  let ?cur = "n div 6400"
  let ?c = "unat ?cur"
  have small: "?c + 2 < 2 ^ 64"
    using unat_bound [of n] div_le_dividend [of "unat n" 6400] by (simp add: unat_div)
  have size: "pf_span_size p = 6400" using assms(1) by (auto simp: ready_def covers_def)
  have off: "[0..<Suc PREFETCH_AHEAD] = 0 # [1..<3]" by (simp add: upt_rec)
  have ens: "ensure_spans_for_block oc fetch p n = prefetch_loop oc fetch ?cur (0 # [1..<3]) p"
    unfolding ensure_spans_for_block_def size off by (simp add: span_id_at_def u64_div_def)
  obtain p1 h1 where p1: "prefetch_loop oc fetch ?cur (0 # [1..<3]) p = prefetch_loop oc fetch ?cur [1..<3] p1"
      "covers p1 ?c h1" "h1 \<le> ?c + 2"
    using loop_current [OF assms, of oc "[1..<3]"] by blast
  have "?c \<le> h1" using p1(2) by (simp add: covers_def)
  then obtain p' h where p': "prefetch_loop oc fetch ?cur [1..<3] p1 = Inr p'" "covers p' ?c h" "h \<le> ?c + 2"
      and all: "\<And>j. j \<le> 2 \<Longrightarrow> \<forall>i\<in>{h1<..?c + j}. serves fetch (word_of_nat i) \<Longrightarrow> ?c + j \<le> h"
    using loop_ahead [OF p1(2,3), of 1 oc] small by auto
  have "?c + j \<le> h" if "j \<le> 2" "\<forall>i\<le>j. serves fetch (?cur + word_of_nat i)" for j
  proof (rule all [OF that(1)], rule ballI)
    fix i
    assume i: "i \<in> {h1<..?c + j}"
    then have "i - ?c \<le> j" and "i = ?c + (i - ?c)" using \<open>?c \<le> h1\<close> by auto
    moreover from this(2) have "(word_of_nat i :: u64) = ?cur + word_of_nat (i - ?c)"
      by (metis of_nat_add of_nat_unat ucast_id)
    ultimately show "serves fetch (word_of_nat i)" using that(2) by metis
  qed
  with p' p1(1) ens show ?thesis by auto
qed

end

lemma mock_fetch_of: "mock_fetch_span (mock_of spans) i = ok_or NotFound (find (\<lambda>s. sp_id s = i) (rev spans))"
proof (induction spans rule: rev_induct)
  case Nil
  then show ?case by (simp add: mock_of_def mock_fetch_span_def mock_client_new_def map_laws)
next
  case (snoc s spans)
  then show ?case by (simp add: mock_of_def mock_fetch_span_def with_span_def map_laws)
qed

lemma honest_mock: "honest (mock_fetch_span (mock_of spans))"
  by (auto simp: honest_def mock_fetch_of ok_or_def find_Some_iff split: option.splits)

interpretation mock: span_client "mock_fetch_span (mock_of spans)" for spans
  by unfold_locales (rule honest_mock)

section \<open>Lemmas: runs\<close>

text \<open>Polls at which the client is honest and has the span of the polled block.\<close>

definition good_poll :: "span_fetch \<times> u64 option \<Rightarrow> bool" where
  "good_poll poll \<longleftrightarrow>
     honest (fst poll) \<and> (case snd poll of None \<Rightarrow> True | Some n \<Rightarrow> serves (fst poll) (n div 6400))"

definition polled_spans :: "(span_fetch \<times> u64 option) list \<Rightarrow> nat list" where
  "polled_spans polls = map (\<lambda>n. unat (n div 6400)) (List.map_filter snd polls)"

lemma polled_spans_simps [simp]:
  "polled_spans [] = []"
  "polled_spans ((f, None) # polls) = polled_spans polls"
  "polled_spans ((f, Some n) # polls) = unat (n div 6400) # polled_spans polls"
  "polled_spans (polls @ polls') = polled_spans polls @ polled_spans polls'"
  by (simp_all add: polled_spans_def map_filter_simps map_filter_def)

lemma pass_ready:
  assumes "honest fetch" and "ready p lo" and "lo \<le> unat (n div 6400)" and "serves fetch (n div 6400)"
  shows "\<exists>p'. ensure_spans_for_block oc fetch p n = Inr p' \<and> ready p' (unat (n div 6400))"
proof -
  have "span_client fetch" by (rule span_client.intro [OF assms(1)])
  from span_client.pass_covers [OF this assms(2-4), of oc] show ?thesis by (auto simp: ready_def)
qed

lemma polls_ready:
  assumes "ready p lo" and "sorted (lo # polled_spans polls)" and "\<forall>poll\<in>set polls. good_poll poll"
  shows "\<exists>p'. prefetch_polls oc p polls = Inr p' \<and> ready p' (last (lo # polled_spans polls))"
  using assms
proof (induction oc p polls arbitrary: lo rule: prefetch_polls.induct)
  case (1 oc p)
  then show ?case by simp
next
  case (2 oc p fetch poll polls)
  show ?case
  proof (cases poll)
    case None
    with 2 show ?thesis by simp
  next
    case (Some n)
    then obtain q where q: "ensure_spans_for_block oc fetch p n = Inr q" "ready q (unat (n div 6400))"
      using pass_ready [of fetch p lo n oc] "2.prems" by (auto simp: good_poll_def)
    with "2.IH" [of q "unat (n div 6400)"] "2.prems" Some show ?thesis by simp
  qed
qed

lemma prefetch_polls_append:
  "prefetch_polls oc p (xs @ ys) = bindR (prefetch_polls oc p xs) (\<lambda>q. prefetch_polls oc q ys)"
  by (induction oc p xs rule: prefetch_polls.induct) (auto simp: bindR_def split: sum.splits option.splits)

lemma ready_start:
  assumes "honest fetch"
  shows "ready (fst (fetch_and_cache_span fetch (prefetcher_new bor_consensus_new) 0)) 0"
proof (cases "fetch 0")
  case (Inl e)
  then have "fst (fetch_and_cache_span fetch (prefetcher_new bor_consensus_new) 0) = prefetcher_new bor_consensus_new"
    by (cases e) (simp_all add: fetch_and_cache_span_def)
  then show ?thesis
    using sc_inv_new [of 64] by (simp add: ready_def prefetcher_new_def bor_consensus_new_def span_cache_new_def)
next
  case (Inr s)
  then have "sp_id s = 0" using assms by (simp add: honest_def)
  moreover have "sc_access_order (span_cache_new 64) = []" "sc_max_size (span_cache_new 64) = 64"
    by (simp_all add: span_cache_new_def)
  ultimately show ?thesis
    using insert_ends_with [OF sc_inv_new, of 64 s] Inr
    by (auto simp: ready_def fetch_and_cache_span_def prefetcher_new_def bor_consensus_new_def engine_insert_span_def
        max_size_insert)
qed

lemma prefetch_run_covers:
  assumes "honest fetch0" and "\<forall>poll\<in>set polls. good_poll poll" and "good_poll (fetch, Some n)"
    and "sorted (polled_spans polls @ [unat (n div 6400)])"
  shows "\<exists>p h. prefetch_run oc fetch0 (prefetcher_new bor_consensus_new) (polls @ [(fetch, Some n)]) = Inr p \<and>
     covers p (unat (n div 6400)) h \<and>
     (\<forall>j\<le>2. (\<forall>i\<le>j. serves fetch (n div 6400 + word_of_nat i)) \<longrightarrow> unat (n div 6400) + j \<le> h)"
proof -
  have srt: "sorted (0 # polled_spans polls)" "last (0 # polled_spans polls) \<le> unat (n div 6400)"
    using assms(4) by (auto simp: sorted_append)
  obtain q where q: "prefetch_polls oc (fst (fetch_and_cache_span fetch0 (prefetcher_new bor_consensus_new) 0)) polls = Inr q"
      "ready q (last (0 # polled_spans polls))"
    using polls_ready [OF ready_start [OF assms(1)] srt(1) assms(2), of oc] by blast
  have "span_client fetch" "serves fetch (n div 6400)"
    using assms(3) by (simp_all add: good_poll_def span_client.intro)
  from span_client.pass_covers [OF this(1) q(2) srt(2) this(2), of oc] q(1) show ?thesis
    by (fastforce simp: prefetch_run_def prefetch_polls_append)
qed

text \<open>Whatever is cached is an answer of the client to the request for that id.\<close>

definition from_client :: "span_fetch set \<Rightarrow> prefetcher \<Rightarrow> bool" where
  "from_client fetches p \<longleftrightarrow>
     sc_inv (pf_cache p) \<and> rc_signers (bc_recents (pf_consensus p)) = [] \<and>
     (\<forall>i s. span_cache_look (pf_cache p) i = Some s \<longrightarrow> (\<exists>f\<in>fetches. f i = Inr s))"

lemma from_client_fetch:
  assumes "from_client fs p" and "honest fetch" and "fetch \<in> fs"
  shows "from_client fs (fst (fetch_and_cache_span fetch p i))"
proof (cases "fetch i")
  case (Inl e)
  with assms(1) show ?thesis by (cases e) (simp_all add: fetch_and_cache_span_def)
next
  case (Inr s)
  have inv: "sc_inv (pf_cache p)" using assms(1) by (simp add: from_client_def)
  have id: "sp_id s = i" using assms(2) Inr by (simp add: honest_def)
  have "\<exists>f\<in>fs. f j = Inr t" if "span_cache_look (span_cache_insert (pf_cache p) s) j = Some t" for j t
    using that ss.look_ins_same [OF inv, of s] ss.look_ins_other [OF inv, of j s] assms(1,3) Inr id
    by (cases "j = i") (auto simp: from_client_def)
  with assms(1) Inr inv show ?thesis
    by (auto simp: from_client_def fetch_and_cache_span_def engine_insert_span_def)
qed

lemma from_client_last [simp]: "from_client fs (p\<lparr>pf_last_fetched_span := x\<rparr>) = from_client fs p"
  by (simp add: from_client_def)

lemma from_client_loop:
  assumes "honest fetch" and "fetch \<in> fs"
  shows "from_client fs p \<Longrightarrow> prefetch_loop oc fetch cur ks p = Inr p' \<Longrightarrow> from_client fs p'"
proof (induction ks arbitrary: p)
  case Nil
  then show ?case by simp
next
  case (Cons k ks)
  have step: "from_client fs (fst (fetch_and_cache_span fetch p i))" for i
    using Cons.prems(1) assms by (rule from_client_fetch)
  then have "from_client fs ((fst (fetch_and_cache_span fetch p i))\<lparr>pf_last_fetched_span := Some i\<rparr>)" for i
    by simp
  note IH = Cons.IH [OF this] Cons.IH [OF Cons.prems(1)]
  show ?case
    using Cons.prems(2) step IH
    by (auto simp: bindR_eq_Inr Let_def split_beta split: if_splits)
qed

lemma from_client_polls:
  assumes "\<forall>poll\<in>set polls. honest (fst poll) \<and> fst poll \<in> fs" and "from_client fs p"
    and "prefetch_polls oc p polls = Inr p'"
  shows "from_client fs p'"
  using assms
proof (induction oc p polls rule: prefetch_polls.induct)
  case (1 oc p)
  then show ?case by simp
next
  case (2 oc p fetch poll polls)
  then obtain q where q: "(case poll of None \<Rightarrow> Inr p | Some n \<Rightarrow> ensure_spans_for_block oc fetch p n) = Inr q"
      "prefetch_polls oc q polls = Inr p'"
    by (auto simp: bindR_eq_Inr)
  have "from_client fs q"
    using q(1) "2.prems"(1,2) from_client_loop [of fetch fs p]
    by (auto simp: ensure_spans_for_block_def bindR_eq_Inr split: option.splits)
  with "2.IH" [of q] "2.prems"(1) q(2) show ?case by simp
qed

lemma from_client_run:
  assumes "honest fetch0" and "\<forall>poll\<in>set polls. honest (fst poll)"
    and "prefetch_run oc fetch0 (prefetcher_new bor_consensus_new) polls = Inr p"
  shows "from_client (insert fetch0 (fst ` set polls)) p"
proof -
  let ?fs = "insert fetch0 (fst ` set polls)"
  have "from_client ?fs (prefetcher_new bor_consensus_new)"
    using sc_inv_new [of 64]
    by (simp add: from_client_def prefetcher_new_def bor_consensus_new_def recents_new_def span_cache_look_def
        span_cache_new_def)
  then have "from_client ?fs (fst (fetch_and_cache_span fetch0 (prefetcher_new bor_consensus_new) 0))"
    using assms(1) by (rule from_client_fetch) simp
  moreover have "\<forall>poll\<in>set polls. honest (fst poll) \<and> fst poll \<in> ?fs" using assms(2) by simp
  ultimately show ?thesis
    using assms(3) from_client_polls unfolding prefetch_run_def by blast
qed

section \<open>Properties\<close>

text \<open>
  C18. The prefetcher keeps up: on a new engine, with a client that at every poll has at least the
  span of the polled block and may or may not have later ones, any number of polls of blocks in
  non-decreasing spans runs without a panic. Then the span of the latest block is cached, and
  so is the one \<open>j\<close> spans ahead, \<open>j\<close> at most 2, if the client has all spans up to it,
  however many spans were skipped, missing for a time or evicted before.
\<close>

theorem prefetch_keeps_up:
  assumes "honest fetch0"
    and "\<forall>(f, poll)\<in>set (polls @ [(fetch, Some n)]). honest f \<and> (\<forall>m. poll = Some m \<longrightarrow> serves f (m div 6400))"
    and "sorted (map (\<lambda>m. unat (m div 6400)) (List.map_filter snd (polls @ [(fetch, Some n)])))"
    and "j \<le> 2" and "\<forall>i\<le>j. serves fetch (n div 6400 + word_of_nat i)"
  shows "\<exists>p. prefetch_run oc fetch0 (prefetcher_new bor_consensus_new) (polls @ [(fetch, Some n)]) = Inr p \<and>
     span_cache_contains (bc_span_cache (pf_consensus p)) (n div 6400 + word_of_nat j)"
proof -
  have "sorted (polled_spans (polls @ [(fetch, Some n)]))" using assms(3) by (simp only: polled_spans_def)
  moreover have "\<forall>poll\<in>set (polls @ [(fetch, Some n)]). good_poll poll"
    using assms(2) by (auto simp: good_poll_def split: option.splits)
  ultimately obtain p h where p: "prefetch_run oc fetch0 (prefetcher_new bor_consensus_new) (polls @ [(fetch, Some n)]) = Inr p"
      "covers p (unat (n div 6400)) h" "unat (n div 6400) + j \<le> h"
    using prefetch_run_covers [OF assms(1), of polls fetch n oc] assms(4,5) by auto
  have "span_cache_contains (pf_cache p) (word_of_nat (unat (n div 6400) + j))"
    using p(3) by (intro covers_cached [OF p(2)]) simp_all
  with p(1) show ?thesis by auto
qed

section \<open>Witnesses\<close>

text \<open>Spans 0 to 2 at the first poll, 109 and 110 at the second.\<close>

theorem prefetch_keeps_up_witness:
  "\<exists>p. prefetch_run True (mock_fetch_span mock_client_new) (prefetcher_new bor_consensus_new)
       [(mock_fetch_span (mock_of [demo_span 0 0, demo_span 1 0]), Some 100),
        (mock_fetch_span (mock_of [demo_span 0 0, demo_span 109 0, demo_span 110 0]), Some 700000)] = Inr p \<and>
     span_cache_contains (bc_span_cache (pf_consensus p)) 110"
proof -
  let ?f = "mock_fetch_span (mock_of [demo_span 0 0, demo_span 1 0])"
    and ?g = "mock_fetch_span (mock_of [demo_span 0 0, demo_span 109 0, demo_span 110 0])"
  have new: "mock_client_new = mock_of []" by (simp add: mock_of_def)
  have "serves ?f 0" "serves ?g 109" "serves ?g 110"
    by (simp_all add: serves_def mock_fetch_of ok_or_def demo_span_def)
  moreover from this have "serves ?g (109 + word_of_nat i)" if "i \<le> 1" for i
    using that by (cases i) simp_all
  ultimately show ?thesis
    using prefetch_keeps_up [of "mock_fetch_span mock_client_new" "[(?f, Some 100)]" ?g 700000 1 True]
    unfolding new by (simp add: honest_mock map_filter_simps)
qed

end
