(* ===== verification/Consensus_Policy.thy ===== *)
theory Consensus_Policy
  imports Consensus_Engine
begin

text \<open>
  What the consensus engine promises, as an abstract machine: the known spans are one list in
  the order of their last use, and the signers are a plain history of the accepted blocks,
  the newest first, that is never pruned. A block counts against its signer while no newer
  entry of the history reached beyond it. The engine of \<open>Consensus_Engine\<close>, with its hash map,
  access vector, ordered map and pruning, answers every sequence of calls as this machine
  does. The locale \<open>simulation\<close> of the prelude lifts the agreement of one call to all sequences.
\<close>

section \<open>The calls of the engine\<close>

datatype 'tx engine_call = CallInsertSpan span | CallPreExecution header "'tx block_body"

primrec engine_apply ::
    "('sig, 'tx) env \<Rightarrow> bor_consensus \<Rightarrow> 'tx engine_call \<Rightarrow> bor_consensus \<times> (consensus_error failure + unit)" where
  "engine_apply E e (CallInsertSpan s) = (engine_insert_span e s, Inr ())"
| "engine_apply E e (CallPreExecution h b) = engine_pre_execution E e h b"

section \<open>The policy\<close>

text \<open>An entry is a block number, its signer and the size of the validator set it was checked with.\<close>

type_synonym history = "(u64 \<times> address \<times> nat) list"

primrec remembered :: "history \<Rightarrow> u64 \<Rightarrow> address option" where
  "remembered [] k = None"
| "remembered (entry # log) k =
     (case entry of (m, a, c) \<Rightarrow>
        if unat k < unat m - (c div 2 + 1) then None
        else if k = m then Some a else remembered log k)"

definition signed_recently :: "history \<Rightarrow> nat \<Rightarrow> u64 \<Rightarrow> address \<Rightarrow> bool" where
  "signed_recently log c n a =
     list_ex (\<lambda>(k, _, _). unat n - (c div 2 + 1) \<le> unat k \<and> unat k < unat n \<and> remembered log k = Some a) log"

record policy =
  po_spans :: "span list"
  po_log :: history

definition policy_new :: policy where
  "policy_new = \<lparr>po_spans = [], po_log = []\<rparr>"

definition policy_pre_execution ::
    "('sig, 'tx) env \<Rightarrow> policy \<Rightarrow> header \<Rightarrow> 'tx block_body \<Rightarrow> policy \<times> (consensus_error failure + unit)" where
  "policy_pre_execution E p h b =
     (let n = hd_number h in
      case block_signer E h b of
        Inl err \<Rightarrow> (p, Inl (Err err))
      | Inr a \<Rightarrow>
          (case lru_get (n div 6400) (po_spans p) of
             (spans, None) \<Rightarrow> (p\<lparr>po_spans := spans\<rparr>, Inr ())
           | (spans, Some s) \<Rightarrow>
               let c = length (authorized_signers s); p1 = p\<lparr>po_spans := spans\<rparr> in
               if a \<notin> set (authorized_signers s) then
                 (p1, Inl (Err (Other (''unauthorized signer '' @ en_show_address E a @ '' at block '' @ show_u64 n))))
               else if signed_recently (po_log p) c n a then
                 (p1, Inl (Err (Other (''signer '' @ en_show_address E a @ '' signed too recently at block '' @ show_u64 n))))
               else (p1\<lparr>po_log := (n, a, c) # po_log p\<rparr>, Inr ())))"

primrec policy_apply ::
    "('sig, 'tx) env \<Rightarrow> policy \<Rightarrow> 'tx engine_call \<Rightarrow> policy \<times> (consensus_error failure + unit)" where
  "policy_apply E p (CallInsertSpan s) = (p\<lparr>po_spans := lru_insert 64 s (po_spans p)\<rparr>, Inr ())"
| "policy_apply E p (CallPreExecution h b) = policy_pre_execution E p h b"

text \<open>Spans whose validators can be counted in a \<open>u64\<close>.\<close>

primrec sized_call :: "'tx engine_call \<Rightarrow> bool" where
  "sized_call (CallInsertSpan s) = (length (authorized_signers s) < 2 ^ 64)"
| "sized_call (CallPreExecution h b) = True"

section \<open>The engine simulates the policy\<close>

definition policy_rel :: "bor_consensus \<Rightarrow> policy \<Rightarrow> bool" where
  "policy_rel e p \<longleftrightarrow>
     sc_inv (bc_span_cache e) \<and> sc_max_size (bc_span_cache e) = 64 \<and> bt_inv (rc_signers (bc_recents e)) \<and>
     lru_abs (bc_span_cache e) = po_spans p \<and>
     (\<forall>k. bt_get (rc_signers (bc_recents e)) k = remembered (po_log p) k) \<and>
     (\<forall>s\<in>set (po_spans p). length (authorized_signers s) < 2 ^ 64)"

lemma remembered_entry: "remembered log k = Some a \<Longrightarrow> \<exists>c. (k, a, c) \<in> set log"
  by (induction log) (auto split: if_splits)

lemma signed_recently_iff:
  "signed_recently log c n a \<longleftrightarrow> signed_in_window (remembered log) c n a"
  unfolding signed_recently_def signed_in_window_def list_ex_iff sign_window_def
  using remembered_entry by fastforce

lemma lru_get_set:
  "set (fst (lru_get i xs)) \<subseteq> set xs" "snd (lru_get i xs) = Some s \<Longrightarrow> s \<in> set xs"
  by (auto simp: lru_get_def find_Some_iff split: option.splits)

lemma max_size_get [simp]: "sc_inv c \<Longrightarrow> sc_max_size (fst (span_cache_get c i)) = sc_max_size c"
  using max_size_step [of c "Get i"] by simp

lemma policy_rel_get:
  assumes "policy_rel e p"
  shows "snd (span_cache_get (bc_span_cache e) i) = snd (lru_get i (po_spans p))"
    and "policy_rel (e\<lparr>bc_span_cache := fst (span_cache_get (bc_span_cache e) i)\<rparr>)
           (p\<lparr>po_spans := fst (lru_get i (po_spans p))\<rparr>)"
proof -
  have inv: "sc_inv (bc_span_cache e)" and spans: "lru_abs (bc_span_cache e) = po_spans p"
    using assms by (simp_all add: policy_rel_def)
  note get = span_cache_get_refines [OF inv, of i, unfolded spans]
  show "snd (span_cache_get (bc_span_cache e) i) = snd (lru_get i (po_spans p))" by (simp add: get)
  show "policy_rel (e\<lparr>bc_span_cache := fst (span_cache_get (bc_span_cache e) i)\<rparr>)
      (p\<lparr>po_spans := fst (lru_get i (po_spans p))\<rparr>)"
    using assms lru_get_set(1) [of i "po_spans p"] by (auto simp: policy_rel_def get)
qed

lemma policy_rel_insert:
  assumes "policy_rel e p" and "length (authorized_signers s) < 2 ^ 64"
  shows "policy_rel (engine_insert_span e s) (p\<lparr>po_spans := lru_insert 64 s (po_spans p)\<rparr>)"
proof -
  have "set (lru_insert 64 s xs) \<subseteq> insert s (set xs)" for xs
    by (auto simp: lru_insert_def dest: in_set_tl split: if_splits)
  then show ?thesis
    using assms span_cache_insert_refines [of "bc_span_cache e" s] max_size_step [of "bc_span_cache e" "Insert s"]
    by (fastforce simp: policy_rel_def engine_insert_span_def)
qed

lemma policy_rel_record:
  assumes "policy_rel e p" and "length signers < 2 ^ 64"
  shows "policy_rel (record_signer e n a signers) (p\<lparr>po_log := (n, a, length signers) # po_log p\<rparr>)"
  using assms rc.signer_at_record [of "bc_recents e" "length signers" n a]
  by (auto simp: policy_rel_def record_signer_def recents_inv_record sign_window_def not_less)

lemma policy_check:
  assumes "policy_rel e p" and "length signers < 2 ^ 64"
  shows "check_signer E e n a signers =
     (if a \<notin> set signers then
        Inl (Err (Other (''unauthorized signer '' @ en_show_address E a @ '' at block '' @ show_u64 n)))
      else if signed_recently (po_log p) (length signers) n a then
        Inl (Err (Other (''signer '' @ en_show_address E a @ '' signed too recently at block '' @ show_u64 n)))
      else Inr ())"
proof -
  have "bt_get (rc_signers (bc_recents e)) = remembered (po_log p)" and inv: "bt_inv (rc_signers (bc_recents e))"
    using assms(1) by (auto simp: policy_rel_def)
  then show ?thesis
    using is_recently_signed_eq [OF inv assms(2), of a n]
    by (simp add: check_signer_def signed_recently_iff List.member_iff)
qed

lemma policy_pre_execution_sim:
  assumes "policy_rel e p"
  shows "policy_rel (fst (engine_pre_execution E e h b)) (fst (policy_pre_execution E p h b))"
    and "snd (engine_pre_execution E e h b) = snd (policy_pre_execution E p h b)"
proof -
  let ?n = "hd_number h"
  let ?r = "span_cache_get (bc_span_cache e) (?n div 6400)" and ?l = "lru_get (?n div 6400) (po_spans p)"
  let ?e1 = "e\<lparr>bc_span_cache := fst ?r\<rparr>" and ?p1 = "p\<lparr>po_spans := fst ?l\<rparr>"
  note get = policy_rel_get [OF assms, of "?n div 6400"]
  have small: "length (authorized_signers s) < 2 ^ 64" if "snd ?l = Some s" for s
    using assms lru_get_set(2) [OF that] by (simp add: policy_rel_def)
  note chk = policy_check [OF get(2) small] and rec = policy_rel_record [OF get(2) small]
  have "policy_rel (fst (engine_pre_execution E e h b)) (fst (policy_pre_execution E p h b)) \<and>
      snd (engine_pre_execution E e h b) = snd (policy_pre_execution E p h b)"
    using assms get(2) chk [of _ E ?n] rec [of _ ?n]
    by (auto simp: engine_pre_execution_eq policy_pre_execution_def Let_def get(1) split_beta split: sum.splits option.splits)
  then show "policy_rel (fst (engine_pre_execution E e h b)) (fst (policy_pre_execution E p h b))"
    and "snd (engine_pre_execution E e h b) = snd (policy_pre_execution E p h b)" by simp_all
qed

interpretation engine_policy: simulation "engine_apply E" "policy_apply E" policy_rel sized_call for E
proof (unfold_locales, goal_cases)
  case (1 e p call)
  then show ?case by (cases call) (simp_all add: policy_rel_insert policy_pre_execution_sim)
next
  case (2 e p call)
  then show ?case by (cases call) (simp_all add: policy_pre_execution_sim)
qed

lemma policy_rel_new: "policy_rel bor_consensus_new policy_new"
  using sc_inv_new [of 64]
  by (simp add: policy_rel_def bor_consensus_new_def policy_new_def recents_new_def bt_inv_def bt_get_def
      span_cache_new_def lru_abs_def)

section \<open>Lemmas: what the history implies\<close>

text \<open>A block that was just accepted is remembered for the whole window after it.\<close>

lemma accepted_remembered:
  assumes "policy_pre_execution E p h b = (p', Inr ())" and "block_signer E h b = Inr a"
    and "snd (lru_get (hd_number h div 6400) (po_spans p)) = Some s"
  shows "po_log p' = (hd_number h, a, length (authorized_signers s)) # po_log p"
    and "a \<in> set (authorized_signers s)"
    and "\<not> signed_recently (po_log p) (length (authorized_signers s)) (hd_number h) a"
    and "po_spans p' = fst (lru_get (hd_number h div 6400) (po_spans p))"
  using assms by (auto simp: policy_pre_execution_def Let_def split_beta split: option.splits if_splits)

lemma find_snoc: "find P xs = None \<Longrightarrow> find P (xs @ ys) = find P ys"
  by (induction xs) (auto split: if_splits)

lemma lru_get_again: "lru_get i (fst (lru_get i xs)) = lru_get i xs"
proof (cases "find (\<lambda>s. sp_id s = i) xs")
  case None
  then show ?thesis by (simp add: lru_get_def)
next
  case (Some s)
  then have "sp_id s = i" by (auto simp: find_Some_iff)
  moreover have "find (\<lambda>s. sp_id s = i) (filter (\<lambda>s. sp_id s \<noteq> i) xs) = None" by (simp add: find_None_iff)
  ultimately show ?thesis using Some by (simp add: lru_get_def find_snoc)
qed

lemma remembered_newest: "remembered ((n, a, c) # log) n = Some a"
  by simp

lemma remembered_twice: "remembered ((n, a, c) # (n, a, c) # log) = remembered ((n, a, c) # log)"
  by (rule ext) simp

lemma signed_recently_own: "signed_recently ((n, a, c) # log) c n b \<longleftrightarrow> signed_recently log c n b"
  unfolding signed_recently_iff signed_in_window_def sign_window_def
  by (intro ex_cong1) auto

lemma policy_look:
  "policy_rel e p \<Longrightarrow> span_cache_look (bc_span_cache e) i = snd (lru_get i (po_spans p))"
  using ss.get_look [of "bc_span_cache e" i] policy_rel_get(1) [of e p i] by (simp add: policy_rel_def)

text \<open>Every state that calls lead to is related to a policy.\<close>

lemma called_policy:
  assumes "\<forall>call\<in>set calls. sized_call call"
  obtains p where "policy_rel (fst (run_calls (engine_apply E) bor_consensus_new calls)) p"
  using engine_policy.run_simulates(1) [OF policy_rel_new assms] by blast

section \<open>Properties\<close>

text \<open>
  C11. The engine refines its policy: on every sequence of span insertions and block validations
  of a new engine, in any order of block numbers and with spans of any sizes, each call returns
  exactly what the abstract machine over an unpruned history returns, error messages included.
\<close>

theorem engine_refines_policy:
  assumes "\<forall>call\<in>set calls. sized_call call"
  shows "snd (run_calls (engine_apply E) bor_consensus_new calls) = snd (run_calls (policy_apply E) policy_new calls)"
  by (rule engine_policy.run_simulates(2) [OF policy_rel_new assms])

text \<open>
  Validating an accepted block again is harmless: in every state that calls lead to, a block
  that was accepted is accepted once more, and the signer log answers every later lookup as it
  did after the first time.
\<close>

theorem revalidation_idempotent:
  assumes "\<forall>call\<in>set calls. sized_call call"
    and "e = fst (run_calls (engine_apply E) bor_consensus_new calls)"
    and "engine_pre_execution E e h b = (e1, Inr ())"
    and "engine_pre_execution E e1 h b = (e2, r)"
  shows "r = Inr () \<and> (\<forall>k. bt_get (rc_signers (bc_recents e2)) k = bt_get (rc_signers (bc_recents e1)) k)"
proof -
  obtain p where rel: "policy_rel e p" using called_policy [OF assms(1)] assms(2) by metis
  obtain p1 where p1: "policy_pre_execution E p h b = (p1, Inr ())" and rel1: "policy_rel e1 p1"
    using policy_pre_execution_sim [OF rel, of E h b] assms(3) by (cases "policy_pre_execution E p h b") auto
  obtain p2 where p2: "policy_pre_execution E p1 h b = (p2, r)" and rel2: "policy_rel e2 p2"
    using policy_pre_execution_sim [OF rel1, of E h b] assms(4) by (cases "policy_pre_execution E p1 h b") auto
  have "r = Inr () \<and> remembered (po_log p2) = remembered (po_log p1)"
    using p1 p2 lru_get_again [of "hd_number h div 6400" "po_spans p"]
    by (auto simp: policy_pre_execution_def Let_def split_beta signed_recently_own remembered_twice
        simp del: remembered.simps split: sum.splits option.splits if_splits)
  with rel1 rel2 show ?thesis by (simp add: policy_rel_def)
qed

text \<open>
  The history is shared by all branches: once a block of signer \<open>a\<close> was accepted against a
  cached span, every block of \<open>a\<close> within the window above it is refused, also one that
  belongs to another branch and does not descend from the first.
\<close>

theorem branches_share_history:
  assumes "\<forall>call\<in>set calls. sized_call call"
    and "e = fst (run_calls (engine_apply E) bor_consensus_new calls)"
    and "span_cache_look (bc_span_cache e) (hd_number h1 div 6400) = Some s1"
    and "block_signer E h1 b1 = Inr a" and "engine_pre_execution E e h1 b1 = (e1, Inr ())"
    and "span_cache_look (bc_span_cache e1) (hd_number h2 div 6400) = Some s2"
    and "block_signer E h2 b2 = Inr a"
    and "unat (hd_number h1) < unat (hd_number h2)"
    and "unat (hd_number h2) \<le> unat (hd_number h1) + (length (authorized_signers s2) div 2 + 1)"
  shows "snd (engine_pre_execution E e1 h2 b2) \<noteq> Inr ()"
proof -
  obtain p where rel: "policy_rel e p" using called_policy [OF assms(1)] assms(2) by metis
  obtain p1 where p1: "policy_pre_execution E p h1 b1 = (p1, Inr ())" and rel1: "policy_rel e1 p1"
    using policy_pre_execution_sim [OF rel, of E h1 b1] assms(5) by (cases "policy_pre_execution E p h1 b1") auto
  have log: "po_log p1 = (hd_number h1, a, length (authorized_signers s1)) # po_log p"
    using accepted_remembered(1) [OF p1 assms(4)] assms(3) policy_look [OF rel] by simp
  have "signed_recently (po_log p1) (length (authorized_signers s2)) (hd_number h2) a"
    unfolding signed_recently_iff signed_in_window_def sign_window_def
    by (rule exI [of _ "hd_number h1"]) (use assms(8,9) log in \<open>auto simp: remembered_newest simp del: remembered.simps\<close>)
  then have "snd (policy_pre_execution E p1 h2 b2) \<noteq> Inr ()"
    using assms(6,7) policy_look [OF rel1] by (auto simp: policy_pre_execution_def Let_def split_beta)
  then show ?thesis by (simp add: policy_pre_execution_sim [OF rel1])
qed

section \<open>Witnesses\<close>

definition demo_calls :: "unit engine_call list" where
  "demo_calls = [CallInsertSpan span_789, CallPreExecution (demo_block 10 8) demo_body]"

lemma demo_calls_sized: "\<forall>call\<in>set demo_calls. sized_call call"
  by (simp add: demo_calls_def)

text \<open>Inserting the span of 7, 8 and 9; then 8 signs, signs again in the window, and 9 and 6 sign.\<close>

theorem engine_refines_policy_witness:
  "map isl (snd (run_calls (engine_apply demo_env) bor_consensus_new
     (demo_calls @ [CallPreExecution (demo_block 12 8) demo_body, CallPreExecution (demo_block 13 9) demo_body,
        CallPreExecution (demo_block 14 6) demo_body]))) = [False, False, True, False, True]"
proof -
  have "\<forall>call\<in>set (demo_calls @ [CallPreExecution (demo_block 12 8) demo_body,
      CallPreExecution (demo_block 13 9) demo_body, CallPreExecution (demo_block 14 6) demo_body]). sized_call call"
    using demo_calls_sized by simp
  from engine_refines_policy [OF this, of demo_env] show ?thesis
    by (simp add: demo_calls_def policy_new_def policy_pre_execution_def demo_signer lru_insert_def lru_get_def
        signed_recently_def Let_def)
qed

lemma demo_calls_engine: "fst (run_calls (engine_apply demo_env) bor_consensus_new [CallInsertSpan span_789]) = engine_789"
  by (simp add: engine_789_def)

lemma demo_accept:
  assumes "n div 6400 = 0"
  obtains e1 where "engine_pre_execution demo_env engine_789 (demo_block n 8) demo_body = (e1, Inr ())"
proof -
  have "snd (engine_pre_execution demo_env engine_789 (demo_block n 8) demo_body) = Inr ()"
    using engine_pre_execution_accepts [of engine_789 "demo_block n 8" demo_env demo_body] assms
    by (simp add: demo_signer numeral_3_eq_3 bt_get_def signed_in_window_def bt_inv_def)
  then show thesis by (intro that) (rule prod_eqI, simp_all)
qed

theorem revalidation_idempotent_witness:
  "\<exists>e1 e2. engine_pre_execution demo_env engine_789 (demo_block 10 8) demo_body = (e1, Inr ()) \<and>
     engine_pre_execution demo_env e1 (demo_block 10 8) demo_body = (e2, Inr ())"
proof -
  obtain e1 where e1: "engine_pre_execution demo_env engine_789 (demo_block 10 8) demo_body = (e1, Inr ())"
    by (rule demo_accept [of 10]) simp_all
  obtain e2 r where e2: "engine_pre_execution demo_env e1 (demo_block 10 8) demo_body = (e2, r)" by fastforce
  have "\<forall>call\<in>set [CallInsertSpan span_789 :: unit engine_call]. sized_call call" by simp
  from revalidation_idempotent [OF this demo_calls_engine [symmetric] e1 e2] e1 e2 show ?thesis by blast
qed

theorem branches_share_history_witness:
  "\<exists>e1. engine_pre_execution demo_env engine_789 (demo_block 10 8) demo_body = (e1, Inr ()) \<and>
     snd (engine_pre_execution demo_env e1 ((demo_block 11 8)\<lparr>hd_parent_hash := 99\<rparr>) demo_body) \<noteq> Inr ()"
proof -
  obtain e1 where e1: "engine_pre_execution demo_env engine_789 (demo_block 10 8) demo_body = (e1, Inr ())"
    by (rule demo_accept [of 10]) simp_all
  have look: "span_cache_look (bc_span_cache e1) 0 = Some span_789"
    by (rule look_789 [OF reachable_789 e1]) simp
  have sg: "block_signer demo_env ((demo_block 11 8)\<lparr>hd_parent_hash := 99\<rparr>) demo_body = Inr 8"
    by (simp add: block_signer_def demo_env_def demo_block_def demo_body_def has_ommers_def extra_data_parse_def
        ecrecover_seal_def demo_crypto_def address_bytes_def be_value_be_bytes Let_def)
  have sized: "\<forall>call\<in>set [CallInsertSpan span_789 :: unit engine_call]. sized_call call" by simp
  show ?thesis
    using e1 branches_share_history [OF sized demo_calls_engine [symmetric] _ demo_signer e1 _ sg, of span_789 span_789] look
    by (auto simp: demo_block_def demo_header_def)
qed

end
