(* ===== verification/Consensus_System.thy ===== *)
theory Consensus_System
  imports Consensus_Prefetch Consensus_Policy
begin

text \<open>
  The prefetcher of \<open>span_prefetch.rs\<close> and the validation of \<open>reth_consensus.rs\<close> as two tasks on
  one engine. A step of the prefetcher is the work between two points at which it gives up the
  processor: one offset of the loop, with at most one request and one insertion into the
  cache. A step of the other task validates a block. The steps interleave in any way, the
  client may answer differently at every request, and \<open>calls\<close> records the calls on the engine.
  The step that makes a request is taken when the answer is there; while a request is open, for
  ever if it is never answered, only validations take steps. \<open>ok\<close> is what is known of the clients.
\<close>

section \<open>The steps\<close>

datatype task = NotStarted | Idle | Fetching u64 "nat list"

fun prefetch_step :: "bool \<Rightarrow> span_fetch \<Rightarrow> prefetcher \<Rightarrow> task \<Rightarrow> panic + (prefetcher \<times> task)" where
  "prefetch_step oc fetch p NotStarted = Inr (fst (fetch_and_cache_span fetch p 0), Idle)"
| "prefetch_step oc fetch p Idle = Inr (p, Idle)"
| "prefetch_step oc fetch p (Fetching current []) = Inr (p, Idle)"
| "prefetch_step oc fetch p (Fetching current (offset # offsets)) =
     bindR (u64_add oc current (word_of_nat offset)) (\<lambda>span_id.
     if (case pf_last_fetched_span p of None \<Rightarrow> False | Some latest \<Rightarrow> span_id \<le> latest)
     then Inr (p, Fetching current offsets)
     else
       (let (p', fetched) = fetch_and_cache_span fetch p span_id
        in if fetched then Inr (p'\<lparr>pf_last_fetched_span := Some span_id\<rparr>, Fetching current offsets)
           else Inr (p', Idle)))"

text \<open>The id that the next step of the prefetcher asks for.\<close>

fun asks :: "prefetcher \<Rightarrow> task \<Rightarrow> u64 option" where
  "asks p NotStarted = Some 0"
| "asks p (Fetching current (offset # offsets)) =
     (let span_id = current + word_of_nat offset
      in if (case pf_last_fetched_span p of None \<Rightarrow> False | Some latest \<Rightarrow> span_id \<le> latest) then None
         else Some span_id)"
| "asks p _ = None"

definition insertions :: "span_fetch \<Rightarrow> prefetcher \<Rightarrow> task \<Rightarrow> 'tx engine_call list" where
  "insertions fetch p t =
     (case asks p t of
        None \<Rightarrow> []
      | Some i \<Rightarrow> (case fetch i of Inr s \<Rightarrow> [CallInsertSpan s] | Inl _ \<Rightarrow> []))"

inductive sys_step ::
    "(span_fetch \<Rightarrow> bool) \<Rightarrow> bool \<Rightarrow> ('sig, 'tx) env \<Rightarrow> prefetcher \<times> task \<times> 'tx engine_call list \<Rightarrow>
     prefetcher \<times> task \<times> 'tx engine_call list \<Rightarrow> bool" for ok oc E where
  prefetch: "ok fetch \<Longrightarrow> prefetch_step oc fetch p t = Inr (p', t') \<Longrightarrow>
    sys_step ok oc E (p, t, calls) (p', t', calls @ insertions fetch p t)"
| poll: "span_id_at n (pf_span_size p) = Inr current \<Longrightarrow>
    sys_step ok oc E (p, Idle, calls) (p, Fetching current [0..<Suc PREFETCH_AHEAD], calls)"
| validate: "engine_pre_execution E (pf_consensus p) h b = (e, r) \<Longrightarrow>
    sys_step ok oc E (p, t, calls) (p\<lparr>pf_consensus := e\<rparr>, t, calls @ [CallPreExecution h b])"

abbreviation sys_start :: "prefetcher \<times> task \<times> 'tx engine_call list" where
  "sys_start \<equiv> (prefetcher_new bor_consensus_new, NotStarted, [])"

abbreviation sys_reach ::
    "(span_fetch \<Rightarrow> bool) \<Rightarrow> bool \<Rightarrow> ('sig, 'tx) env \<Rightarrow> prefetcher \<times> task \<times> 'tx engine_call list \<Rightarrow> bool" where
  "sys_reach ok oc E s \<equiv> (sys_step ok oc E)\<^sup>*\<^sup>* sys_start s"

text \<open>The spans that calls insert, the latest first.\<close>

definition inserted_spans :: "'tx engine_call list \<Rightarrow> span list" where
  "inserted_spans calls = rev (List.map_filter (\<lambda>call. case call of CallInsertSpan s \<Rightarrow> Some s | _ \<Rightarrow> None) calls)"

section \<open>Lemmas: a step of the prefetcher\<close>

lemma inserted_spans_simps [simp]:
  "inserted_spans [] = []"
  "inserted_spans (calls @ [CallInsertSpan s]) = s # inserted_spans calls"
  "inserted_spans (calls @ [CallPreExecution h b]) = inserted_spans calls"
  by (simp_all add: inserted_spans_def map_filter_def)

lemma fetch_and_cache_eq:
  "fetch_and_cache_span fetch p i =
     (case fetch i of
        Inr s \<Rightarrow> (p\<lparr>pf_consensus := engine_insert_span (pf_consensus p) s\<rparr>, True)
      | Inl _ \<Rightarrow> (p, False))"
  by (simp add: fetch_and_cache_span_def split: sum.splits heimdall_error.splits)

text \<open>What one step does to the engine and to the last fetched span.\<close>

lemma prefetch_step_cases:
  assumes "prefetch_step oc fetch p t = Inr (p', t')"
  shows "(insertions fetch p t = ([] :: 'tx engine_call list) \<and> pf_consensus p' = pf_consensus p \<and>
      pf_last_fetched_span p' = pf_last_fetched_span p) \<or>
    (\<exists>i s. insertions fetch p t = [CallInsertSpan s :: 'tx engine_call] \<and> asks p t = Some i \<and>
      fetch i = Inr s \<and> pf_consensus p' = engine_insert_span (pf_consensus p) s \<and>
      pf_last_fetched_span p' = (if t = NotStarted then pf_last_fetched_span p else Some i))"
proof (cases t)
  case NotStarted
  with assms show ?thesis by (auto simp: fetch_and_cache_eq insertions_def split: sum.splits)
next
  case Idle
  with assms show ?thesis by (simp add: insertions_def)
next
  case (Fetching current offsets)
  show ?thesis
  proof (cases offsets)
    case Nil
    with assms Fetching show ?thesis by (simp add: insertions_def)
  next
    case (Cons k ks)
    with assms Fetching obtain i where i: "u64_add oc current (word_of_nat k) = Inr i"
      by (auto simp: bindR_eq_Inr)
    then have "i = current + word_of_nat k" by (simp add: u64_add_def split: if_splits)
    with i assms Fetching Cons show ?thesis
      by (auto simp: fetch_and_cache_eq insertions_def Let_def split: sum.splits if_splits)
  qed
qed

lemma asks_beyond:
  assumes "asks p t = Some i" and "t \<noteq> NotStarted" and "pf_last_fetched_span p = Some l"
  shows "unat l < unat i"
proof (cases "(p, t)" rule: asks.cases)
  case (2 p' current k ks)
  with assms show ?thesis by (auto simp: Let_def word_le_nat_alt not_le split: if_splits)
qed (use assms in auto)

section \<open>Lemmas: interleavings\<close>

lemma run_calls_snoc: "fst (run_calls step s (calls @ [call])) = fst (step (fst (run_calls step s calls)) call)"
  by (simp add: run_calls_append split_beta)

lemma sys_reach_calls:
  fixes calls :: "'tx engine_call list"
  assumes "sys_reach ok oc E (p, t, calls)"
  shows "pf_consensus p = fst (run_calls (engine_apply E) bor_consensus_new calls)"
  using assms
proof (induction "(p, t, calls)" arbitrary: p t calls rule: rtranclp_induct)
  case base
  then show ?case by (simp add: prefetcher_new_def)
next
  case (step s)
  obtain q u cs where s: "s = (q, u, cs)" by (cases s) auto
  have IH: "pf_consensus q = fst (run_calls (engine_apply E) bor_consensus_new cs)" by (rule step.hyps(3) [OF s])
  from step.hyps(2)[unfolded s] show ?case
  proof cases
    case (prefetch fetch)
    from prefetch_step_cases [OF prefetch(3), where 'tx = 'tx] prefetch(1) IH show ?thesis by (auto simp: run_calls_snoc)
  next
    case (poll n current)
    with IH show ?thesis by simp
  next
    case (validate h b e r)
    with IH show ?thesis by (simp add: run_calls_snoc)
  qed
qed

lemma look_insert_room:
  assumes "sc_inv c" and "sp_id s \<in> set (sc_access_order c) \<or> length (sc_access_order c) < sc_max_size c"
  shows "span_cache_look (span_cache_insert c s) j = (if j = sp_id s then Some s else span_cache_look c j)"
  using assms ss.look_ins_same [OF assms(1), of s]
  by (auto simp: insert_cases sc_inv_keys evicted_id touch_simps sc_inv_def span_cache_look_def hm_get_insert)

text \<open>What calls on a new engine keep of the cache.\<close>

lemma cache_after_call:
  "bc_span_cache (fst (engine_apply E e (CallInsertSpan s))) = span_cache_insert (bc_span_cache e) s"
  "bc_span_cache (fst (engine_apply E e (CallPreExecution h b))) = bc_span_cache e \<or>
   bc_span_cache (fst (engine_apply E e (CallPreExecution h b))) =
     fst (span_cache_get (bc_span_cache e) (hd_number h div 6400))"
  by (auto simp: engine_insert_span_def engine_pre_execution_eq Let_def record_signer_def split: sum.splits option.splits)

lemma calls_cache_inv:
  "sc_inv (bc_span_cache (fst (run_calls (engine_apply E) bor_consensus_new calls))) \<and>
   sc_max_size (bc_span_cache (fst (run_calls (engine_apply E) bor_consensus_new calls))) = 64"
proof (induction calls rule: rev_induct)
  case Nil
  then show ?case using sc_inv_new [of 64] by (simp add: bor_consensus_new_def span_cache_new_def)
next
  case (snoc call calls)
  let ?e = "fst (run_calls (engine_apply E) bor_consensus_new calls)"
  have inv: "sc_inv (bc_span_cache ?e)" "sc_max_size (bc_span_cache ?e) = 64" using snoc by auto
  show ?case
  proof (cases call)
    case (CallInsertSpan s)
    with inv show ?thesis by (simp add: run_calls_snoc engine_insert_span_def max_size_insert sc_inv_insert)
  next
    case (CallPreExecution h b)
    with inv cache_after_call(2) [of E ?e h b] show ?thesis
      by (auto simp: run_calls_snoc simp del: engine_apply.simps)
  qed
qed

text \<open>With at most 64 span ids nothing is ever evicted.\<close>

lemma calls_look:
  assumes "card (sp_id ` set (inserted_spans calls)) \<le> 64"
  shows "span_cache_look (bc_span_cache (fst (run_calls (engine_apply E) bor_consensus_new calls))) i =
    find (\<lambda>s. sp_id s = i) (inserted_spans calls)"
  using assms
proof (induction calls arbitrary: i rule: rev_induct)
  case Nil
  then show ?case by (simp add: bor_consensus_new_def span_cache_look_def span_cache_new_def)
next
  case (snoc call calls)
  let ?c = "bc_span_cache (fst (run_calls (engine_apply E) bor_consensus_new calls))"
  have inv: "sc_inv ?c" "sc_max_size ?c = 64" using calls_cache_inv by auto
  show ?case
  proof (cases call)
    case (CallPreExecution h b)
    then have IH: "span_cache_look ?c i = find (\<lambda>s. sp_id s = i) (inserted_spans calls)"
      using snoc.prems by (intro snoc.IH) simp
    then show ?thesis
      using cache_after_call(2) [of E "fst (run_calls (engine_apply E) bor_consensus_new calls)" h b]
        ss.look_get [OF inv(1)] CallPreExecution
      by (auto simp: run_calls_snoc simp del: engine_apply.simps)
  next
    case (CallInsertSpan s)
    let ?ids = "sp_id ` set (inserted_spans calls)"
    have le: "card (insert (sp_id s) ?ids) \<le> 64" using snoc.prems CallInsertSpan by simp
    then have IH: "span_cache_look ?c j = find (\<lambda>s. sp_id s = j) (inserted_spans calls)" for j
      using card_mono [of "insert (sp_id s) ?ids" ?ids] by (intro snoc.IH) (meson List.finite_set
        dual_order.trans finite_imageI finite_insert subset_insertI)
    have keys: "j \<in> set (sc_access_order ?c) \<longleftrightarrow> j \<in> ?ids" for j
      using IH [of j] sc_inv_keys [OF inv(1), of j]
      by (auto simp: span_cache_look_def hm_contains_def find_None_iff)
    have "set (sc_access_order ?c) = ?ids" using keys by blast
    moreover have "distinct (sc_access_order ?c)" using inv(1) by (simp add: sc_inv_def)
    ultimately have "length (sc_access_order ?c) = card ?ids" using distinct_card by metis
    then have "sp_id s \<in> set (sc_access_order ?c) \<or> length (sc_access_order ?c) < sc_max_size ?c"
      using le inv(2) keys by (auto simp: card_insert_if split: if_splits)
    from look_insert_room [OF inv(1) this] IH CallInsertSpan show ?thesis
      by (auto simp: run_calls_snoc cache_after_call(1) simp del: engine_apply.simps)
  qed
qed

text \<open>A span that is gone and not beyond the last fetched one.\<close>

definition lost :: "u64 \<Rightarrow> prefetcher \<Rightarrow> task \<Rightarrow> bool" where
  "lost i p t \<longleftrightarrow>
     t \<noteq> NotStarted \<and> sc_inv (pf_cache p) \<and> span_cache_look (pf_cache p) i = None \<and>
     (case pf_last_fetched_span p of None \<Rightarrow> False | Some l \<Rightarrow> unat i \<le> unat l)"

lemma prefetch_step_started: "prefetch_step oc fetch p t = Inr (p', t') \<Longrightarrow> t' \<noteq> NotStarted"
  by (cases "(oc, fetch, p, t)" rule: prefetch_step.cases) (auto simp: bindR_eq_Inr Let_def split: if_splits prod.splits)

lemma lost_step:
  fixes calls :: "'tx engine_call list"
  assumes "sys_step honest oc E (p, t, calls) (p', t', calls')" and "lost i p t"
  shows "lost i p' t'"
  using assms(1)
proof cases
  case (prefetch fetch)
  have inv: "sc_inv (pf_cache p)" using assms(2) by (simp add: lost_def)
  from prefetch_step_cases [OF prefetch(3), where 'tx = 'tx] show ?thesis
  proof (elim disjE exE conjE)
    assume "pf_consensus p' = pf_consensus p" and "pf_last_fetched_span p' = pf_last_fetched_span p"
    with assms(2) prefetch_step_started [OF prefetch(3)] show ?thesis by (simp add: lost_def)
  next
    fix j s
    assume j: "asks p t = Some j" "fetch j = Inr s" "pf_consensus p' = engine_insert_span (pf_consensus p) s"
      "pf_last_fetched_span p' = (if t = NotStarted then pf_last_fetched_span p else Some j)"
    obtain l where l: "pf_last_fetched_span p = Some l" "unat i \<le> unat l" "t \<noteq> NotStarted"
      using assms(2) by (auto simp: lost_def split: option.splits)
    then have "unat i < unat j" using asks_beyond [OF j(1) l(3,1)] by simp
    moreover have "sp_id s = j" using prefetch(2) j(2) by (simp add: honest_def)
    ultimately have "span_cache_look (pf_cache p') i = None" "unat i \<le> unat j"
      using ss.look_ins_other [OF inv, of i s] assms(2) j(3) by (auto simp: engine_insert_span_def lost_def)
    then show ?thesis
      using j(3,4) l(3) inv prefetch_step_started [OF prefetch(3)] by (auto simp: lost_def engine_insert_span_def)
  qed
next
  case (poll n current)
  with assms(2) show ?thesis by (simp add: lost_def)
next
  case (validate h b e r)
  have inv: "sc_inv (pf_cache p)" using assms(2) by (simp add: lost_def)
  show ?thesis
    using cache_after_call(2) [of E "pf_consensus p" h b] ss.look_get [OF inv] assms(2) validate
    by (auto simp: lost_def)
qed

lemma lost_steps:
  assumes "(sys_step honest oc E)\<^sup>*\<^sup>* s s'" and "lost i (fst s) (fst (snd s))"
  shows "lost i (fst s') (fst (snd s'))"
  using assms
proof (induction rule: rtranclp_induct)
  case base
  then show ?case by simp
next
  case (step y z)
  then show ?case by (cases y; cases z) (auto dest: lost_step)
qed

lemma inserted_sized:
  assumes "\<forall>s\<in>set (inserted_spans calls). length (authorized_signers s) < 2 ^ 64"
  shows "\<forall>call\<in>set calls. sized_call call"
proof
  fix call
  assume mem: "call \<in> set calls"
  show "sized_call call"
  proof (cases call)
    case (CallInsertSpan s)
    with mem have "s \<in> set (inserted_spans calls)" by (force simp: inserted_spans_def map_filter_def)
    with assms CallInsertSpan show ?thesis by simp
  qed simp
qed

lemma sys_policy:
  assumes "sys_reach ok oc E (p, t, calls)" and "\<forall>s\<in>set (inserted_spans calls). length (authorized_signers s) < 2 ^ 64"
  shows "policy_rel (pf_consensus p) (fst (run_calls (policy_apply E) policy_new calls))"
  unfolding sys_reach_calls [OF assms(1)]
  by (rule engine_policy.run_simulates(1) [OF policy_rel_new inserted_sized [OF assms(2)]])

section \<open>Properties\<close>

text \<open>
  C12. The interleaved system authorizes: as long as spans of at most 64 ids have been inserted,
  whatever the order of polls, requests, insertions and validations and whatever spans the clients
  answer with, a block whose span was
  inserted is accepted if and only if its signer is a validator of the last inserted version
  of that span and has not signed within the window; a block whose span never arrived is
  accepted with any recoverable signer.
\<close>

theorem system_authorizes:
  assumes "sys_reach ok oc E (p, t, calls)" and "\<forall>s\<in>set (inserted_spans calls). length (authorized_signers s) < 2 ^ 64"
    and "card (sp_id ` set (inserted_spans calls)) \<le> 64"
  shows "snd (engine_pre_execution E (pf_consensus p) h b) = Inr () \<longleftrightarrow>
     (\<exists>a. block_signer E h b = Inr a \<and>
        (case find (\<lambda>s. sp_id s = hd_number h div 6400) (inserted_spans calls) of
           None \<Rightarrow> True
         | Some s \<Rightarrow> a \<in> set (authorized_signers s) \<and>
             (\<nexists>k. unat (hd_number h) - (length (authorized_signers s) div 2 + 1) \<le> unat k \<and>
                unat k < unat (hd_number h) \<and> bt_get (rc_signers (bc_recents (pf_consensus p))) k = Some a)))"
proof -
  have p: "pf_consensus p = fst (run_calls (engine_apply E) bor_consensus_new calls)"
    by (rule sys_reach_calls [OF assms(1)])
  note sys_policy [OF assms(1,2)]
  then have inv: "bt_inv (rc_signers (bc_recents (pf_consensus p)))" "sc_inv (pf_cache p)"
    by (simp_all add: policy_rel_def)
  have look: "span_cache_look (pf_cache p) i = find (\<lambda>s. sp_id s = i) (inserted_spans calls)" for i
    unfolding p by (rule calls_look [OF assms(3)])
  have "length (authorized_signers s) < 2 ^ 64" if "span_cache_look (pf_cache p) (hd_number h div 6400) = Some s" for s
    using that assms(2) by (auto simp: look find_Some_iff)
  from engine_pre_execution_accepts [OF inv this] show ?thesis
    unfolding look signed_in_window_def sign_window_def .
qed

text \<open>
  C30. A lost span stays lost: with clients that answer with the span asked for, if with any, once
  the prefetcher has fetched beyond a span that is not in the
  cache, evicted or never fetched, no later step brings it back, and from then on every block
  of that span is accepted whoever signed it.
\<close>

theorem lost_span_unchecked:
  assumes "sys_reach honest oc E (p, t, calls)" and "t \<noteq> NotStarted"
    and "pf_last_fetched_span p = Some l" and "unat i \<le> unat l"
    and "\<not> span_cache_contains (bc_span_cache (pf_consensus p)) i"
    and "(sys_step honest oc E)\<^sup>*\<^sup>* (p, t, calls) (p', t', calls')"
    and "hd_number h div 6400 = i" and "block_signer E h b = Inr a"
  shows "\<not> span_cache_contains (bc_span_cache (pf_consensus p')) i \<and>
    snd (engine_pre_execution E (pf_consensus p') h b) = Inr ()"
proof -
  have "sc_inv (pf_cache p)" using calls_cache_inv sys_reach_calls [OF assms(1)] by metis
  then have "lost i p t"
    using assms(2-5) by (simp add: lost_def span_cache_contains_def span_cache_look_def hm_contains_def)
  then have "lost i p' t'" using lost_steps [OF assms(6), of i] by simp
  then have none: "snd (span_cache_get (pf_cache p') i) = None" "span_cache_look (pf_cache p') i = None"
    using ss.get_look [of "pf_cache p'" i] by (simp_all add: lost_def)
  then show ?thesis
    using assms(7,8)
    by (simp add: engine_pre_execution_eq span_cache_contains_def hm_contains_def span_cache_look_def)
qed

section \<open>Witnesses\<close>

text \<open>
  Span 0 of the validators 7, 8 and 9 arrives, a block of 8 is validated between two steps of
  the prefetcher, and the pass ends at the first missing span.
\<close>

definition demo_fetch :: span_fetch where
  "demo_fetch = mock_fetch_span (mock_of [span_789])"

lemma demo_fetch_facts [simp]: "honest demo_fetch" "demo_fetch 0 = Inr span_789" "i \<noteq> 0 \<Longrightarrow> demo_fetch i = Inl NotFound"
  by (auto simp: demo_fetch_def honest_mock mock_fetch_of ok_or_def)

lemma demo_start:
  "sys_step honest oc E sys_start (fst (fetch_and_cache_span demo_fetch (prefetcher_new bor_consensus_new) 0), Idle, [CallInsertSpan span_789])"
  using sys_step.prefetch [of honest demo_fetch oc "prefetcher_new bor_consensus_new" NotStarted _ _ E "[]"]
  by (simp add: insertions_def)

lemma demo_engine:
  "pf_consensus (fst (fetch_and_cache_span demo_fetch (prefetcher_new bor_consensus_new) 0)) = engine_789"
  by (simp add: fetch_and_cache_eq prefetcher_new_def engine_789_def)

lemma demo_interleaving:
  "\<exists>p t. sys_reach honest True demo_env (p, t, [CallInsertSpan span_789, CallPreExecution (demo_block 10 8) demo_body])"
proof -
  let ?p = "fst (fetch_and_cache_span demo_fetch (prefetcher_new bor_consensus_new) 0)"
  let ?calls = "[CallInsertSpan span_789] :: unit engine_call list"
  have "sys_step honest True demo_env (?p, Idle, ?calls) (?p, Fetching 0 [0..<Suc PREFETCH_AHEAD], ?calls)"
    by (rule sys_step.poll [of 10])
      (simp add: fetch_and_cache_eq prefetcher_new_def span_id_at_def u64_div_def)
  moreover obtain e r where "engine_pre_execution demo_env (pf_consensus ?p) (demo_block 10 8) demo_body = (e, r)"
    by fastforce
  from sys_step.validate [OF this, of honest True "Fetching 0 [0..<Suc PREFETCH_AHEAD]" ?calls]
  have "sys_step honest True demo_env (?p, Fetching 0 [0..<Suc PREFETCH_AHEAD], ?calls)
      (?p\<lparr>pf_consensus := e\<rparr>, Fetching 0 [0..<Suc PREFETCH_AHEAD], ?calls @ [CallPreExecution (demo_block 10 8) demo_body])" .
  ultimately have "sys_reach honest True demo_env
      (?p\<lparr>pf_consensus := e\<rparr>, Fetching 0 [0..<Suc PREFETCH_AHEAD], ?calls @ [CallPreExecution (demo_block 10 8) demo_body])"
    using demo_start [of True demo_env] by (meson rtranclp.rtrancl_into_rtrancl rtranclp.rtrancl_refl)
  then show ?thesis by auto
qed

theorem system_authorizes_witness:
  "\<exists>p t. sys_reach honest True demo_env (p, t, [CallInsertSpan span_789, CallPreExecution (demo_block 10 8) demo_body]) \<and>
     snd (engine_pre_execution demo_env (pf_consensus p) (demo_block 6400 6) demo_body) = Inr () \<and>
     snd (engine_pre_execution demo_env (pf_consensus p) (demo_block 100 6) demo_body) \<noteq> Inr ()"
proof -
  let ?calls = "[CallInsertSpan span_789, CallPreExecution (demo_block 10 8) demo_body]"
  obtain p t where r: "sys_reach honest True demo_env (p, t, ?calls)" using demo_interleaving by blast
  have ins: "inserted_spans ?calls = [span_789]" by (simp add: inserted_spans_def map_filter_simps)
  show ?thesis
    using r system_authorizes [OF r, of "demo_block 6400 6" demo_body] system_authorizes [OF r, of "demo_block 100 6" demo_body]
    by (auto simp: ins demo_signer)
qed

text \<open>A node whose first poll is at block 700000 never learns span 5.\<close>

definition late_fetch :: span_fetch where
  "late_fetch = mock_fetch_span (mock_of [span_789\<lparr>sp_id := 109\<rparr>])"

lemma late_fetch_facts [simp]:
  "honest late_fetch" "late_fetch 109 = Inr (span_789\<lparr>sp_id := 109\<rparr>)" "late_fetch 0 = Inl NotFound"
  by (auto simp: late_fetch_def honest_mock mock_fetch_of ok_or_def)

theorem lost_span_unchecked_witness:
  "\<exists>p t calls. sys_reach honest True demo_env (p, t, calls) \<and> pf_last_fetched_span p = Some 109 \<and>
     snd (engine_pre_execution demo_env (pf_consensus p) (demo_block 32000 6) demo_body) = Inr ()"
proof -
  let ?new = "prefetcher_new bor_consensus_new" and ?s = "span_789\<lparr>sp_id := 109\<rparr>"
  let ?p = "fetched_state ?new ?s 109" and ?c = "[CallInsertSpan ?s] :: unit engine_call list"
  have offs: "[0..<Suc PREFETCH_AHEAD] = [0, 1, 2]" by (simp add: upt_rec)
  have "sys_step honest True demo_env sys_start (?new, Idle, [])"
    using sys_step.prefetch [of honest late_fetch True ?new NotStarted _ _ demo_env "[]"]
    by (simp add: insertions_def fetch_and_cache_eq)
  moreover have "sys_step honest True demo_env (?new, Idle, []) (?new, Fetching 109 [0..<Suc PREFETCH_AHEAD], [])"
    by (rule sys_step.poll [of 700000]) (simp add: prefetcher_new_def span_id_at_def u64_div_def)
  moreover have "sys_step honest True demo_env (?new, Fetching 109 [0..<Suc PREFETCH_AHEAD], []) (?p, Fetching 109 [1, 2], ?c)"
    unfolding offs using sys_step.prefetch [of honest late_fetch True ?new "Fetching 109 [0, 1, 2]" ?p "Fetching 109 [1, 2]" demo_env "[]"]
    by (simp add: insertions_def fetch_and_cache_eq fetched_state_def prefetcher_new_def u64_add_def)
  ultimately have r: "sys_reach honest True demo_env (?p, Fetching 109 [1, 2], ?c)"
    by (meson rtranclp.rtrancl_into_rtrancl rtranclp.rtrancl_refl)
  have l: "pf_last_fetched_span ?p = Some 109" by (simp add: fetched_state_def)
  have look: "span_cache_look (pf_cache ?p) 5 = None"
    using ss.look_ins_other [OF sc_inv_new, of 5 ?s 64]
    by (auto simp: fetched_state_def prefetcher_new_def engine_insert_span_def bor_consensus_new_def
        span_cache_look_def span_cache_new_def)
  have "snd (engine_pre_execution demo_env (pf_consensus ?p) (demo_block 32000 6) demo_body) = Inr ()"
    using lost_span_unchecked [OF r _ l, of 5 ?p "Fetching 109 [1, 2]" ?c "demo_block 32000 6" demo_body 6] look
    by (auto simp: demo_signer span_cache_contains_def hm_contains_def span_cache_look_def)
  with r l show ?thesis by blast
qed

end
