(* ===== verification/Consensus_Runs.thy ===== *)
theory Consensus_Runs
  imports Consensus_System
begin

text \<open>
  What holds in every state of the interleaved system of \<open>Consensus_System\<close>: the data of the
  engine is well formed and comes from spans that were inserted.
\<close>

section \<open>Well-formed engines\<close>

text \<open>
  The second argument lists the inserted spans, the latest first. A cached span is the latest
  one inserted under its id, and a logged signer is a validator of some inserted span of its
  block.
\<close>

definition engine_typed :: "bor_consensus \<Rightarrow> span list \<Rightarrow> bool" where
  "engine_typed e hist \<longleftrightarrow>
     sc_inv (bc_span_cache e) \<and> sc_max_size (bc_span_cache e) = 64 \<and> ss.latest (bc_span_cache e) hist \<and>
     bt_inv (rc_signers (bc_recents e)) \<and>
     (\<forall>(k, a)\<in>set (rc_signers (bc_recents e)). \<exists>s\<in>set hist. sp_id s = k div 6400 \<and> a \<in> set (authorized_signers s))"

lemma set_bt_insert: "set (bt_insert k v m) \<subseteq> insert (k, v) (set m)"
  by (induction m) auto

lemma set_recorded: "set (rc_signers (bc_recents (record_signer e n a signers))) \<subseteq> insert (n, a) (set (rc_signers (bc_recents e)))"
  using set_bt_insert [of n a] by (auto simp: record_signer_def recents_prune_def recents_add_signer_def bt_split_off_def)

lemma check_signer_member: "check_signer E e n a signers = Inr u \<Longrightarrow> a \<in> set signers"
  by (auto simp: check_signer_def bindR_eq_Inr)

lemma engine_typed_new: "engine_typed bor_consensus_new []"
  using sc_inv_new [of 64]
  by (simp add: engine_typed_def bor_consensus_new_def span_cache_new_def ss.latest_def span_cache_look_def recents_new_def)

lemma engine_typed_insert: "engine_typed e hist \<Longrightarrow> engine_typed (engine_insert_span e s) (s # hist)"
  unfolding engine_typed_def
  using ss.latest_ins [of "bc_span_cache e" hist s]
  by (auto simp: engine_insert_span_def sc_inv_insert max_size_insert)

lemma engine_typed_pre_execution:
  assumes "engine_typed e hist"
  shows "engine_typed (fst (engine_pre_execution E e h b)) hist"
proof -
  let ?i = "hd_number h div 6400"
  have inv: "sc_inv (bc_span_cache e)" "ss.latest (bc_span_cache e) hist" using assms by (simp_all add: engine_typed_def)
  have get: "engine_typed (e\<lparr>bc_span_cache := fst (span_cache_get (bc_span_cache e) ?i)\<rparr>) hist" (is "engine_typed ?e1 _")
    using assms ss.latest_get [OF inv] by (simp add: engine_typed_def sc_inv_get)
  have "engine_typed (record_signer ?e1 (hd_number h) a (authorized_signers s)) hist"
    if "snd (span_cache_get (bc_span_cache e) ?i) = Some s" and "a \<in> set (authorized_signers s)" for a s
  proof -
    have "s \<in> set hist" "sp_id s = ?i"
      using that(1) ss.get_look [OF inv(1)] ss.latest_lookup_id [OF inv(2)] by auto
    then show ?thesis
      using get that(2) set_recorded [of ?e1 "hd_number h" a "authorized_signers s"]
      by (fastforce simp: engine_typed_def record_signer_def recents_inv_record)
  qed
  with assms get show ?thesis
    by (auto simp: engine_pre_execution_eq Let_def dest: check_signer_member split: sum.splits option.splits)
qed

lemma engine_typed_calls:
  "engine_typed (fst (run_calls (engine_apply E) bor_consensus_new calls)) (inserted_spans calls)"
proof (induction calls rule: rev_induct)
  case Nil
  then show ?case by (simp add: engine_typed_new inserted_spans_def map_filter_simps)
next
  case (snoc call calls)
  then show ?case
    by (cases call) (simp_all add: run_calls_snoc engine_typed_insert engine_typed_pre_execution)
qed

section \<open>Properties\<close>

text \<open>
  C14. The engine's data is well formed in every state of every interleaving, whatever the
  clients answer, a span of another id included: the span map and the access order list the same ids once each, at most 64 of
  them; every span is stored under its own id and is the last one inserted with it; the
  signer log has its blocks in strictly increasing order; and every logged signer is a
  validator of a span that was inserted for its block.
\<close>

theorem system_well_formed:
  assumes "sys_reach ok oc E (p, t, calls)"
  shows "(let c = bc_span_cache (pf_consensus p); log = rc_signers (bc_recents (pf_consensus p)) in
     distinct (map fst (sc_spans c)) \<and> distinct (sc_access_order c) \<and>
     set (sc_access_order c) = fst ` set (sc_spans c) \<and> length (sc_access_order c) \<le> 64 \<and>
     (\<forall>(i, s)\<in>set (sc_spans c). sp_id s = i \<and> find (\<lambda>s'. sp_id s' = i) (inserted_spans calls) = Some s) \<and>
     sorted_wrt (<) (map fst log) \<and>
     (\<forall>(k, a)\<in>set log. \<exists>s\<in>set (inserted_spans calls). sp_id s = k div 6400 \<and> a \<in> set (authorized_signers s)))"
proof -
  have ty: "engine_typed (pf_consensus p) (inserted_spans calls)"
    unfolding sys_reach_calls [OF assms] by (rule engine_typed_calls)
  then have inv: "sc_inv (pf_cache p)" "ss.latest (pf_cache p) (inserted_spans calls)" by (simp_all add: engine_typed_def)
  have "find (\<lambda>s'. sp_id s' = i) (inserted_spans calls) = Some s" if "(i, s) \<in> set (sc_spans (pf_cache p))" for i s
    using that inv by (simp add: ss.latest_def span_cache_look_def hm_get_def sc_inv_def hm_inv_def)
  with ty inv(1) show ?thesis
    by (auto simp: engine_typed_def sc_inv_def hm_inv_def bt_inv_def Let_def)
qed

section \<open>Witnesses\<close>

theorem system_well_formed_witness:
  "\<exists>p t. sys_reach honest True demo_env (p, t, [CallInsertSpan span_789, CallPreExecution (demo_block 10 8) demo_body]) \<and>
     length (sc_access_order (bc_span_cache (pf_consensus p))) \<le> 64 \<and>
     sorted_wrt (<) (map fst (rc_signers (bc_recents (pf_consensus p))))"
proof -
  obtain p t where r: "sys_reach honest True demo_env (p, t, [CallInsertSpan span_789, CallPreExecution (demo_block 10 8) demo_body])"
    using demo_interleaving by blast
  from system_well_formed [OF r] r show ?thesis unfolding Let_def by blast
qed

end
