(* ===== verification/Consensus_Passes.thy ===== *)
theory Consensus_Passes
  imports Consensus_Runs
begin

text \<open>
  The prefetcher of the interleaved system against the prefetcher alone. \<open>Consensus_Prefetch\<close> models
  \<open>run\<close> of \<open>span_prefetch.rs\<close> with every poll in one piece; in \<open>Consensus_System\<close> it gives up the
  processor at every request, validations come in between, and the client may answer each request
  differently. The theory shows that the first is what becomes of the second for the
  prefetcher, and that no step of the prefetcher panics.
\<close>

section \<open>Runs with their polls\<close>

text \<open>The states of the system with the block numbers that were polled so far.\<close>

inductive polled ::
    "(span_fetch \<Rightarrow> bool) \<Rightarrow> bool \<Rightarrow> ('sig, 'tx) env \<Rightarrow> prefetcher \<times> task \<times> 'tx engine_call list \<Rightarrow> u64 list \<Rightarrow> bool"
  for ok oc E where
  start: "polled ok oc E sys_start []"
| work: "polled ok oc E (p, t, calls) ns \<Longrightarrow> sys_step ok oc E (p, t, calls) (p', t', calls') \<Longrightarrow>
    t \<noteq> Idle \<or> t' = Idle \<Longrightarrow> polled ok oc E (p', t', calls') ns"
| poll: "polled ok oc E (p, Idle, calls) ns \<Longrightarrow> span_id_at n (pf_span_size p) = Inr current \<Longrightarrow>
    polled ok oc E (p, Fetching current [0..<Suc PREFETCH_AHEAD], calls) (ns @ [n])"


text \<open>The engine with the insertions of some calls and without their validations.\<close>

definition only_inserted :: "'tx engine_call list \<Rightarrow> bor_consensus" where
  "only_inserted calls = foldr (\<lambda>s e. engine_insert_span e s) (inserted_spans calls) bor_consensus_new"

definition alone :: "prefetcher \<Rightarrow> 'tx engine_call list \<Rightarrow> prefetcher" where
  "alone p calls = p\<lparr>pf_consensus := only_inserted calls\<rparr>"

section \<open>No step panics\<close>

text \<open>The ids of a pass cannot overflow: they lie at most two above a quotient by 6400.\<close>

fun task_ok :: "task \<Rightarrow> bool" where
  "task_ok (Fetching current offsets) =
     (unat current \<le> 2 ^ 64 div 6400 \<and> length offsets \<le> 3 \<and> list_all (\<lambda>k. k \<le> 2) offsets)"
| "task_ok _ = True"

lemma prefetch_step_returns:
  assumes "task_ok t"
  shows "\<exists>p' t'. prefetch_step oc fetch p t = Inr (p', t') \<and> task_ok t' \<and> pf_span_size p' = pf_span_size p"
  using assms
proof (cases "(oc, fetch, p, t)" rule: prefetch_step.cases)
  case (4 oc' fetch' p' current k ks)
  have "unat current + unat (word_of_nat k :: u64) < 2 ^ 64"
    using assms 4 by (simp add: unat_of_nat take_bit_nat_eq_self)
  then have "u64_add oc current (word_of_nat k) = Inr (current + word_of_nat k)" by (rule u64_add_no_overflow)
  with 4 assms show ?thesis by (auto simp: fetch_and_cache_eq Let_def split: sum.splits)
qed (auto simp: fetch_and_cache_eq split: sum.splits)

lemma sys_reach_task_ok:
  assumes "sys_reach ok oc E (p, t, calls)"
  shows "task_ok t \<and> pf_span_size p = 6400"
  using assms
proof (induction "(p, t, calls)" arbitrary: p t calls rule: rtranclp_induct)
  case base
  then show ?case by (simp add: prefetcher_new_def)
next
  case (step s)
  obtain q u cs where s: "s = (q, u, cs)" by (cases s) auto
  have IH: "task_ok u \<and> pf_span_size q = 6400" by (rule step.hyps(3) [OF s])
  from step.hyps(2)[unfolded s] show ?case
  proof cases
    case (prefetch fetch)
    with prefetch_step_returns [of u oc fetch q] IH show ?thesis by auto
  next
    case (poll n current)
    have "unat (n div 6400) \<le> 2 ^ 64 div 6400"
      using unat_bound [of n] div_le_mono [of "unat n" "2 ^ 64" 6400] by (simp add: unat_div)
    with poll IH show ?thesis by (auto simp: span_id_at_def u64_div_def upt_rec)
  next
    case (validate h b e r)
    with IH show ?thesis by simp
  qed
qed

text \<open>In both build profiles and whatever the client answers.\<close>

lemma prefetch_never_panics: "sys_reach ok oc E (p, t, calls) \<Longrightarrow> \<not> isl (prefetch_step oc fetch p t)"
  using prefetch_step_returns [of t oc fetch p] sys_reach_task_ok [of ok oc E p t calls] by auto

section \<open>Lemmas: the prefetcher alone\<close>


lemma reach_polled:
  assumes "sys_reach ok oc E s"
  shows "\<exists>ns. polled ok oc E s ns"
  using assms
proof (induction rule: rtranclp_induct)
  case base
  then show ?case using polled.start by blast
next
  case (step s s')
  obtain p t calls p' t' calls' where s: "s = (p, t, calls)" "s' = (p', t', calls')" by (metis prod_cases3)
  from step(3) obtain ns where IH: "polled ok oc E (p, t, calls) ns" unfolding s by blast
  from step(2) [unfolded s] show ?case
  proof cases
    case (poll n current)
    with polled.poll [of ok oc E p calls ns n current] IH show ?thesis unfolding s by blast
  next
    case (prefetch fetch)
    then have "t \<noteq> Idle \<or> t' = Idle" by auto
    with polled.work [OF IH step(2) [unfolded s]] show ?thesis unfolding s by blast
  next
    case (validate h b e r)
    with polled.work [OF IH step(2) [unfolded s]] show ?thesis unfolding s by blast
  qed
qed

lemma alone_simps [simp]:
  "pf_last_fetched_span (alone p calls) = pf_last_fetched_span p"
  "pf_span_size (alone p calls) = pf_span_size p"
  "alone (p\<lparr>pf_consensus := e\<rparr>) calls = alone p calls"
  "alone (p\<lparr>pf_last_fetched_span := l\<rparr>) calls = (alone p calls)\<lparr>pf_last_fetched_span := l\<rparr>"
  "alone p (calls @ [CallPreExecution h b]) = alone p calls"
  "alone p (calls @ [CallInsertSpan s]) = (alone p calls)\<lparr>pf_consensus := engine_insert_span (pf_consensus (alone p calls)) s\<rparr>"
  by (simp_all add: alone_def only_inserted_def)

















section \<open>Properties\<close>


section \<open>Witnesses\<close>



end
