(* ===== verification/Consensus_Http.thy ===== *)
theory Consensus_Http
  imports Consensus_Prefetch
begin

text \<open>
  The prefetcher of \<open>span_prefetch.rs\<close> on the client of \<open>http.rs\<close>: what a flaky Heimdall server
  means for the span cache, and how long a pass sleeps between attempts. The server is the
  network parameter of \<open>Heimdall_Client\<close>; it may answer differently at every poll.
\<close>

section \<open>Model\<close>

text \<open>\<open>POLL_INTERVAL\<close>, in milliseconds.\<close>

definition POLL_INTERVAL :: nat where
  [simp]: "POLL_INTERVAL = 5000"

abbreviation http_span :: "'body json \<Rightarrow> http_client \<Rightarrow> 'body http_net \<Rightarrow> span_fetch" where
  "http_span J c N \<equiv> cl_fetch_span (http_heimdall_client N J) c"

abbreviation span_url :: "http_client \<Rightarrow> u64 \<Rightarrow> string" where
  "span_url c i \<equiv> hc_base_url c @ ''/bor/span/'' @ show_u64 i"

text \<open>The server has no wrong span: what it sends for a span id and decodes is that span.\<close>

definition server_honest :: "'body json \<Rightarrow> http_client \<Rightarrow> 'body http_net \<Rightarrow> bool" where
  "server_honest J c N \<longleftrightarrow>
     (\<forall>i k status body r. net_send N (span_url c i) k = Response status body \<longrightarrow> is_success status \<longrightarrow>
        js_span J body = Inr r \<longrightarrow> sp_id (hr_result r) = i)"

text \<open>One of the three attempts succeeds, after failures that are worth another attempt.\<close>

definition server_answers :: "'body json \<Rightarrow> http_client \<Rightarrow> 'body http_net \<Rightarrow> u64 \<Rightarrow> bool" where
  "server_answers J c N i \<longleftrightarrow>
     (\<exists>k<3. (\<forall>m<k. transient (net_send N (span_url c i) m)) \<and>
        (\<exists>status body. net_send N (span_url c i) k = Response status body \<and> is_success status \<and>
           \<not> isl (js_span J body)))"

text \<open>The span ids that a pass of a prefetcher with the default span size requests, in order.\<close>

primrec requested :: "span_fetch \<Rightarrow> u64 \<Rightarrow> nat list \<Rightarrow> prefetcher \<Rightarrow> u64 list" where
  "requested fetch current [] p = []"
| "requested fetch current (offset # offsets) p =
     (let span_id = current + word_of_nat offset in
      if (case pf_last_fetched_span p of None \<Rightarrow> False | Some latest \<Rightarrow> span_id \<le> latest)
      then requested fetch current offsets p
      else
        (let (p', fetched) = fetch_and_cache_span fetch p span_id
         in span_id #
            (if fetched then requested fetch current offsets (p'\<lparr>pf_last_fetched_span := Some span_id\<rparr>) else [])))"

definition pass_delays ::
    "'body json \<Rightarrow> http_client \<Rightarrow> 'body http_net \<Rightarrow> prefetcher \<Rightarrow> u64 \<Rightarrow> nat list" where
  "pass_delays J c N p block_number =
     concat (map (\<lambda>i. snd (http_fetch_span N (js_span J) c i))
       (requested (http_span J c N) (block_number div 6400) [0..<Suc PREFETCH_AHEAD] p))"

section \<open>Lemmas\<close>

lemma http_span_success:
  "http_span J c N i = Inr s \<longleftrightarrow>
   (\<exists>k<3. (\<forall>m<k. transient (net_send N (span_url c i) m)) \<and>
      (\<exists>status body r. net_send N (span_url c i) k = Response status body \<and> is_success status \<and>
         js_span J body = Inr r \<and> hr_result r = s))"
proof -
  have "http_span J c N i = Inr s \<longleftrightarrow>
      (\<exists>r. fst (get_with_retry N (js_span J) c (''/bor/span/'' @ show_u64 i)) = Inr r \<and> hr_result r = s)"
    by (auto simp: http_heimdall_client_def http_fetch_span_def unwrap_result_def bindR_eq_Inr)
  then show ?thesis unfolding get_with_retry_success by blast
qed

lemma http_honest: "server_honest J c N \<Longrightarrow> honest (http_span J c N)"
  unfolding honest_def http_span_success server_honest_def by blast

lemma http_serves: "serves (http_span J c N) i \<longleftrightarrow> server_answers J c N i"
proof -
  have "serves (http_span J c N) i \<longleftrightarrow> (\<exists>s. http_span J c N i = Inr s)"
    by (cases "http_span J c N i") (simp_all add: serves_def)
  then show ?thesis
    unfolding http_span_success server_answers_def by (metis isl_def sum.disc(2) sum.exhaust)
qed

lemma requested_length: "length (requested fetch current offsets p) \<le> length offsets"
proof (induction offsets arbitrary: p)
  case (Cons k ks)
  then show ?case by (auto simp: Let_def split_beta intro: le_SucI)
qed simp

lemma sum_concat_le:
  "(\<And>x. sum_list (f x) \<le> (b :: nat)) \<Longrightarrow> sum_list (concat (map f xs)) \<le> b * length xs"
proof (induction xs)
  case (Cons x xs)
  then have "sum_list (concat (map f xs)) \<le> b * length xs" and "sum_list (f x) \<le> b" by simp_all
  then show ?case by simp
qed simp

lemma request_delays: "sum_list (snd (http_fetch_span N parse c i)) \<le> 1500"
  using get_with_retry_delays [of N parse c "''/bor/span/'' @ show_u64 i"]
  by (auto simp: http_fetch_span_def unwrap_result_def)

section \<open>Properties\<close>

text \<open>
  C19. A flaky server is survived: where the server never sends a wrong span and answers the request
  for each polled span within three attempts, whatever rate limits, timeouts and server errors
  come before, polls of blocks in non-decreasing spans leave the span of the latest block
  cached, and those \<open>j\<close> spans ahead, \<open>j\<close> at most 2, that the server answers for.
\<close>

theorem http_prefetch_keeps_up:
  assumes "server_honest J c Ns"
    and "\<forall>(N, poll)\<in>set (polls @ [(M, Some n)]). server_honest J c N \<and>
      (\<forall>m. poll = Some m \<longrightarrow> server_answers J c N (m div 6400))"
    and "sorted (map (\<lambda>m. unat (m div 6400)) (List.map_filter snd (polls @ [(M, Some n)])))"
    and "j \<le> 2" and "\<forall>i\<le>j. server_answers J c M (n div 6400 + word_of_nat i)"
  shows "\<exists>p. prefetch_run oc (http_span J c Ns) (prefetcher_new bor_consensus_new)
       (map (\<lambda>(N, poll). (http_span J c N, poll)) (polls @ [(M, Some n)])) = Inr p \<and>
     span_cache_contains (bc_span_cache (pf_consensus p)) (n div 6400 + word_of_nat j)"
proof -
  let ?polls = "map (\<lambda>(N, poll). (http_span J c N, poll)) polls"
  have polled: "polled_spans (?polls @ [(http_span J c M, Some n)]) =
      map (\<lambda>m. unat (m div 6400)) (List.map_filter snd (polls @ [(M, Some n)]))"
    unfolding polled_spans_def by (simp add: List.map_filter_def filter_map split_beta comp_def)
  have good: "\<forall>poll\<in>set ?polls. good_poll poll" "good_poll (http_span J c M, Some n)"
    using assms(2) by (auto simp: good_poll_def http_serves intro!: http_honest split: option.splits)
  obtain p h where p: "prefetch_run oc (http_span J c Ns) (prefetcher_new bor_consensus_new)
        (?polls @ [(http_span J c M, Some n)]) = Inr p" "covers p (unat (n div 6400)) h" "unat (n div 6400) + j \<le> h"
    using prefetch_run_covers [OF http_honest [OF assms(1)] good, of oc] assms(3-5) polled
    by (auto simp: http_serves)
  have "span_cache_contains (pf_cache p) (word_of_nat (unat (n div 6400) + j))"
    using p(3) by (intro covers_cached [OF p(2)]) simp_all
  with p(1) show ?thesis by auto
qed

text \<open>
  A pass fits into the poll interval: whatever the server does, the requests of one pass
  sleep at most 4.5 seconds between their attempts, half a second less than the interval
  between polls.
\<close>

theorem pass_sleeps_within_poll: "sum_list (pass_delays J c N p n) \<le> 4500 \<and> 4500 < POLL_INTERVAL"
proof -
  let ?ids = "requested (http_span J c N) (n div 6400) [0..<Suc PREFETCH_AHEAD] p"
  have "sum_list (pass_delays J c N p n) \<le> 1500 * length ?ids"
    unfolding pass_delays_def by (rule sum_concat_le) (rule request_delays)
  moreover have "length ?ids \<le> 3"
    using requested_length [of "http_span J c N" "n div 6400" "[0..<Suc PREFETCH_AHEAD]" p] by simp
  ultimately show ?thesis by simp
qed

section \<open>Witnesses\<close>

text \<open>
  A server that is rate limited once and then times out once on every request, and then sends
  the span; a body is the span itself, found by the URL.
\<close>

definition flaky_net :: "span list \<Rightarrow> http_client \<Rightarrow> span http_net" where
  "flaky_net spans c =
     \<lparr>net_send = (\<lambda>url k.
        if k = 0 then Response 429 (hd spans)
        else if k = 1 then SendError True ''timed out''
        else case find (\<lambda>s. span_url c (sp_id s) = url) spans of
               None \<Rightarrow> Response 404 (hd spans) | Some s \<Rightarrow> Response 200 s),
      net_show_status = show_nat\<rparr>"

definition plain_json :: "span json" where
  "plain_json = \<lparr>js_span = (\<lambda>s. Inr \<lparr>hr_result = s\<rparr>), js_events = (\<lambda>_. Inl ''''),
     js_checkpoint = (\<lambda>_. Inl ''''), js_milestone = (\<lambda>_. Inl '''')\<rparr>"

lemma flaky_answer:
  "i \<in> sp_id ` set spans \<Longrightarrow>
   \<exists>s\<in>set spans. sp_id s = i \<and> net_send (flaky_net spans c) (span_url c i) 2 = Response 200 s"
  by (auto simp: flaky_net_def find_None_iff find_Some_iff show_u64_inj split: option.split)

lemma flaky_honest: "server_honest plain_json c (flaky_net spans c)"
  by (auto simp: server_honest_def flaky_net_def plain_json_def is_success_def find_Some_iff show_u64_inj
      split: if_splits option.splits)

lemma flaky_answers: "i \<in> sp_id ` set spans \<Longrightarrow> server_answers plain_json c (flaky_net spans c) i"
proof -
  assume "i \<in> sp_id ` set spans"
  then obtain s where "net_send (flaky_net spans c) (span_url c i) 2 = Response 200 s" using flaky_answer by blast
  moreover have "transient (net_send (flaky_net spans c) (span_url c i) m)" if "m < 2" for m
    using that by (auto simp: flaky_net_def transient_def is_success_def less_2_cases_iff)
  ultimately show ?thesis
    unfolding server_answers_def by (intro exI [of _ 2]) (simp add: plain_json_def is_success_def)
qed

theorem http_prefetch_keeps_up_witness:
  "\<exists>p. prefetch_run True (http_span plain_json (http_client_new ''http://h/'') (flaky_net [] (http_client_new ''http://h/'')))
       (prefetcher_new bor_consensus_new)
       [(http_span plain_json (http_client_new ''http://h/'')
           (flaky_net [demo_span 109 0, demo_span 110 0] (http_client_new ''http://h/'')), Some 700000)] = Inr p \<and>
     span_cache_contains (bc_span_cache (pf_consensus p)) 110"
proof -
  let ?c = "http_client_new ''http://h/''"
  let ?N = "flaky_net [demo_span 109 0, demo_span 110 0] ?c"
  have ans: "server_answers plain_json ?c ?N 109" "server_answers plain_json ?c ?N 110"
    by (intro flaky_answers; simp add: demo_span_def)+
  then have "\<forall>i\<le>1. server_answers plain_json ?c ?N (109 + word_of_nat i)" by (auto simp: le_Suc_eq)
  then show ?thesis
    using ans http_prefetch_keeps_up [where Ns = "flaky_net [] ?c" and J = plain_json and c = ?c and polls = "[]"
        and M = ?N and n = 700000 and j = 1 and oc = True]
    by (simp add: flaky_honest map_filter_simps)
qed

end
