(* ===== verification/Consensus_Threads.thy ===== *)
theory Consensus_Threads
  imports Consensus_Policy
begin

text \<open>
  The engine of \<open>reth_consensus.rs\<close> shared between threads. A call of \<open>validate_block_pre_execution\<close>
  takes a lock three times: that of the span cache for the look-up, that of the signer log for
  the check, and that of the log again for the record. The code between two locks works on
  local data, so a thread makes three steps, and a run of the node is any interleaving of the
  steps of its threads with insertions of spans. The theory shows what the sequential guarantee
  of \<open>Consensus_Engine\<close> becomes for a number of threads, that the bound is reached, and that span
  insertions never matter. No section panics, so the locks are never poisoned.
\<close>

section \<open>The sections of a validation\<close>

text \<open>Before the look-up, before the check, before the record, and the answer.\<close>

datatype 'tx thread =
    Start header "'tx block_body"
  | Looked u64 address "address list"
  | Checked u64 address "address list"
  | Done "consensus_error failure + unit"

primrec thread_step :: "('sig, 'tx) env \<Rightarrow> bor_consensus \<Rightarrow> 'tx thread \<Rightarrow> bor_consensus \<times> 'tx thread" where
  "thread_step E e (Start h b) =
     (case block_signer E h b of
        Inl err \<Rightarrow> (e, Done (Inl (Err err)))
      | Inr signer \<Rightarrow>
          (case get_span_for_block e (hd_number h) span_size_default of
             Inl p \<Rightarrow> (e, Done (Inl (Panic p)))
           | Inr (e1, None) \<Rightarrow> (e1, Done (Inr ()))
           | Inr (e1, Some span) \<Rightarrow> (e1, Looked (hd_number h) signer (authorized_signers span))))"
| "thread_step E e (Looked n signer signers) =
     (case check_signer E e n signer signers of
        Inl err \<Rightarrow> (e, Done (Inl err))
      | Inr _ \<Rightarrow> (e, Checked n signer signers))"
| "thread_step E e (Checked n signer signers) = (record_signer e n signer signers, Done (Inr ()))"
| "thread_step E e (Done r) = (e, Done r)"

text \<open>What a step of a thread shows of itself: a passed check or a record.\<close>

datatype event = Silent | Passed u64 address nat | Recorded u64 address

fun event_of :: "'tx thread \<Rightarrow> 'tx thread \<Rightarrow> event" where
  "event_of (Looked n a signers) (Checked _ _ _) = Passed n a (length signers)"
| "event_of (Checked n a signers) _ = Recorded n a"
| "event_of _ _ = Silent"

type_synonym 'tx conc = "bor_consensus \<times> 'tx thread list"

inductive conc_step :: "('sig, 'tx) env \<Rightarrow> 'tx conc \<Rightarrow> event \<Rightarrow> 'tx conc \<Rightarrow> bool" for E where
  run: "thread_step E e t = (e', t') \<Longrightarrow>
    conc_step E (e, ts @ t # us) (event_of t t') (e', ts @ t' # us)"
| insert_span: "conc_step E (e, ts) Silent (engine_insert_span e s, ts)"
| call: "conc_step E (e, ts) Silent (e, ts @ [Start h b])"

text \<open>The blocks between check and record.\<close>

primrec flight :: "'tx thread \<Rightarrow> (u64 \<times> address) list" where
  "flight (Start h b) = []"
| "flight (Looked n a signers) = []"
| "flight (Checked n a signers) = [(n, a)]"
| "flight (Done r) = []"

definition in_flight :: "'tx thread list \<Rightarrow> (u64 \<times> address) list" where
  "in_flight ts = concat (map flight ts)"

text \<open>
  Runs of a new engine in which checks are passed in increasing order of block numbers, by spans
  of at least \<open>c\<close> validators, and at most \<open>t\<close> blocks of one signer are between check and record
  at a time; \<open>log\<close> lists the recorded blocks.
\<close>

inductive orderly :: "('sig, 'tx) env \<Rightarrow> nat \<Rightarrow> nat \<Rightarrow> 'tx conc \<Rightarrow> (u64 \<times> address) list \<Rightarrow> bool" for E c t where
  start: "orderly E c t (bor_consensus_new, []) []"
| silent: "orderly E c t s log \<Longrightarrow> conc_step E s Silent s' \<Longrightarrow> orderly E c t s' log"
| passed: "orderly E c t s log \<Longrightarrow> conc_step E s (Passed n a m) s' \<Longrightarrow> c \<le> m \<and> m < 2 ^ 64 \<Longrightarrow>
    \<forall>(k, _)\<in>set log \<union> set (in_flight (snd s)). k < n \<Longrightarrow>
    length (filter (\<lambda>(_, b). b = a) (in_flight (snd s'))) \<le> t \<Longrightarrow> orderly E c t s' log"
| recorded: "orderly E c t s log \<Longrightarrow> conc_step E s (Recorded n a) s' \<Longrightarrow> orderly E c t s' (log @ [(n, a)])"

text \<open>One thread alone: the three sections are the handler.\<close>

lemma sections_are_handler:
  "(let (e1, t1) = thread_step E e (Start h b); (e2, t2) = thread_step E e1 t1 in thread_step E e2 t2) =
     (fst (engine_pre_execution E e h b), Done (snd (engine_pre_execution E e h b)))"
  by (simp add: engine_pre_execution_def Let_def split: sum.splits option.splits)

text \<open>No section panics while it holds a lock.\<close>

lemma sections_never_panic:
  "snd (thread_step E e t) = Done (Inl (Panic p)) \<Longrightarrow> t = Done (Inl (Panic p))"
  by (cases t) (auto simp: get_span_eq check_signer_no_panic split: sum.splits option.splits)

section \<open>Lemmas: the invariant of orderly runs\<close>

lemma in_flight_simps [simp]:
  "in_flight [] = []" "in_flight (t # ts) = flight t @ in_flight ts"
  "in_flight (ts @ us) = in_flight ts @ in_flight us"
  by (simp_all add: in_flight_def)

text \<open>A signer's blocks of the window from \<open>lo\<close> on.\<close>

definition in_window :: "nat \<Rightarrow> address \<Rightarrow> nat \<Rightarrow> (u64 \<times> address) list \<Rightarrow> (u64 \<times> address) list" where
  "in_window c a lo = filter (\<lambda>(k, b). b = a \<and> lo \<le> unat k \<and> unat k \<le> lo + sign_window c)"

lemma in_window_simps [simp]:
  "in_window c a lo [] = []"
  "in_window c a lo ((k, b) # xs) =
     (if b = a \<and> lo \<le> unat k \<and> unat k \<le> lo + sign_window c then (k, b) # in_window c a lo xs else in_window c a lo xs)"
  "in_window c a lo (xs @ ys) = in_window c a lo xs @ in_window c a lo ys"
  by (simp_all add: in_window_def)

lemma in_window_length: "length (in_window c a lo xs) \<le> length (filter (\<lambda>(_, b). b = a) xs)"
  by (induction xs) auto

text \<open>The span of every block in flight has at least \<open>c\<close> validators.\<close>

definition sized_flight :: "nat \<Rightarrow> 'tx thread list \<Rightarrow> bool" where
  "sized_flight c ts \<longleftrightarrow> (\<forall>n a sg. Checked n a sg \<in> set ts \<longrightarrow> c \<le> length sg \<and> length sg < 2 ^ 64)"

text \<open>Once a block of a window is recorded, the blocks recorded and in flight in it are at most \<open>t\<close>.\<close>

definition crowd :: "nat \<Rightarrow> nat \<Rightarrow> (u64 \<times> address) list \<Rightarrow> (u64 \<times> address) list \<Rightarrow> bool" where
  "crowd c t log fl \<longleftrightarrow>
     (\<forall>a. length (filter (\<lambda>(_, b). b = a) fl) \<le> t) \<and>
     (\<forall>a lo. in_window c a lo log \<noteq> [] \<longrightarrow> length (in_window c a lo log) + length (in_window c a lo fl) \<le> t)"

definition conc_inv :: "nat \<Rightarrow> nat \<Rightarrow> 'tx conc \<Rightarrow> (u64 \<times> address) list \<Rightarrow> bool" where
  "conc_inv c t s log \<longleftrightarrow>
     kept c (fst s) log \<and> sized_flight c (snd s) \<and> distinct (map fst (log @ in_flight (snd s))) \<and>
     crowd c t log (in_flight (snd s))"

text \<open>A step without an event leaves the log and the blocks in flight as they are.\<close>

lemma silent_step:
  assumes "conc_step E s Silent s'"
  shows "bc_recents (fst s') = bc_recents (fst s) \<and> in_flight (snd s') = in_flight (snd s) \<and>
    (\<forall>n a sg. Checked n a sg \<in> set (snd s') \<longrightarrow> Checked n a sg \<in> set (snd s))"
  using assms
proof (cases rule: conc_step.cases)
  case (run e t e' t' ts us)
  then show ?thesis
    by (cases t) (auto simp: get_span_eq split: sum.splits option.splits)
qed (auto simp: engine_insert_span_def)

lemma passed_step:
  assumes "conc_step E s (Passed n a m) s'"
  shows "\<exists>e ts us sg. m = length sg \<and> s = (e, ts @ Looked n a sg # us) \<and> s' = (e, ts @ Checked n a sg # us) \<and>
    check_signer E e n a sg = Inr ()"
  using assms
proof (cases rule: conc_step.cases)
  case (run e t e' t' ts us)
  then show ?thesis by (cases t) (auto split: sum.splits, blast?)
qed

lemma recorded_step:
  assumes "conc_step E s (Recorded n a) s'"
  shows "\<exists>e ts us sg. s = (e, ts @ Checked n a sg # us) \<and> s' = (record_signer e n a sg, ts @ Done (Inr ()) # us)"
  using assms
proof (cases rule: conc_step.cases)
  case (run e t e' t' ts us)
  then show ?thesis by (cases t) (auto split: sum.splits, blast?)
qed

lemma conc_inv_silent: "conc_inv c t s log \<Longrightarrow> conc_step E s Silent s' \<Longrightarrow> conc_inv c t s' log"
proof -
  assume inv: "conc_inv c t s log" and "conc_step E s Silent s'"
  note st = silent_step [OF this(2)]
  have "kept c (fst s') log" using inv st by (simp add: conc_inv_def kept_def)
  moreover have "sized_flight c (snd s')" using inv st unfolding conc_inv_def sized_flight_def by blast
  ultimately show ?thesis using inv st by (simp add: conc_inv_def)
qed

lemma crowd_passed:
  assumes "crowd c t log fl" and "\<And>k. (k, a) \<in> set log \<Longrightarrow> unat k < unat n \<and> unat k + sign_window c < unat n"
    and "fl = xs @ ys" and "fl' = xs @ (n, a) # ys" and "length (filter (\<lambda>(_, b). b = a) fl') \<le> t"
  shows "crowd c t log fl'"
proof -
  have len: "length (filter P fl') = length (filter P ((n, a) # fl))" for P by (simp add: assms(3,4))
  have "length (in_window c b lo log) + length (in_window c b lo fl') \<le> t" if "in_window c b lo log \<noteq> []" for b lo
  proof -
    have "length (in_window c b lo fl') = length (in_window c b lo fl)"
    proof (cases "b = a \<and> lo \<le> unat n \<and> unat n \<le> lo + sign_window c")
      case True
      from that obtain k where "(k, b) \<in> set log" "lo \<le> unat k" by (auto simp: in_window_def filter_empty_conv)
      with True assms(2) [of k] show ?thesis by simp
    next
      case False
      then show ?thesis by (auto simp: in_window_def len)
    qed
    with assms(1) that show ?thesis by (simp add: crowd_def)
  qed
  moreover have "length (filter (\<lambda>(_, x). x = b) fl') \<le> t" for b
    using assms(1,5) by (cases "b = a") (auto simp: crowd_def len)
  ultimately show ?thesis by (simp add: crowd_def)
qed

lemma crowd_recorded:
  assumes "crowd c t log fl" and "fl = xs @ (n, a) # ys" and "fl' = xs @ ys"
  shows "crowd c t (log @ [(n, a)]) fl'"
proof -
  have len: "length (filter P fl) = length (filter P ((n, a) # fl'))" for P by (simp add: assms(2,3))
  have less: "length (filter (\<lambda>(_, x). x = b) fl') \<le> t" for b
  proof -
    have "length (filter (\<lambda>(_, x). x = b) fl) \<le> t" using assms(1) by (simp add: crowd_def)
    then show ?thesis by (simp add: len split: if_splits)
  qed
  moreover have "length (in_window c b lo (log @ [(n, a)])) + length (in_window c b lo fl') \<le> t"
    if "in_window c b lo (log @ [(n, a)]) \<noteq> []" for b lo
  proof -
    have w: "length (in_window c b lo fl) = length (in_window c b lo ((n, a) # fl'))" by (simp only: in_window_def len)
    have "length (in_window c b lo log) + length (in_window c b lo fl) \<le> t" if "in_window c b lo log \<noteq> []"
      using assms(1) that by (simp add: crowd_def)
    moreover have "length (in_window c b lo fl) \<le> t"
      using assms(1) by (intro order_trans [OF in_window_length]) (simp add: crowd_def)
    ultimately show ?thesis using that w by (cases "in_window c b lo log = []") (auto split: if_splits)
  qed
  ultimately show ?thesis by (simp add: crowd_def)
qed

lemma conc_inv_orderly: "orderly E c t s log \<Longrightarrow> conc_inv c t s log"
proof (induction rule: orderly.induct)
  case start
  then show ?case
    by (simp add: conc_inv_def kept_def sized_flight_def crowd_def bor_consensus_new_def recents_new_def bt_inv_def)
next
  case (silent s log s')
  then show ?case using conc_inv_silent by blast
next
  case (passed s log n a m s')
  then obtain e ts us sg where s: "m = length sg" "s = (e, ts @ Looked n a sg # us)" "s' = (e, ts @ Checked n a sg # us)"
      "check_signer E e n a sg = Inr ()"
    using passed_step by blast
  have below: "\<forall>(k, _)\<in>set log. k < n" using passed.hyps(4) by blast
  have inv: "kept c e log" "crowd c t log (in_flight ts @ in_flight us)" using passed.IH by (simp_all add: conc_inv_def s)
  have far: "unat k < unat n \<and> unat k + sign_window c < unat n" if "(k, a) \<in> set log" for k
    using passed_apart [OF inv(1) s(4) _ _ below that] passed.hyps(3) s(1) by simp
  have "crowd c t log (in_flight ts @ (n, a) # in_flight us)"
    by (rule crowd_passed [OF inv(2) far refl refl]) (use passed.hyps(5) in \<open>simp_all add: s\<close>)
  then have "crowd c t log (in_flight (snd s'))" by (simp add: s)
  moreover have "distinct (map fst (log @ in_flight (snd s')))"
  proof -
    have "n \<notin> fst ` (set log \<union> set (in_flight (snd s)))" using passed.hyps(4) by force
    moreover have "distinct (map fst (log @ in_flight (snd s)))" using passed.IH by (simp only: conc_inv_def)
    ultimately show ?thesis by (simp add: s image_Un)
  qed
  moreover have "sized_flight c (snd s')" using passed.IH passed.hyps(3) by (auto simp: conc_inv_def s sized_flight_def)
  ultimately show ?case using inv(1) by (simp add: conc_inv_def s)
next
  case (recorded s log n a s')
  then obtain e ts us sg where s: "s = (e, ts @ Checked n a sg # us)" "s' = (record_signer e n a sg, ts @ Done (Inr ()) # us)"
    using recorded_step by blast
  have sg: "c \<le> length sg" "length sg < 2 ^ 64" using recorded.IH by (auto simp: conc_inv_def s sized_flight_def)
  have "kept c (fst s') (log @ [(n, a)])"
    using recorded.IH kept_record [OF _ sg, of e log n a] by (simp add: conc_inv_def s)
  moreover have "crowd c t (log @ [(n, a)]) (in_flight (snd s'))"
    using recorded.IH
    by (intro crowd_recorded [where xs = "in_flight ts" and ys = "in_flight us"]) (simp_all add: conc_inv_def s)
  ultimately show ?case using recorded.IH by (auto simp: conc_inv_def s sized_flight_def)
qed

text \<open>
  C22. What is left of the double-sign check with several threads: on every interleaving in which
  checks are passed in increasing order of block numbers, if at most \<open>t\<close> blocks of one signer are
  between their check and their record at a time, at most \<open>t\<close> of its blocks are accepted within
  any window of \<open>c / 2 + 1\<close> blocks. For \<open>t = 1\<close> that is the guarantee of a single thread.
\<close>

theorem concurrent_window_bound:
  assumes "orderly E c t s log"
  shows "card {k. (k, a) \<in> set log \<and> lo \<le> unat k \<and> unat k \<le> lo + (c div 2 + 1)} \<le> t"
proof -
  have inv: "conc_inv c t s log" by (rule conc_inv_orderly [OF assms])
  have "{k. (k, a) \<in> set log \<and> lo \<le> unat k \<and> unat k \<le> lo + (c div 2 + 1)} = fst ` set (in_window c a lo log)"
    by (force simp: in_window_def sign_window_def)
  then have few: "card {k. (k, a) \<in> set log \<and> lo \<le> unat k \<and> unat k \<le> lo + (c div 2 + 1)} \<le> length (in_window c a lo log)"
    by (simp only:) (rule order_trans [OF card_image_le card_length], simp)
  show ?thesis
  proof (cases "in_window c a lo log = []")
    case True
    with few show ?thesis by (simp only: list.size)
  next
    case False
    then have "length (in_window c a lo log) + length (in_window c a lo (in_flight (snd s))) \<le> t"
      using inv by (simp add: conc_inv_def crowd_def)
    with few show ?thesis by linarith
  qed
qed

section \<open>Lemmas: three rounds of all threads\<close>

abbreviation conc_steps :: "('sig, 'tx) env \<Rightarrow> 'tx conc \<Rightarrow> 'tx conc \<Rightarrow> bool" where
  "conc_steps E \<equiv> (\<lambda>s s'. \<exists>ev. conc_step E s ev s')\<^sup>*\<^sup>*"

text \<open>Every thread in turn makes one step.\<close>

primrec round_robin :: "('sig, 'tx) env \<Rightarrow> bor_consensus \<Rightarrow> 'tx thread list \<Rightarrow> 'tx conc" where
  "round_robin E e [] = (e, [])"
| "round_robin E e (t # ts) =
     (let (e1, t') = thread_step E e t; (e2, ts') = round_robin E e1 ts in (e2, t' # ts'))"

lemma round_robin_steps: "conc_steps E (e, us @ ts) (fst (round_robin E e ts), us @ snd (round_robin E e ts))"
proof (induction ts arbitrary: e us)
  case Nil
  then show ?case by simp
next
  case (Cons t ts)
  obtain e1 t' where t: "thread_step E e t = (e1, t')" by fastforce
  have "conc_steps E (e, us @ t # ts) (e1, us @ t' # ts)" using conc_step.run [OF t] by blast
  also have "conc_steps E (e1, us @ t' # ts) (fst (round_robin E e1 ts), us @ t' # snd (round_robin E e1 ts))"
    using Cons.IH [of e1 "us @ [t']"] by simp
  finally show ?case by (simp add: t split_beta Let_def)
qed

text \<open>A look-up changes neither.\<close>

lemma look_step:
  assumes "sc_inv (bc_span_cache e)" and "thread_step E e (Start h b) = (e', t)"
  shows "sc_inv (bc_span_cache e') \<and> bc_recents e' = bc_recents e \<and>
    span_cache_look (bc_span_cache e') = span_cache_look (bc_span_cache e)"
  using assms ss.look_get [OF assms(1)] by (auto simp: get_span_eq split: sum.splits option.splits)

text \<open>A thread that has looked up its span and whose check passes, or that skipped the check.\<close>

definition will_pass :: "('sig, 'tx) env \<Rightarrow> bor_consensus \<Rightarrow> 'tx thread \<Rightarrow> bool" where
  "will_pass E e t \<longleftrightarrow> t = Done (Inr ()) \<or> (\<exists>n a sg. t = Looked n a sg \<and> check_signer E e n a sg = Inr ())"

lemma will_pass_cong: "bc_recents e' = bc_recents e \<Longrightarrow> will_pass E e' = will_pass E e"
  by (intro ext) (simp add: will_pass_def check_signer_recents_cong [of e' e])

lemma looked_will_pass:
  assumes "sc_inv (bc_span_cache e)" and "snd (engine_pre_execution E e h b) = Inr ()"
  shows "will_pass E e (snd (thread_step E e (Start h b)))"
  using assms(2)
  by (auto simp: will_pass_def pre_execution_answer [OF assms(1)] get_span_eq ss.get_look [OF assms(1)]
      split: sum.splits option.splits)

lemma look_round:
  assumes "sc_inv (bc_span_cache e)" and "\<forall>(h, b)\<in>set blocks. snd (engine_pre_execution E e h b) = Inr ()"
    and "round_robin E e (map (\<lambda>(h, b). Start h b) blocks) = (e', ts)"
  shows "bc_recents e' = bc_recents e \<and> length ts = length blocks \<and> (\<forall>t\<in>set ts. will_pass E e t)"
  using assms
proof (induction blocks arbitrary: e e' ts)
  case Nil
  then show ?case by simp
next
  case (Cons block blocks)
  obtain h b where block: "block = (h, b)" by fastforce
  obtain e1 t where t: "thread_step E e (Start h b) = (e1, t)" by fastforce
  obtain ts' where ts: "round_robin E e1 (map (\<lambda>(h, b). Start h b) blocks) = (e', ts')" "ts = t # ts'"
    using Cons.prems(3) by (auto simp: block t Let_def simp del: thread_step.simps split: prod.splits)
  note same = look_step [OF Cons.prems(1) t]
  have "\<forall>(h, b)\<in>set blocks. snd (engine_pre_execution E e1 h b) = Inr ()"
    using Cons.prems(2) same pre_execution_cong [OF Cons.prems(1), of e1 E] by auto
  note rest = Cons.IH [OF _ this ts(1)]
  have "snd (engine_pre_execution E e h b) = Inr ()" using Cons.prems(2) by (simp add: block)
  then have "will_pass E e t" using looked_will_pass [OF Cons.prems(1), of E h b] by (simp only: t snd_conv)
  with rest same ts(2) will_pass_cong [of e1 e E] show ?case by simp
qed

definition passed_thread :: "'tx thread \<Rightarrow> bool" where
  "passed_thread t \<longleftrightarrow> t = Done (Inr ()) \<or> (\<exists>n a sg. t = Checked n a sg)"

lemma check_round:
  "\<forall>t\<in>set ts. will_pass E e t \<Longrightarrow> round_robin E e ts = (e', ts') \<Longrightarrow>
   length ts' = length ts \<and> (\<forall>t\<in>set ts'. passed_thread t)"
proof (induction ts arbitrary: ts')
  case Nil
  then show ?case by simp
next
  case (Cons t ts)
  have "fst (thread_step E e t) = e \<and> passed_thread (snd (thread_step E e t))"
    using Cons.prems(1) by (auto simp: will_pass_def passed_thread_def)
  then obtain t' where t': "thread_step E e t = (e, t')" "passed_thread t'" by (metis prod.collapse)
  obtain us where us: "round_robin E e ts = (e', us)" "ts' = t' # us"
    using Cons.prems(2) by (auto simp: t' Let_def split: prod.splits)
  with Cons.IH [OF _ us(1)] Cons.prems(1) t'(2) show ?case by simp
qed

lemma record_round:
  "\<forall>t\<in>set ts. passed_thread t \<Longrightarrow> snd (round_robin E e ts) = replicate (length ts) (Done (Inr ()))"
  by (induction ts arbitrary: e) (auto simp: passed_thread_def Let_def split_beta)

lemma all_accepted:
  assumes "sc_inv (bc_span_cache e)" and "\<forall>(h, b)\<in>set blocks. snd (engine_pre_execution E e h b) = Inr ()"
  shows "\<exists>e'. conc_steps E (e, map (\<lambda>(h, b). Start h b) blocks) (e', replicate (length blocks) (Done (Inr ())))"
proof -
  let ?ts = "map (\<lambda>(h, b). Start h b) blocks"
  obtain e1 ts1 where r1: "round_robin E e ?ts = (e1, ts1)" by fastforce
  obtain e2 ts2 where r2: "round_robin E e1 ts1 = (e2, ts2)" by fastforce
  note one = look_round [OF assms r1]
  have two: "length ts2 = length ts1 \<and> (\<forall>t\<in>set ts2. passed_thread t)"
    by (rule check_round [OF _ r2]) (use one will_pass_cong [of e1 e E] in simp)
  have "conc_steps E (e, ?ts) (e1, ts1)" using round_robin_steps [of E e "[]" ?ts] by (simp add: r1)
  also have "conc_steps E (e1, ts1) (e2, ts2)" using round_robin_steps [of E e1 "[]" ts1] by (simp add: r2)
  also have "conc_steps E (e2, ts2) (fst (round_robin E e2 ts2), replicate (length blocks) (Done (Inr ())))"
    using round_robin_steps [of E e2 "[]" ts2] record_round [of ts2 E e2] one two by simp
  finally show ?thesis by blast
qed

text \<open>One after the other: a refused block stays refused.\<close>

lemma all_refused:
  assumes "sc_inv (bc_span_cache e)" and "bt_inv (rc_signers (bc_recents e))"
    and "\<forall>(h, b)\<in>set blocks. snd (engine_pre_execution E e h b) \<noteq> Inr ()"
  shows "\<forall>r\<in>set (snd (run_calls (engine_apply E) e (map (\<lambda>(h, b). CallPreExecution h b) blocks))). r \<noteq> Inr ()"
  using assms
proof (induction blocks arbitrary: e)
  case Nil
  then show ?case by simp
next
  case (Cons block blocks)
  obtain h b where block: "block = (h, b)" by fastforce
  obtain e' err where refused: "engine_pre_execution E e h b = (e', Inl err)"
    using Cons.prems(3) by (cases "engine_pre_execution E e h b"; cases "snd (engine_pre_execution E e h b)") (auto simp: block)
  note inv = engine_invariants [OF Cons.prems(1,2) refused]
  have "snd (engine_pre_execution E e' h b) = snd (engine_pre_execution E e h b)" for h b
    using look_pre_execution [OF Cons.prems(1), of E] refused inv reject_keeps_recents [OF refused]
    by (intro pre_execution_cong [OF Cons.prems(1)]) (auto simp: fun_eq_iff, metis fst_conv)
  with Cons.prems(3) have "\<forall>(h, b)\<in>set blocks. snd (engine_pre_execution E e' h b) \<noteq> Inr ()" by simp
  with Cons.IH [of e'] inv show ?case by (simp add: block refused Let_def split: prod.splits)
qed

text \<open>
  C23. Check and record are not one critical section: of any number of blocks of one signer within
  one window that each pass on a state, as many threads accept all (each looks up its span, each
  checks, each records), while one thread that validates them in turn accepts the first and
  refuses every other.
\<close>

theorem concurrent_check_race:
  assumes "sc_inv (bc_span_cache e)" and "bt_inv (rc_signers (bc_recents e))" and "c < 2 ^ 64"
    and "\<forall>(h, b)\<in>set ((h0, b0) # blocks). block_signer E h b = Inr a \<and> snd (engine_pre_execution E e h b) = Inr () \<and>
      (\<exists>s. span_cache_look (bc_span_cache e) (hd_number h div 6400) = Some s \<and> length (authorized_signers s) = c)"
    and "\<forall>(h, b)\<in>set blocks. unat (hd_number h0) < unat (hd_number h) \<and>
      unat (hd_number h) \<le> unat (hd_number h0) + (c div 2 + 1)"
  shows "(\<exists>e'. conc_steps E (e, map (\<lambda>(h, b). Start h b) ((h0, b0) # blocks))
       (e', replicate (length blocks + 1) (Done (Inr ())))) \<and>
     (\<exists>rs. snd (run_calls (engine_apply E) e (map (\<lambda>(h, b). CallPreExecution h b) ((h0, b0) # blocks))) = Inr () # rs \<and>
       length rs = length blocks \<and> (\<forall>r\<in>set rs. r \<noteq> Inr ()))"
proof
  have "\<forall>(h, b)\<in>set ((h0, b0) # blocks). snd (engine_pre_execution E e h b) = Inr ()" using assms(4) by blast
  from all_accepted [OF assms(1) this] show "\<exists>e'. conc_steps E (e, map (\<lambda>(h, b). Start h b) ((h0, b0) # blocks))
       (e', replicate (length blocks + 1) (Done (Inr ())))" by simp
  have first: "block_signer E h0 b0 = Inr a" "snd (engine_pre_execution E e h0 b0) = Inr ()"
    and "\<exists>s. span_cache_look (bc_span_cache e) (hd_number h0 div 6400) = Some s \<and> length (authorized_signers s) = c"
    using assms(4) by simp_all
  then obtain s0 where s0: "span_cache_look (bc_span_cache e) (hd_number h0 div 6400) = Some s0" "length (authorized_signers s0) = c"
    by blast
  let ?e1 = "fst (engine_pre_execution E e h0 b0)"
  have "snd (engine_pre_execution E ?e1 h b) \<noteq> Inr ()" if mem: "(h, b) \<in> set blocks" for h b
  proof -
    obtain s where "span_cache_look (bc_span_cache e) (hd_number h div 6400) = Some s" "length (authorized_signers s) = c"
        "block_signer E h b = Inr a" using bspec [OF assms(4), of "(h, b)"] mem by auto
    then show ?thesis
      using second_refused [OF assms(1,2) s0(1) _ s0(2) _ assms(3) first(1) _ first(2), of h s b] assms(5) mem
      by (auto simp: sign_window_def)
  qed
  moreover have "sc_inv (bc_span_cache ?e1)" "bt_inv (rc_signers (bc_recents ?e1))"
    using engine_invariants [OF assms(1,2), of E h0 b0] by (metis prod.collapse)+
  ultimately have "\<forall>r\<in>set (snd (run_calls (engine_apply E) ?e1 (map (\<lambda>(h, b). CallPreExecution h b) blocks))). r \<noteq> Inr ()"
    by (intro all_refused) auto
  then show "\<exists>rs. snd (run_calls (engine_apply E) e (map (\<lambda>(h, b). CallPreExecution h b) ((h0, b0) # blocks))) = Inr () # rs \<and>
       length rs = length blocks \<and> (\<forall>r\<in>set rs. r \<noteq> Inr ())"
    using first(2) length_run_calls by (simp add: split_beta Let_def)
qed

section \<open>Insertions between the sections\<close>

text \<open>Threads that run one by one, while spans are inserted at any moment.\<close>

datatype solo_action = Work | Insertion span

primrec solo_act :: "('sig, 'tx) env \<Rightarrow> bor_consensus \<times> 'tx thread \<Rightarrow> solo_action \<Rightarrow> bor_consensus \<times> 'tx thread" where
  "solo_act E s Work = thread_step E (fst s) (snd s)"
| "solo_act E s (Insertion span) = (engine_insert_span (fst s) span, snd s)"

definition solo :: "('sig, 'tx) env \<Rightarrow> bor_consensus \<times> 'tx thread \<Rightarrow> solo_action list \<Rightarrow> bor_consensus \<times> 'tx thread" where
  "solo E = foldl (solo_act E)"

primrec one_by_one ::
    "('sig, 'tx) env \<Rightarrow> bor_consensus \<Rightarrow> (header \<times> 'tx block_body \<times> solo_action list) list \<Rightarrow> 'tx conc" where
  "one_by_one E e [] = (e, [])"
| "one_by_one E e (w # ws) =
     (case w of (h, b, actions) \<Rightarrow>
        let (e1, t) = solo E (e, Start h b) actions; (e2, ts) = one_by_one E e1 ws in (e2, t # ts))"

definition inserted :: "solo_action list \<Rightarrow> span list" where
  "inserted actions = List.map_filter (\<lambda>x. case x of Insertion s \<Rightarrow> Some s | Work \<Rightarrow> None) actions"

lemma inserted_simps [simp]:
  "inserted [] = []" "inserted (Work # xs) = inserted xs" "inserted (Insertion s # xs) = s # inserted xs"
  by (simp_all add: inserted_def map_filter_def)

abbreviation insert_all :: "bor_consensus \<Rightarrow> span list \<Rightarrow> bor_consensus" where
  "insert_all \<equiv> foldl engine_insert_span"

lemma solo_steps: "conc_steps E (e, us @ t # vs) (fst (solo E (e, t) xs), us @ snd (solo E (e, t) xs) # vs)"
proof (induction xs arbitrary: e t)
  case Nil
  then show ?case by (simp add: solo_def)
next
  case (Cons x xs)
  have "\<exists>ev. conc_step E (e, us @ t # vs) ev (fst (solo_act E (e, t) x), us @ snd (solo_act E (e, t) x) # vs)"
    by (cases x; cases "thread_step E e t") (auto intro: conc_step.insert_span conc_step.run simp del: thread_step.simps)
  then have "conc_steps E (e, us @ t # vs) (fst (solo_act E (e, t) x), us @ snd (solo_act E (e, t) x) # vs)" by blast
  also have "conc_steps E \<dots> (fst (solo E (e, t) (x # xs)), us @ snd (solo E (e, t) (x # xs)) # vs)"
    using Cons.IH [of "fst (solo_act E (e, t) x)" "snd (solo_act E (e, t) x)"] by (simp add: solo_def)
  finally show ?case .
qed

lemma one_by_one_steps:
  "conc_steps E (e, us @ map (\<lambda>(h, b, _). Start h b) ws) (fst (one_by_one E e ws), us @ snd (one_by_one E e ws))"
proof (induction ws arbitrary: e us)
  case Nil
  then show ?case by simp
next
  case (Cons w ws)
  obtain h b actions where w: "w = (h, b, actions)" by (metis prod.collapse)
  obtain e1 t where t: "solo E (e, Start h b) actions = (e1, t)" by fastforce
  have "conc_steps E (e, us @ Start h b # map (\<lambda>(h, b, _). Start h b) ws) (e1, us @ t # map (\<lambda>(h, b, _). Start h b) ws)"
    using solo_steps [of E e us "Start h b" _ actions] by (simp add: t)
  also have "conc_steps E (e1, us @ t # map (\<lambda>(h, b, _). Start h b) ws) (fst (one_by_one E e1 ws), us @ t # snd (one_by_one E e1 ws))"
    using Cons.IH [of e1 "us @ [t]"] by simp
  finally show ?case by (cases "one_by_one E e1 ws") (simp add: w t Let_def)
qed

lemma insert_recents [simp]: "bc_recents (engine_insert_span e s) = bc_recents e"
  by (simp add: engine_insert_span_def)

lemma insert_commutes:
  "thread_step E (engine_insert_span e s) t =
     (engine_insert_span (fst (thread_step E e t)) s, snd (thread_step E e t))" if "\<And>h b. t \<noteq> Start h b"
proof -
  have "check_signer E (engine_insert_span e s) = check_signer E e"
    by (intro ext check_signer_recents_cong) simp
  then show ?thesis
    using that by (cases t) (auto simp: record_signer_def engine_insert_span_def split: sum.splits)
qed

lemma solo_after_look:
  assumes "\<And>h b. t \<noteq> Start h b"
  shows "solo E (insert_all e ss, t) xs =
    (insert_all (fst (solo E (e, t) (filter (\<lambda>x. x = Work) xs))) (ss @ inserted xs),
     snd (solo E (e, t) (filter (\<lambda>x. x = Work) xs)))"
  using assms
proof (induction xs arbitrary: e t ss)
  case Nil
  then show ?case by (simp add: solo_def)
next
  case (Cons x xs)
  have commute: "thread_step E (insert_all e ss) t = (insert_all (fst (thread_step E e t)) ss, snd (thread_step E e t))"
    if "\<And>h b. t \<noteq> Start h b" for e ss
    using that by (induction ss arbitrary: e rule: rev_induct) (simp_all add: insert_commutes del: thread_step.simps)
  show ?case
  proof (cases x)
    case Work
    have "snd (thread_step E e t) \<noteq> Start h b" for h b
      using Cons.prems by (cases t) (auto split: sum.splits)
    with Cons.IH [of "snd (thread_step E e t)" "fst (thread_step E e t)" ss] show ?thesis
      using commute [OF Cons.prems] by (simp add: Work solo_def)
  next
    case (Insertion s)
    then show ?thesis using Cons.IH [OF Cons.prems, of e "ss @ [s]"] by (simp add: solo_def)
  qed
qed

lemma solo_append: "solo E s (xs @ ys) = solo E (solo E s xs) ys"
  by (simp add: solo_def)

lemma solo_done: "solo E (e, Done r) (replicate k Work) = (e, Done r)"
  by (induction k) (simp_all add: solo_def)

text \<open>Two more steps after the look-up end the validation, with the answer of the handler.\<close>

lemma solo_handler:
  assumes "thread_step E e (Start h b) = (e1, t1)" and "solo E (e1, t1) (replicate k Work) = (x, Done r)"
  shows "engine_pre_execution E e h b = (x, r)"
proof -
  let ?p = "engine_pre_execution E e h b"
  have swap: "replicate k Work @ [Work, Work] = [Work, Work] @ replicate k Work"
    by (simp add: replicate_append_same [symmetric])
  have "solo E (e1, t1) [Work, Work] = (fst ?p, Done (snd ?p))"
    using sections_are_handler [of E e h b] assms(1) by (simp add: solo_def split_beta Let_def del: thread_step.simps)
  then have "solo E (e1, t1) (replicate k Work @ [Work, Work]) = (fst ?p, Done (snd ?p))"
    unfolding swap by (simp only: solo_append solo_done)
  moreover have "solo E (e1, t1) (replicate k Work @ [Work, Work]) = (x, Done r)"
    by (simp only: solo_append assms(2)) (simp add: solo_def)
  ultimately show ?thesis by (simp add: prod_eq_iff)
qed

lemma filter_Work: "filter (\<lambda>x. x = Work) xs = replicate (length (filter (\<lambda>x. x = Work) xs)) Work"
  by (induction xs) simp_all

lemma solo_is_call:
  assumes "solo E (e, Start h b) xs = (e', Done r)"
  obtains before after e1 where "inserted xs = before @ after"
    "engine_pre_execution E (insert_all e before) h b = (e1, r)" "e' = insert_all e1 after"
proof -
  have "\<exists>before after e1. inserted xs = before @ after \<and>
      engine_pre_execution E (insert_all e before) h b = (e1, r) \<and> e' = insert_all e1 after"
    using assms
  proof (induction xs arbitrary: e)
    case Nil
    then show ?case by (simp add: solo_def)
  next
    case (Cons x xs)
    show ?case
    proof (cases x)
      case Work
      obtain e1 t1 where t1: "thread_step E e (Start h b) = (e1, t1)" by fastforce
      have ne: "t1 \<noteq> Start h' b'" for h' b' using t1 by (auto simp: get_span_eq split: sum.splits option.splits)
      have "solo E (e1, t1) xs = (e', Done r)"
        using Cons.prems t1 by (simp add: Work solo_def del: thread_step.simps)
      then obtain y where y: "solo E (e1, t1) (filter (\<lambda>x. x = Work) xs) = (y, Done r)" "e' = insert_all y (inserted xs)"
        using solo_after_look [OF ne, of E e1 "[]" xs] by (auto simp: prod_eq_iff)
      obtain k where "filter (\<lambda>x. x = Work) xs = replicate k Work" using filter_Work by blast
      with y(1) have "engine_pre_execution E e h b = (y, r)" by (intro solo_handler [OF t1]) simp
      then have "inserted (x # xs) = [] @ inserted xs \<and> engine_pre_execution E (insert_all e []) h b = (y, r) \<and>
          e' = insert_all y (inserted xs)" using y(2) Work by simp
      then show ?thesis by blast
    next
      case (Insertion s)
      with Cons.prems have "solo E (engine_insert_span e s, Start h b) xs = (e', Done r)" by (simp add: solo_def)
      from Cons.IH [OF this] obtain before after e1 where "inserted xs = before @ after"
          "engine_pre_execution E (insert_all e (s # before)) h b = (e1, r)" "e' = insert_all e1 after" by auto
      then have "inserted (x # xs) = (s # before) @ after \<and>
          engine_pre_execution E (insert_all e (s # before)) h b = (e1, r) \<and> e' = insert_all e1 after"
        using Insertion by simp
      then show ?thesis by blast
    qed
  qed
  then show thesis using that by blast
qed

text \<open>The blocks validated in a sequence of calls with their answers, and the spans inserted.\<close>

definition validations :: "('tx engine_call \<times> 'r) list \<Rightarrow> (header \<times> 'tx block_body \<times> 'r) list" where
  "validations = List.map_filter (\<lambda>(call, r). case call of CallPreExecution h b \<Rightarrow> Some (h, b, r) | CallInsertSpan s \<Rightarrow> None)"

definition insertions_made :: "('tx engine_call \<times> 'r) list \<Rightarrow> span list" where
  "insertions_made = List.map_filter (\<lambda>(call, r). case call of CallPreExecution h b \<Rightarrow> None | CallInsertSpan s \<Rightarrow> Some s)"

lemma trace_simps [simp]:
  "validations [] = []" "insertions_made [] = []"
  "validations (xs @ ys) = validations xs @ validations ys" "insertions_made (xs @ ys) = insertions_made xs @ insertions_made ys"
  "validations ((CallPreExecution h b, r) # tr) = (h, b, r) # validations tr" "validations ((CallInsertSpan s, r) # tr) = validations tr"
  "insertions_made ((CallPreExecution h b, r) # tr) = insertions_made tr"
  "insertions_made ((CallInsertSpan s, r) # tr) = s # insertions_made tr"
  by (simp_all add: validations_def insertions_made_def map_filter_def)

definition insert_trace :: "span list \<Rightarrow> ('tx engine_call \<times> (consensus_error failure + unit)) list" where
  "insert_trace = map (\<lambda>s. (CallInsertSpan s, Inr ()))"

lemma insert_trace_simps [simp]:
  "validations (insert_trace ss) = []" "insertions_made (insert_trace ss) = ss"
  "run_calls (engine_apply E) e (map fst (insert_trace ss)) = (insert_all e ss, replicate (length ss) (Inr ()))"
  "map snd (insert_trace ss) = replicate (length ss) (Inr ())"
proof -
  show "validations (insert_trace ss) = []" "insertions_made (insert_trace ss) = ss"
    by (induction ss) (simp_all add: insert_trace_def)
  show "map snd (insert_trace ss) = replicate (length ss) (Inr ())" by (induction ss) (simp_all add: insert_trace_def)
  show "run_calls (engine_apply E) e (map fst (insert_trace ss)) = (insert_all e ss, replicate (length ss) (Inr ()))"
    by (induction ss arbitrary: e) (simp_all add: insert_trace_def Let_def)
qed

text \<open>
  C24. The prefetcher cannot disturb a validation: where validations do not overlap one another but
  spans are inserted at any moment, between the sections of a validation too, the run is one of
  the concurrent machine and ends with the engine and the answers of a sequence of whole calls:
  the same blocks in the same order, the same spans in the same order.
\<close>

theorem insertions_never_interfere:
  assumes "one_by_one E e work = (e', map Done rs)"
  shows "conc_steps E (e, map (\<lambda>(h, b, _). Start h b) work) (e', map Done rs) \<and>
    (\<exists>tr. run_calls (engine_apply E) e (map fst tr) = (e', map snd tr) \<and>
       validations tr = map (\<lambda>((h, b, _), r). (h, b, r)) (zip work rs) \<and>
       insertions_made tr = concat (map (\<lambda>(_, _, actions). inserted actions) work))"
proof
  show "conc_steps E (e, map (\<lambda>(h, b, _). Start h b) work) (e', map Done rs)"
    using one_by_one_steps [of E e "[]" work] assms by simp
  show "\<exists>tr. run_calls (engine_apply E) e (map fst tr) = (e', map snd tr) \<and>
       validations tr = map (\<lambda>((h, b, _), r). (h, b, r)) (zip work rs) \<and>
       insertions_made tr = concat (map (\<lambda>(_, _, actions). inserted actions) work)"
    using assms
  proof (induction work arbitrary: e rs)
    case Nil
    then show ?case by (intro exI [of _ "[]"]) simp
  next
    case (Cons w work)
    obtain h b actions where w: "w = (h, b, actions)" by (metis prod.collapse)
    from Cons.prems obtain e1 r rs' where 1: "solo E (e, Start h b) actions = (e1, Done r)" "rs = r # rs'"
        and rest: "one_by_one E e1 work = (e', map Done rs')"
      by (auto simp: w Let_def Cons_eq_map_conv split: prod.splits)
    obtain before after e2 where call: "inserted actions = before @ after"
        "engine_pre_execution E (insert_all e before) h b = (e2, r)" "e1 = insert_all e2 after"
      using solo_is_call [OF 1(1)] by blast
    obtain tr where tr: "run_calls (engine_apply E) e1 (map fst tr) = (e', map snd tr)"
        "validations tr = map (\<lambda>((h, b, _), r). (h, b, r)) (zip work rs')"
        "insertions_made tr = concat (map (\<lambda>(_, _, actions). inserted actions) work)"
      using Cons.IH [OF rest] by blast
    let ?tr = "insert_trace before @ (CallPreExecution h b, r) # insert_trace after @ tr"
    have "run_calls (engine_apply E) e (map fst ?tr) = (e', map snd ?tr)"
      using tr(1) call(2,3) by (simp add: run_calls_append Let_def)
    then show ?case using tr(2,3) call(1) 1(2) w by (intro exI [of _ ?tr]) simp
  qed
qed

section \<open>Witnesses\<close>

lemma demo_look:
  assumes "sc_inv (bc_span_cache e)" and "span_cache_look (bc_span_cache e) 0 = Some span_789" and "n div 6400 = 0"
  obtains e' where "thread_step demo_env e (Start (demo_block n a) demo_body) = (e', Looked n a [7, 8, 9])"
    and "bc_recents e' = bc_recents e" and "sc_inv (bc_span_cache e')"
    and "span_cache_look (bc_span_cache e') = span_cache_look (bc_span_cache e)"
proof -
  let ?t = "Start (demo_block n a) demo_body"
  have "snd (thread_step demo_env e ?t) = Looked n a [7, 8, 9]"
    using assms by (simp add: demo_signer get_span_eq ss.get_look split: option.splits)
  then show thesis using that look_step [OF assms(1), of demo_env "demo_block n a" demo_body] by (metis prod.collapse)
qed

lemma demo_check: "rc_signers (bc_recents e) = [] \<Longrightarrow> a \<in> {7, 8, 9} \<Longrightarrow> check_signer demo_env e n a [7, 8, 9] = Inr ()"
  by (subst check_signer_iff) (auto simp: bt_inv_def signed_in_window_def bt_get_def)

lemma two_in_flight:
  obtains e where "orderly demo_env 3 2 (e, [Done (Inr ()), Done (Inr ())]) [(10, 8), (11, 8)]"
proof -
  let ?b = "\<lambda>n. Start (demo_block n 8) demo_body" and ?l = "\<lambda>n. Looked n 8 [7, 8, 9] :: unit thread"
  let ?c = "\<lambda>n. Checked n 8 [7, 8, 9] :: unit thread" and ?d = "Done (Inr ()) :: unit thread"
  have "orderly demo_env 3 2 (engine_789, []) []"
    unfolding engine_789_def by (rule orderly.silent [OF orderly.start conc_step.insert_span])
  from orderly.silent [OF orderly.silent [OF this conc_step.call] conc_step.call]
  have s0: "orderly demo_env 3 2 (engine_789, [?b 10, ?b 11]) []" by simp
  obtain e1 where e1: "thread_step demo_env engine_789 (?b 10) = (e1, ?l 10)" "bc_recents e1 = bc_recents engine_789"
      "sc_inv (bc_span_cache e1)" "span_cache_look (bc_span_cache e1) = span_cache_look (bc_span_cache engine_789)"
    by (rule demo_look [of engine_789 10 8]) simp_all
  obtain e2 where e2: "thread_step demo_env e1 (?b 11) = (e2, ?l 11)" "bc_recents e2 = bc_recents e1"
    by (rule demo_look [of e1 11 8]) (simp_all add: e1)
  have chk: "thread_step demo_env e2 (?l n) = (e2, ?c n)" for n
    using demo_check [of e2 8] e1(2) e2(2) by simp
  have s1: "orderly demo_env 3 2 (e1, [?l 10, ?b 11]) []"
    using orderly.silent [OF s0] conc_step.run [OF e1(1), of "[]" "[?b 11]"] by simp
  have s2: "orderly demo_env 3 2 (e2, [?l 10, ?l 11]) []"
    using orderly.silent [OF s1] conc_step.run [OF e2(1), of "[?l 10]" "[]"] by simp
  have s3: "orderly demo_env 3 2 (e2, [?c 10, ?l 11]) []"
    using conc_step.run [OF chk, of "[]" 10 "[?l 11]"] by (intro orderly.passed [OF s2, of 10 8 3]) (simp_all add: numeral_3_eq_3)
  have s4: "orderly demo_env 3 2 (e2, [?c 10, ?c 11]) []"
    using conc_step.run [OF chk, of "[?c 10]" 11 "[]"] by (intro orderly.passed [OF s3, of 11 8 3]) (simp_all add: numeral_3_eq_3)
  have rec: "thread_step demo_env e (?c n) = (record_signer e n 8 [7, 8, 9], ?d)" for e n by simp
  have s5: "orderly demo_env 3 2 (record_signer e2 10 8 [7, 8, 9], [?d, ?c 11]) [(10, 8)]"
    using orderly.recorded [OF s4, of 10 8] conc_step.run [OF rec [of e2 10], of "[]" "[?c 11]"] by simp
  have "orderly demo_env 3 2 (record_signer (record_signer e2 10 8 [7, 8, 9]) 11 8 [7, 8, 9], [?d, ?d]) [(10, 8), (11, 8)]"
    using orderly.recorded [OF s5, of 11 8] conc_step.run [OF rec [of "record_signer e2 10 8 [7, 8, 9]" 11], of "[?d]" "[]"] by simp
  then show thesis by (rule that)
qed

theorem concurrent_window_bound_witness:
  "\<exists>s. orderly demo_env 3 2 s [(10, 8), (11, 8)] \<and>
     card {k. (k, 8) \<in> set [(10 :: u64, 8 :: address), (11, 8)] \<and> 10 \<le> unat k \<and> unat k \<le> 10 + (3 div 2 + 1)} \<le> 2"
proof -
  obtain e where "orderly demo_env 3 2 (e, [Done (Inr ()), Done (Inr ())]) [(10, 8), (11, 8)]" by (rule two_in_flight)
  with concurrent_window_bound [OF this, of 8 10] show ?thesis by blast
qed

theorem concurrent_check_race_witness:
  "(\<exists>e'. conc_steps demo_env (engine_789, map (\<lambda>(h, b). Start h b) [(demo_block 10 8, demo_body), (demo_block 11 8, demo_body)])
       (e', [Done (Inr ()), Done (Inr ())])) \<and>
   (\<exists>r. snd (run_calls (engine_apply demo_env) engine_789
        [CallPreExecution (demo_block 10 8) demo_body, CallPreExecution (demo_block 11 8) demo_body]) = [Inr (), r] \<and> r \<noteq> Inr ())"
proof -
  have "snd (engine_pre_execution demo_env engine_789 (demo_block n 8) demo_body) = Inr ()" if "n div 6400 = 0" for n
    using that by (simp add: pre_execution_answer demo_signer demo_check)
  then show ?thesis
    using concurrent_check_race [of engine_789 3 "demo_block 10 8" demo_body "[(demo_block 11 8, demo_body)]" demo_env 8]
    by (auto simp: demo_signer bt_inv_def length_Suc_conv)
qed

theorem insertions_never_interfere_witness:
  "\<exists>e' tr. one_by_one demo_env engine_789 [(demo_block 10 8, demo_body, [Work, Insertion (demo_span 1 0), Work, Work])] =
      (e', [Done (Inr ())]) \<and>
    run_calls (engine_apply demo_env) engine_789 (map fst tr) = (e', map snd tr) \<and>
    validations tr = [(demo_block 10 8, demo_body, Inr ())] \<and> insertions_made tr = [demo_span 1 0]"
proof -
  obtain e1 where e1: "thread_step demo_env engine_789 (Start (demo_block 10 8) demo_body) = (e1, Looked 10 8 [7, 8, 9])"
      "bc_recents e1 = bc_recents engine_789"
    by (rule demo_look [of engine_789 10 8]) simp_all
  let ?work = "[(demo_block 10 8, demo_body, [Work, Insertion (demo_span 1 0), Work, Work])]"
  have "check_signer demo_env (engine_insert_span e1 (demo_span 1 0)) 10 8 [7, 8, 9] = Inr ()"
    by (rule demo_check) (simp_all add: e1)
  then have "\<exists>e'. one_by_one demo_env engine_789 ?work = (e', map Done [Inr ()])"
    using e1(1) by (simp add: solo_def del: thread_step.simps(1))
  then obtain e' where e': "one_by_one demo_env engine_789 ?work = (e', map Done [Inr ()])" by blast
  with insertions_never_interfere [OF e'] show ?thesis by auto
qed

end
