(* ===== verification/Bor_Storage.thy ===== *)
theory Bor_Storage
  imports Bor_Chainspec Bor_Primitives
begin

text \<open>
  \<open>bor-storage\<close>: receipt keys, the two storage paths of Bor receipts around the Madhugiri
  fork, gas of system transactions, and the in-memory stores behind the two persistence
  traits. The traits are one contract, the locale \<open>kv_store\<close>, interpreted on both stores.
\<close>

section \<open>tables.rs\<close>

definition BOR_SPANS_TABLE :: string where "BOR_SPANS_TABLE = ''BorSpans''"
definition BOR_SNAPSHOTS_TABLE :: string where "BOR_SNAPSHOTS_TABLE = ''BorSnapshots''"
definition BOR_RECEIPTS_TABLE :: string where "BOR_RECEIPTS_TABLE = ''BorReceipts''"
definition BOR_TX_LOOKUP_TABLE :: string where "BOR_TX_LOOKUP_TABLE = ''BorTxLookup''"
definition BOR_META_TABLE :: string where "BOR_META_TABLE = ''BorMeta''"

definition BOR_TABLES :: "string list" where
  "BOR_TABLES = [BOR_SPANS_TABLE, BOR_SNAPSHOTS_TABLE, BOR_RECEIPTS_TABLE, BOR_TX_LOOKUP_TABLE,
     BOR_META_TABLE]"

definition META_LAST_SPAN_ID :: u64 where "META_LAST_SPAN_ID = 0"
definition META_LAST_SNAPSHOT_BLOCK :: u64 where "META_LAST_SNAPSHOT_BLOCK = 1"
definition META_LAST_BOR_RECEIPT_BLOCK :: u64 where "META_LAST_BOR_RECEIPT_BLOCK = 2"

section \<open>receipt\_key.rs\<close>

text \<open>A byte string literal.\<close>

definition ascii_bytes :: "string \<Rightarrow> bytes" where
  "ascii_bytes s = map of_char s"

definition BOR_RECEIPT_PREFIX :: bytes where
  "BOR_RECEIPT_PREFIX = ascii_bytes ''matic-bor-receipt-''"

definition bor_receipt_key :: "u64 \<Rightarrow> b256 \<Rightarrow> bytes" where
  "bor_receipt_key block_number block_hash =
     BOR_RECEIPT_PREFIX @ u64_be_bytes block_number @ b256_bytes block_hash"

definition derived_bor_tx_hash :: "(bytes \<Rightarrow> b256) \<Rightarrow> u64 \<Rightarrow> b256 \<Rightarrow> b256" where
  "derived_bor_tx_hash keccak block_number block_hash = keccak (bor_receipt_key block_number block_hash)"

section \<open>receipt.rs\<close>

definition MADHUGIRI_BLOCK :: u64 where
  "MADHUGIRI_BLOCK = 80084800"

definition is_post_madhugiri :: "u64 \<Rightarrow> bool" where
  "is_post_madhugiri block_number = (MADHUGIRI_BLOCK \<le> block_number)"

definition compute_receipt_root :: "b256 list \<Rightarrow> b256 option \<Rightarrow> u64 \<Rightarrow> b256 list" where
  "compute_receipt_root receipt_hashes bor_receipt_hash block_number =
     (if is_post_madhugiri block_number then
        (case bor_receipt_hash of
           Some bor_hash \<Rightarrow> receipt_hashes @ [bor_hash]
         | None \<Rightarrow> receipt_hashes)
      else receipt_hashes)"

record bor_receipt_storage =
  brs_key :: bytes
  brs_separate :: bool

definition store_block_receipts :: "u64 \<Rightarrow> b256 \<Rightarrow> bor_receipt_storage" where
  "store_block_receipts block_number block_hash =
     \<lparr>brs_key = bor_receipt_key block_number block_hash,
      brs_separate = (\<not> is_post_madhugiri block_number)\<rparr>"

section \<open>gas.rs\<close>

definition derive_bor_receipt_gas :: "u64 \<Rightarrow> nat \<Rightarrow> u64" where
  "derive_bor_receipt_gas regular_cumulative_gas bor_tx_index = regular_cumulative_gas"

definition is_bor_system_tx :: "bool \<Rightarrow> nat \<Rightarrow> nat \<Rightarrow> nat \<Rightarrow> panic + bool" where
  "is_bor_system_tx oc tx_index total_txs bor_tx_count =
     bindR (usize_sub oc total_txs bor_tx_count) (\<lambda>first. Inr (first \<le> tx_index))"

section \<open>persistence.rs\<close>

record span_db =
  sd_spans :: "(u64, span) hmap"

definition span_db_new :: span_db where
  "span_db_new = \<lparr>sd_spans = []\<rparr>"

definition get_span :: "span_db \<Rightarrow> u64 \<Rightarrow> span option" where
  "get_span s span_id = hm_get (sd_spans s) span_id"

definition put_span :: "span_db \<Rightarrow> span \<Rightarrow> span_db" where
  "put_span s span = s\<lparr>sd_spans := hm_insert (sp_id span) span (sd_spans s)\<rparr>"

definition latest_span_id :: "span_db \<Rightarrow> u64 option" where
  "latest_span_id s =
     (case map fst (sd_spans s) of
        [] \<Rightarrow> None
      | k # ks \<Rightarrow> Some (fold max ks k))"

record snapshot_db =
  nd_snapshots :: "(b256, bytes) hmap"

definition snapshot_db_new :: snapshot_db where
  "snapshot_db_new = \<lparr>nd_snapshots = []\<rparr>"

definition db_get_snapshot :: "snapshot_db \<Rightarrow> b256 \<Rightarrow> bytes option" where
  "db_get_snapshot s block_hash = hm_get (nd_snapshots s) block_hash"

definition db_put_snapshot :: "snapshot_db \<Rightarrow> b256 \<times> bytes \<Rightarrow> snapshot_db" where
  "db_put_snapshot s e = s\<lparr>nd_snapshots := hm_insert (fst e) (snd e) (nd_snapshots s)\<rparr>"

text \<open>The traits, and the two stores as their instances.\<close>

record 's span_store_trait =
  st_get_span :: "'s \<Rightarrow> u64 \<Rightarrow> span option"
  st_put_span :: "'s \<Rightarrow> span \<Rightarrow> 's"
  st_latest_span_id :: "'s \<Rightarrow> u64 option"

record 's snapshot_store_trait =
  st_get_snapshot :: "'s \<Rightarrow> b256 \<Rightarrow> bytes option"
  st_put_snapshot :: "'s \<Rightarrow> b256 \<times> bytes \<Rightarrow> 's"

definition in_memory_span_store :: "span_db span_store_trait" where
  "in_memory_span_store =
     \<lparr>st_get_span = get_span, st_put_span = put_span, st_latest_span_id = latest_span_id\<rparr>"

definition in_memory_snapshot_store :: "snapshot_db snapshot_store_trait" where
  "in_memory_snapshot_store = \<lparr>st_get_snapshot = db_get_snapshot, st_put_snapshot = db_put_snapshot\<rparr>"

section \<open>The contract of a store\<close>

text \<open>
  \<open>put s w\<close> files the value of \<open>w\<close> under the key of \<open>w\<close>; a lookup sees the last write of its
  key and nothing else.
\<close>

locale kv_store =
  fixes get :: "'s \<Rightarrow> 'k \<Rightarrow> 'v option"
    and put :: "'s \<Rightarrow> 'w \<Rightarrow> 's"
    and new :: 's
    and key :: "'w \<Rightarrow> 'k"
    and val :: "'w \<Rightarrow> 'v"
  assumes get_new: "get new k = None"
    and get_put: "get (put s w) k = (if k = key w then Some (val w) else get s k)"
begin

lemma last_write_wins:
  "get (foldl put s ws) k =
     (case find (\<lambda>w. key w = k) (rev ws) of Some w \<Rightarrow> Some (val w) | None \<Rightarrow> get s k)"
proof (induction ws arbitrary: s rule: rev_induct)
  case Nil
  then show ?case by simp
next
  case (snoc w ws)
  then show ?case by (simp add: get_put)
qed

lemma get_from_new:
  "get (foldl put new ws) k = map_option val (find (\<lambda>w. key w = k) (rev ws))"
  by (simp add: last_write_wins get_new split: option.split)

lemma put_commutes: "key w \<noteq> key w' \<Longrightarrow> get (put (put s w) w') k = get (put (put s w') w) k"
  by (simp add: get_put)

end

text \<open>A store that also knows the largest key it holds, as \<open>SpanStore\<close> promises.\<close>

locale indexed_store = kv_store get put new key val
  for get :: "'s \<Rightarrow> 'k::linorder \<Rightarrow> 'v option" and put :: "'s \<Rightarrow> 'w \<Rightarrow> 's" and new key val +
  fixes latest :: "'s \<Rightarrow> 'k option"
  assumes latest_new: "latest new = None"
    and latest_put: "latest (put s w) = Some (case latest s of None \<Rightarrow> key w | Some k \<Rightarrow> max k (key w))"
begin

lemma latest_from_new:
  "latest (foldl put new ws) = (if ws = [] then None else Some (Max (key ` set ws)))"
proof (induction ws rule: rev_induct)
  case (snoc w ws)
  then show ?case by (auto simp: latest_put max.commute)
qed (simp add: latest_new)

lemma latest_is_stored:
  assumes "latest (foldl put new ws) = Some k"
  shows "get (foldl put new ws) k \<noteq> None" and "get (foldl put new ws) i \<noteq> None \<Longrightarrow> i \<le> k"
proof -
  have keys: "get (foldl put new ws) i \<noteq> None \<longleftrightarrow> i \<in> key ` set ws" for i
    by (auto simp: get_from_new find_None_iff)
  have k: "k = Max (key ` set ws)" "ws \<noteq> []"
    using assms by (auto simp: latest_from_new split: if_splits)
  show "get (foldl put new ws) k \<noteq> None" unfolding keys k(1) using k(2) by (intro Max_in) simp_all
  show "get (foldl put new ws) i \<noteq> None \<Longrightarrow> i \<le> k" unfolding keys k(1) by (rule Max_ge) simp
qed

end

lemma fold_max_Max: "fold max ks (k :: 'a::linorder) = Max (insert k (set ks))"
  by (metis List.set_simps(2) Max.set_eq_fold)

lemma latest_span_id_Max:
  "latest_span_id s = (if sd_spans s = [] then None else Some (Max (fst ` set (sd_spans s))))"
proof (cases "sd_spans s")
  case Nil
  then show ?thesis by (simp add: latest_span_id_def)
next
  case (Cons e es)
  then show ?thesis
    using fold_max_Max [of "map fst es" "fst e"] by (simp add: latest_span_id_def)
qed

interpretation sdb: indexed_store get_span put_span span_db_new sp_id "\<lambda>s. s" latest_span_id
proof unfold_locales
  fix s :: span_db and w
  have "sd_spans s = [] \<longleftrightarrow> fst ` set (sd_spans s) = {}" by simp
  moreover have "hm_insert k v m \<noteq> []" for k :: u64 and v :: span and m
    using hm_keys_insert [of k v m] by (cases "hm_insert k v m") auto
  ultimately show "latest_span_id (put_span s w) =
      Some (case latest_span_id s of None \<Rightarrow> sp_id w | Some k \<Rightarrow> max k (sp_id w))"
    by (simp add: latest_span_id_Max put_span_def hm_keys_insert max.commute)
qed (simp_all add: get_span_def put_span_def span_db_new_def latest_span_id_def map_laws)

interpretation ndb: kv_store db_get_snapshot db_put_snapshot snapshot_db_new fst snd
  by unfold_locales (simp_all add: db_get_snapshot_def db_put_snapshot_def snapshot_db_new_def map_laws)

section \<open>Lemmas\<close>

lemma length_receipt_prefix [simp]: "length BOR_RECEIPT_PREFIX = 18"
  by (simp add: BOR_RECEIPT_PREFIX_def ascii_bytes_def)

lemma length_receipt_key [simp]: "length (bor_receipt_key n h) = 58"
  by (simp add: bor_receipt_key_def u64_be_bytes_def b256_bytes_def)

lemma is_post_madhugiri_iff: "is_post_madhugiri n \<longleftrightarrow> mainnet_block Madhugiri \<le> n"
  by (simp add: is_post_madhugiri_def MADHUGIRI_BLOCK_def)

section \<open>Properties\<close>

text \<open>
  Receipt keys are collision-free: 58 bytes that start with the prefix, and two blocks share
  a key only if number and hash are the same, so no Bor receipt can overwrite another's.
\<close>

theorem bor_receipt_key_injective:
  "length (bor_receipt_key n h) = 58 \<and> take 18 (bor_receipt_key n h) = BOR_RECEIPT_PREFIX \<and>
   (bor_receipt_key n h = bor_receipt_key n' h' \<longleftrightarrow> n = n' \<and> h = h')"
proof -
  have "u64_be_bytes n @ b256_bytes h = u64_be_bytes n' @ b256_bytes h' \<longleftrightarrow> n = n' \<and> h = h'"
  proof -
    have "length (u64_be_bytes n) = length (u64_be_bytes n')" by (simp add: u64_be_bytes_def)
    then show ?thesis by (auto dest: u64_be_bytes_inject b256_bytes_inject)
  qed
  then show ?thesis by (simp add: bor_receipt_key_def)
qed

text \<open>
  A Bor receipt is kept in exactly one place: at every block, either it is stored separately
  and the receipt trie holds just the regular receipts in order, or it is not and the trie
  holds them followed by it; the switch is the Madhugiri block of mainnet.
\<close>

theorem bor_receipt_one_place:
  "brs_separate (store_block_receipts n h) = (n < mainnet_block Madhugiri) \<and>
   compute_receipt_root rs (Some b) n = (if brs_separate (store_block_receipts n h) then rs else rs @ [b]) \<and>
   compute_receipt_root rs None n = rs"
  by (auto simp: store_block_receipts_def compute_receipt_root_def is_post_madhugiri_iff not_le)

text \<open>
  System transactions are the last ones: with \<open>c\<close> of \<open>n\<close> transactions, exactly the last \<open>c\<close>
  indices are reported as system transactions; if \<open>c\<close> exceeds \<open>n\<close> the subtraction panics with
  overflow checks, and without them the index is compared with the wrapped difference.
\<close>

theorem is_bor_system_tx_suffix:
  "if c \<le> n
   then {i. i < n \<and> is_bor_system_tx oc i n c = Inr True} = {n - c..<n}
   else if oc then is_bor_system_tx oc i n c = Inl ArithmeticOverflow
   else is_bor_system_tx oc i n c = Inr (2 ^ 64 + n - c \<le> i)"
  by (auto simp: is_bor_system_tx_def usize_sub_def)

text \<open>
  The span store: after any sequence of \<open>put_span\<close> calls on a new store a lookup returns the
  span put last under that id, and \<open>latest_span_id\<close> is the largest id put, if any.
\<close>

theorem span_db_last_write:
  "get_span (foldl put_span span_db_new spans) i = find (\<lambda>s. sp_id s = i) (rev spans) \<and>
   latest_span_id (foldl put_span span_db_new spans) =
     (if spans = [] then None else Some (Max (sp_id ` set spans)))"
  using sdb.get_from_new [of spans i] sdb.latest_from_new [of spans]
  by (simp add: map_option.identity [unfolded id_def])

end
