(* ===== verification/Bor_Node.thy ===== *)
theory Bor_Node
  imports Bor_Storage Consensus_Recents
begin

text \<open>
  \<open>bor-node\<close>: configuration, the node with its snapshot store, and the eth handshake with the
  Go-Bor status message. \<open>serde_json\<close>, the RLP codec, the fork filter and the peer's stream are
  arguments; a handshake returns its result together with what it did on the wire.
\<close>

section \<open>config.rs\<close>

datatype bor_network = Mainnet | Amoy

record bor_node_config =
  nc_network :: bor_network
  nc_heimdall_url :: string
  nc_data_dir :: string
  nc_rpc_addr :: string
  nc_rpc_port :: "16 word"
  nc_p2p_port :: "16 word"

definition config_mainnet :: bor_node_config where
  "config_mainnet = \<lparr>nc_network = Mainnet, nc_heimdall_url = ''https://heimdall-api.polygon.technology'',
     nc_data_dir = ''~/.boreth'', nc_rpc_addr = ''127.0.0.1'', nc_rpc_port = 8545, nc_p2p_port = 30303\<rparr>"

definition config_amoy :: bor_node_config where
  "config_amoy = \<lparr>nc_network = Amoy, nc_heimdall_url = ''https://heimdall-api-amoy.polygon.technology'',
     nc_data_dir = ''~/.boreth-amoy'', nc_rpc_addr = ''127.0.0.1'', nc_rpc_port = 8545, nc_p2p_port = 30303\<rparr>"

definition config_chain_id :: "bor_node_config \<Rightarrow> u64" where
  "config_chain_id c = (case nc_network c of Mainnet \<Rightarrow> MAINNET_CHAIN_ID | Amoy \<Rightarrow> AMOY_CHAIN_ID)"

section \<open>node.rs\<close>

record 'i bor_node =
  bn_config :: bor_node_config
  bn_chain_spec :: "'i bor_chain_spec"
  bn_span_store :: span_db
  bn_snapshot_store :: snapshot_db

definition bor_node_new ::
    "(u64 \<Rightarrow> 'g \<Rightarrow> (string \<times> fork_condition) list \<Rightarrow> 'i) \<Rightarrow> 'g \<Rightarrow> (string + 'g) \<Rightarrow> bor_node_config \<Rightarrow>
     panic + 'i bor_node" where
  "bor_node_new build default_genesis amoy_json config =
     bindR (case nc_network config of
              Mainnet \<Rightarrow> bor_mainnet_genesis build default_genesis
            | Amoy \<Rightarrow> bor_amoy_genesis build amoy_json) (\<lambda>chain_spec.
     Inr \<lparr>bn_config = config, bn_chain_spec = chain_spec, bn_span_store = span_db_new,
          bn_snapshot_store = snapshot_db_new\<rparr>)"

definition node_chain_id :: "'i bor_node \<Rightarrow> u64" where
  "node_chain_id n = config_chain_id (bn_config n)"

definition node_put_snapshot ::
    "(bor_snapshot \<Rightarrow> string + bytes) \<Rightarrow> 'i bor_node \<Rightarrow> b256 \<Rightarrow> bor_snapshot \<Rightarrow> panic + 'i bor_node" where
  "node_put_snapshot to_vec n block_hash snapshot =
     bindR (snapshot_encode to_vec snapshot) (\<lambda>data.
     Inr (n\<lparr>bn_snapshot_store := db_put_snapshot (bn_snapshot_store n) (block_hash, data)\<rparr>))"

definition node_get_snapshot ::
    "(bytes \<Rightarrow> string + bor_snapshot) \<Rightarrow> 'i bor_node \<Rightarrow> b256 \<Rightarrow> string + bor_snapshot option" where
  "node_get_snapshot from_slice n block_hash =
     (case db_get_snapshot (bn_snapshot_store n) block_hash of
        Some data \<Rightarrow> bindR (snapshot_decode from_slice data) (\<lambda>snap. Inr (Some snap))
      | None \<Rightarrow> Inr None)"

text \<open>Any number of stores.\<close>

primrec node_put_all ::
    "(bor_snapshot \<Rightarrow> string + bytes) \<Rightarrow> 'i bor_node \<Rightarrow> (b256 \<times> bor_snapshot) list \<Rightarrow> panic + 'i bor_node" where
  "node_put_all to_vec n [] = Inr n"
| "node_put_all to_vec n (e # es) =
     bindR (node_put_snapshot to_vec n (fst e) (snd e)) (\<lambda>n'. node_put_all to_vec n' es)"

section \<open>handshake.rs\<close>

text \<open>An \<open>EthVersion\<close> is its number; a message id too, \<open>Status\<close> is 0.\<close>

record 'f bor_status =
  st_version :: nat
  st_chain :: u64
  st_total_difficulty :: u256
  st_genesis :: b256
  st_forkid :: 'f
  st_earliest :: u64
  st_latest :: u64
  st_blockhash :: b256

record 'f unified_status =
  us_version :: nat
  us_chain :: u64
  us_genesis :: b256
  us_forkid :: 'f
  us_blockhash :: b256
  us_total_difficulty :: "u256 option"
  us_earliest_block :: "u64 option"
  us_latest_block :: "u64 option"

text \<open>The codecs of Reth and Alloy, with the error type \<open>'m\<close> of the message decoder.\<close>

record ('f, 'm) wire =
  wi_encode_status_id :: bytes
  wi_encode_bor_status :: "'f bor_status \<Rightarrow> bytes"
  wi_encode_legacy_status :: "'f unified_status \<Rightarrow> bytes"
  wi_decode_id :: "bytes \<Rightarrow> 'm + (nat \<times> bytes)"
  wi_expected_status :: "nat \<Rightarrow> 'm"
  wi_decode_bor_status :: "bytes \<Rightarrow> 'm + 'f bor_status"
  wi_decode_status :: "nat \<Rightarrow> bytes \<Rightarrow> 'm + 'f unified_status"

datatype ('m, 'e) handshake_error =
    P2PError string
  | NoResponse
  | StreamTimeout
  | MessageTooBig nat
  | InvalidMessage 'm
  | MismatchedGenesis b256 b256
  | MismatchedProtocolVersion nat nat
  | MismatchedChain u64 u64
  | TotalDifficultyBitLenTooLarge nat nat
  | InvalidFork 'e
  | EarliestBlockGreaterThanLatestBlock u64 u64
  | BlockhashZero

datatype disconnect_reason = DisconnectRequested | ProtocolBreach

datatype action = Sent bytes | Disconnected disconnect_reason

text \<open>The peer's stream: errors of our send and disconnect, and what the next message is.\<close>

record peer =
  pe_send :: "string option"
  pe_next :: "(string + bytes) option"
  pe_disconnect :: "string option"

fun nat_bit_len :: "nat \<Rightarrow> nat" where
  "nat_bit_len n = (if n = 0 then 0 else Suc (nat_bit_len (n div 2)))"

declare nat_bit_len.simps [simp del]

definition bit_len :: "u256 \<Rightarrow> nat" where
  "bit_len x = nat_bit_len (unat x)"

definition unwrap_or :: "'a \<Rightarrow> 'a option \<Rightarrow> 'a" where
  "unwrap_or d x = (case x of None \<Rightarrow> d | Some v \<Rightarrow> v)"

definition our_bor_status :: "'f unified_status \<Rightarrow> 'f bor_status" where
  "our_bor_status u =
     \<lparr>st_version = us_version u, st_chain = us_chain u,
      st_total_difficulty = unwrap_or 0 (us_total_difficulty u), st_genesis = us_genesis u,
      st_forkid = us_forkid u, st_earliest = unwrap_or 0 (us_earliest_block u),
      st_latest = unwrap_or 0 (us_latest_block u), st_blockhash = us_blockhash u\<rparr>"

definition status_bytes :: "('f, 'm) wire \<Rightarrow> 'f unified_status \<Rightarrow> bytes" where
  "status_bytes W u =
     (if 69 \<le> us_version u then wi_encode_status_id W @ wi_encode_bor_status W (our_bor_status u)
      else wi_encode_legacy_status W u)"

definition decode_bor_eth69_status :: "('f, 'm) wire \<Rightarrow> bytes \<Rightarrow> 'm + 'f unified_status" where
  "decode_bor_eth69_status W msg =
     bindR (wi_decode_id W msg) (\<lambda>(message_type, buf).
     if message_type \<noteq> 0 then Inl (wi_expected_status W message_type)
     else case wi_decode_bor_status W buf of
            Inr b \<Rightarrow> Inr \<lparr>us_version = st_version b, us_chain = st_chain b, us_genesis = st_genesis b,
              us_forkid = st_forkid b, us_blockhash = st_blockhash b,
              us_total_difficulty = Some (st_total_difficulty b),
              us_earliest_block = Some (st_earliest b), us_latest_block = Some (st_latest b)\<rparr>
          | Inl _ \<Rightarrow> wi_decode_status W 69 msg)"

text \<open>\<open>unauth.disconnect(..).await.map_err(..)?; return Err(err)\<close>\<close>

definition reject ::
    "peer \<Rightarrow> disconnect_reason \<Rightarrow> ('m, 'e) handshake_error \<Rightarrow> action list \<Rightarrow>
     (('m, 'e) handshake_error + 'a) \<times> action list" where
  "reject P reason err acts =
     (case pe_disconnect P of
        Some e \<Rightarrow> (Inl (P2PError e), acts)
      | None \<Rightarrow> (Inl err, acts @ [Disconnected reason]))"

text \<open>The checks on a decoded status, in the order of the code.\<close>

definition validate_status ::
    "('f \<Rightarrow> 'e + unit) \<Rightarrow> peer \<Rightarrow> 'f unified_status \<Rightarrow> 'f unified_status \<Rightarrow> action list \<Rightarrow>
     (('m, 'e) handshake_error + 'f unified_status) \<times> action list" where
  "validate_status fork_filter P ours theirs acts =
     (if us_genesis ours \<noteq> us_genesis theirs then
        reject P ProtocolBreach (MismatchedGenesis (us_genesis theirs) (us_genesis ours)) acts
      else if us_version ours \<noteq> us_version theirs then
        reject P ProtocolBreach (MismatchedProtocolVersion (us_version theirs) (us_version ours)) acts
      else if us_chain ours \<noteq> us_chain theirs then
        reject P ProtocolBreach (MismatchedChain (us_chain theirs) (us_chain ours)) acts
      else if (case us_total_difficulty theirs of None \<Rightarrow> False | Some td \<Rightarrow> 160 < bit_len td) then
        reject P ProtocolBreach
          (TotalDifficultyBitLenTooLarge (bit_len (unwrap_or 0 (us_total_difficulty theirs))) 160) acts
      else
        case fork_filter (us_forkid theirs) of
          Inl e \<Rightarrow> reject P ProtocolBreach (InvalidFork e) acts
        | Inr _ \<Rightarrow>
            (case (us_earliest_block theirs, us_latest_block theirs) of
               (Some earliest, Some latest) \<Rightarrow>
                 if latest < earliest then
                   (Inl (EarliestBlockGreaterThanLatestBlock earliest latest), acts)
                 else if us_blockhash theirs = 0 then (Inl BlockhashZero, acts)
                 else (Inr theirs, acts)
             | _ \<Rightarrow> (Inr theirs, acts)))"

definition bor_eth_handshake ::
    "('f, 'm) wire \<Rightarrow> ('f \<Rightarrow> 'e + unit) \<Rightarrow> peer \<Rightarrow> 'f unified_status \<Rightarrow>
     (('m, 'e) handshake_error + 'f unified_status) \<times> action list" where
  "bor_eth_handshake W fork_filter P ours =
     (case pe_send P of
        Some e \<Rightarrow> (Inl (P2PError e), [])
      | None \<Rightarrow>
          let acts = [Sent (status_bytes W ours)] in
          (case pe_next P of
             Some (Inl e) \<Rightarrow> (Inl (P2PError e), acts)
           | None \<Rightarrow> reject P DisconnectRequested NoResponse acts
           | Some (Inr msg) \<Rightarrow>
               if 10 * 1024 * 1024 < length msg then
                 reject P ProtocolBreach (MessageTooBig (length msg)) acts
               else if 69 \<le> us_version ours then
                 (case decode_bor_eth69_status W msg of
                    Inl e \<Rightarrow> (Inl (InvalidMessage e), acts)
                  | Inr theirs \<Rightarrow> validate_status fork_filter P ours theirs acts)
               else
                 (case wi_decode_status W (us_version ours) msg of
                    Inl e \<Rightarrow> reject P ProtocolBreach (InvalidMessage e) acts
                  | Inr theirs \<Rightarrow> validate_status fork_filter P ours theirs acts)))"

text \<open>The timer of \<open>EthRlpxHandshake::handshake\<close>: whether it fires first is an argument.\<close>

definition handshake ::
    "bool \<Rightarrow> ('f, 'm) wire \<Rightarrow> ('f \<Rightarrow> 'e + unit) \<Rightarrow> peer \<Rightarrow> 'f unified_status \<Rightarrow>
     ('m, 'e) handshake_error + 'f unified_status" where
  "handshake elapsed W fork_filter P status =
     (if elapsed then Inl StreamTimeout else fst (bor_eth_handshake W fork_filter P status))"

section \<open>Lemmas\<close>

lemma nat_bit_len_gt: "k < nat_bit_len n \<longleftrightarrow> 2 ^ k \<le> n"
proof (induction k arbitrary: n)
  case 0
  then show ?case by (subst nat_bit_len.simps) auto
next
  case (Suc k)
  have "Suc k < nat_bit_len n \<longleftrightarrow> n \<noteq> 0 \<and> k < nat_bit_len (n div 2)"
    by (subst nat_bit_len.simps) auto
  also have "\<dots> \<longleftrightarrow> 2 ^ Suc k \<le> n"
    unfolding Suc.IH by (cases "n = 0") (auto simp: less_eq_div_iff_mult_less_eq mult.commute)
  finally show ?case .
qed

lemma bit_len_gt: "k < bit_len x \<longleftrightarrow> 2 ^ k \<le> unat x"
  by (simp add: bit_len_def nat_bit_len_gt)

text \<open>The status that passes all checks.\<close>

definition status_ok :: "('f \<Rightarrow> 'e + unit) \<Rightarrow> 'f unified_status \<Rightarrow> 'f unified_status \<Rightarrow> bool" where
  "status_ok fork_filter ours theirs \<longleftrightarrow>
     us_genesis ours = us_genesis theirs \<and> us_version ours = us_version theirs \<and>
     us_chain ours = us_chain theirs \<and>
     (case us_total_difficulty theirs of None \<Rightarrow> True | Some td \<Rightarrow> unat td < 2 ^ 160) \<and>
     fork_filter (us_forkid theirs) = Inr () \<and>
     (case (us_earliest_block theirs, us_latest_block theirs) of
        (Some earliest, Some latest) \<Rightarrow> earliest \<le> latest \<and> us_blockhash theirs \<noteq> 0
      | _ \<Rightarrow> True)"

lemma reject_not_Inr [simp]: "reject P r err acts \<noteq> (Inr x, acts')" "(Inr x, acts') \<noteq> reject P r err acts"
  by (auto simp: reject_def split: option.splits)

lemma validate_status_Inr:
  "validate_status ff P ours theirs acts = (Inr st, acts') \<longleftrightarrow>
     st = theirs \<and> acts' = acts \<and> status_ok ff ours theirs"
proof -
  have td: "(case us_total_difficulty theirs of None \<Rightarrow> False | Some td \<Rightarrow> 160 < bit_len td) \<longleftrightarrow>
      \<not> (case us_total_difficulty theirs of None \<Rightarrow> True | Some td \<Rightarrow> unat td < 2 ^ 160)"
    by (simp add: bit_len_gt not_less split: option.splits)
  show ?thesis
    unfolding validate_status_def td status_ok_def
    by (auto split: sum.splits option.splits if_splits)
qed

lemma validate_status_silent:
  assumes "pe_disconnect P = None" and "validate_status ff P ours theirs acts = (Inl err, acts')"
  shows "acts' = acts \<longleftrightarrow>
     (case err of EarliestBlockGreaterThanLatestBlock _ _ \<Rightarrow> True | BlockhashZero \<Rightarrow> True | _ \<Rightarrow> False)"
    and "\<exists>r. acts' = acts \<or> acts' = acts @ [Disconnected r]"
    and "err \<noteq> InvalidMessage m"
  using assms by (auto simp: validate_status_def reject_def split: sum.splits option.splits if_splits)

lemma put_all_store:
  assumes "\<And>h s. (h, s) \<in> set es \<Longrightarrow> \<exists>d. to_vec s = Inr d"
  shows "\<exists>n'. node_put_all to_vec n es = Inr n' \<and>
     bn_snapshot_store n' = foldl db_put_snapshot (bn_snapshot_store n) (map (\<lambda>(h, s). (h, projr (to_vec s))) es)"
  using assms
proof (induction es arbitrary: n)
  case Nil
  then show ?case by simp
next
  case (Cons e es)
  obtain h s where e: "e = (h, s)" by (cases e)
  obtain d where d: "to_vec s = Inr d" using Cons.prems [of h s] by (auto simp: e)
  have "\<And>h s. (h, s) \<in> set es \<Longrightarrow> \<exists>d. to_vec s = Inr d" using Cons.prems by auto
  from Cons.IH [of "n\<lparr>bn_snapshot_store := db_put_snapshot (bn_snapshot_store n) (h, d)\<rparr>", OF this]
  show ?case by (simp add: node_put_snapshot_def snapshot_encode_def e d)
qed

section \<open>Properties\<close>

text \<open>
  C36. Snapshots survive the store: if each stored snapshot can be serialised and read back, then
  after any sequence of \<open>put_snapshot\<close> calls on a node with an empty store no call has
  panicked, and \<open>get_snapshot\<close> returns for every block hash the snapshot stored last under it,
  or nothing if none was.
\<close>

theorem node_snapshot_roundtrip:
  assumes "\<And>h s. (h, s) \<in> set es \<Longrightarrow> \<exists>d. to_vec s = Inr d \<and> from_slice d = Inr s"
    and "bn_snapshot_store n = snapshot_db_new"
  shows "\<exists>n'. node_put_all to_vec n es = Inr n' \<and>
     node_get_snapshot from_slice n' hash = Inr (map_of (rev es) hash)"
proof -
  obtain n' where n': "node_put_all to_vec n es = Inr n'"
      "bn_snapshot_store n' = foldl db_put_snapshot snapshot_db_new (map (\<lambda>(h, s). (h, projr (to_vec s))) es)"
    using put_all_store [of es to_vec n] assms by fastforce
  have look: "find (\<lambda>w. fst w = hash) (map (\<lambda>(h, s). (h, f s)) xs) = map_option (\<lambda>s. (hash, f s)) (map_of xs hash)"
    for f :: "bor_snapshot \<Rightarrow> bytes" and xs
    by (induction xs) auto
  have get: "db_get_snapshot (bn_snapshot_store n') hash = map_option (\<lambda>s. projr (to_vec s)) (map_of (rev es) hash)"
    unfolding n'(2) ndb.get_from_new rev_map look by (simp add: option.map_comp comp_def)
  have "from_slice (projr (to_vec s)) = Inr s" if "map_of (rev es) hash = Some s" for s
    using assms(1) [of hash s] map_of_SomeD [OF that] by auto
  then show ?thesis
    using n'(1) by (auto simp: node_get_snapshot_def get snapshot_decode_def split: option.splits)
qed

text \<open>
  C34. Which peers are accepted: the handshake succeeds with a status if and only if our status
  was sent, a message of at most 10 MiB arrived and decodes to that status, genesis, version
  and chain are ours, the total difficulty fits 160 bits, the fork filter agrees and a given
  block range is ordered with a non-zero block hash; it then has sent nothing else.
\<close>

theorem handshake_accepts_iff:
  "bor_eth_handshake W ff P ours = (Inr st, acts) \<longleftrightarrow>
     acts = [Sent (status_bytes W ours)] \<and> pe_send P = None \<and>
     (\<exists>msg. pe_next P = Some (Inr msg) \<and> length msg \<le> 10485760 \<and>
        (if 69 \<le> us_version ours then decode_bor_eth69_status W msg else wi_decode_status W (us_version ours) msg) =
          Inr st) \<and>
     us_genesis st = us_genesis ours \<and> us_version st = us_version ours \<and> us_chain st = us_chain ours \<and>
     (case us_total_difficulty st of None \<Rightarrow> True | Some td \<Rightarrow> unat td < 2 ^ 160) \<and>
     ff (us_forkid st) = Inr () \<and>
     (case (us_earliest_block st, us_latest_block st) of
        (Some earliest, Some latest) \<Rightarrow> earliest \<le> latest \<and> us_blockhash st \<noteq> 0
      | _ \<Rightarrow> True)"
proof -
  have "bor_eth_handshake W ff P ours = (Inr st, acts) \<longleftrightarrow>
      acts = [Sent (status_bytes W ours)] \<and> pe_send P = None \<and>
      (\<exists>msg. pe_next P = Some (Inr msg) \<and> length msg \<le> 10485760 \<and>
        (if 69 \<le> us_version ours then decode_bor_eth69_status W msg else wi_decode_status W (us_version ours) msg) =
          Inr st) \<and> status_ok ff ours st"
    by (auto simp: bor_eth_handshake_def Let_def validate_status_Inr not_less
        split: option.splits sum.splits if_splits)
  then show ?thesis by (auto simp: status_ok_def)
qed

text \<open>
  C35. Which refusals close the connection: on a working stream every refused peer is
  disconnected, except for a bad block range or block hash and, from eth/69 on, a status that
  does not decode; those return the error and leave the connection open.
\<close>

theorem handshake_silent_refusals:
  assumes "pe_send P = None" and "pe_disconnect P = None" and "\<nexists>e. pe_next P = Some (Inl e)"
    and "bor_eth_handshake W ff P ours = (Inl err, acts)"
  shows "(acts = [Sent (status_bytes W ours)] \<longleftrightarrow>
       (case err of InvalidMessage _ \<Rightarrow> 69 \<le> us_version ours
        | EarliestBlockGreaterThanLatestBlock _ _ \<Rightarrow> True
        | BlockhashZero \<Rightarrow> True
        | _ \<Rightarrow> False)) \<and>
     (acts = [Sent (status_bytes W ours)] \<or> (\<exists>r. acts = [Sent (status_bytes W ours), Disconnected r]))"
proof -
  let ?acts = "[Sent (status_bytes W ours)]"
  consider (closed) "pe_next P = None" | (msg) m where "pe_next P = Some (Inr m)"
    using assms(3) by (metis option.exhaust sum.exhaust)
  then show ?thesis
  proof cases
    case closed
    then show ?thesis using assms(1,2,4) by (auto simp: bor_eth_handshake_def reject_def)
  next
    case (msg m)
    have val: ?thesis if "validate_status ff P ours theirs ?acts = (Inl err, acts)" for theirs
      using validate_status_silent [OF assms(2) that] by (cases err) auto
    show ?thesis
      using assms(1,2,4) msg
      by (auto simp: bor_eth_handshake_def reject_def Let_def split: if_splits sum.splits dest!: val)
  qed
qed

text \<open>
  Two boreth nodes understand each other on eth/69: where the codec reads back what it wrote,
  the status that one node sends is decoded by the other as that status (absent total
  difficulty and block range as zero), and the handshake succeeds if genesis, version, chain,
  fork filter and block range agree.
\<close>

theorem boreth_peers_agree:
  assumes "wi_decode_id W (wi_encode_status_id W @ wi_encode_bor_status W (our_bor_status theirs)) =
      Inr (0, wi_encode_bor_status W (our_bor_status theirs))"
    and "wi_decode_bor_status W (wi_encode_bor_status W (our_bor_status theirs)) = Inr (our_bor_status theirs)"
    and "69 \<le> us_version ours" and "us_version theirs = us_version ours"
    and "us_genesis theirs = us_genesis ours" and "us_chain theirs = us_chain ours"
    and "unat (unwrap_or 0 (us_total_difficulty theirs)) < 2 ^ 160" and "ff (us_forkid theirs) = Inr ()"
    and "unwrap_or 0 (us_earliest_block theirs) \<le> unwrap_or 0 (us_latest_block theirs)"
    and "us_blockhash theirs \<noteq> 0"
    and "pe_send P = None" and "pe_next P = Some (Inr (status_bytes W theirs))"
    and "length (status_bytes W theirs) \<le> 10485760"
  shows "handshake False W ff P ours = Inr (theirs
     \<lparr>us_total_difficulty := Some (unwrap_or 0 (us_total_difficulty theirs)),
      us_earliest_block := Some (unwrap_or 0 (us_earliest_block theirs)),
      us_latest_block := Some (unwrap_or 0 (us_latest_block theirs))\<rparr>)"
proof -
  let ?st = "theirs\<lparr>us_total_difficulty := Some (unwrap_or 0 (us_total_difficulty theirs)),
      us_earliest_block := Some (unwrap_or 0 (us_earliest_block theirs)),
      us_latest_block := Some (unwrap_or 0 (us_latest_block theirs))\<rparr>"
  have dec: "decode_bor_eth69_status W (status_bytes W theirs) = Inr ?st"
    using assms(1-4) by (simp add: decode_bor_eth69_status_def status_bytes_def our_bor_status_def)
  have "status_ok ff ours ?st" using assms(4-10) by (simp add: status_ok_def)
  then have "bor_eth_handshake W ff P ours = (Inr ?st, [Sent (status_bytes W ours)])"
    using assms(3,11-13) by (simp add: bor_eth_handshake_def dec Let_def validate_status_Inr)
  then show ?thesis by (simp add: handshake_def)
qed

section \<open>Witnesses\<close>

definition demo_snapshot :: bor_snapshot where
  "demo_snapshot = snapshot_new 100 7 \<lparr>vs_validators = [], vs_proposer = None\<rparr>"

definition demo_node :: "unit bor_node" where
  "demo_node = \<lparr>bn_config = config_amoy, bn_chain_spec = \<lparr>cs_inner = (), cs_bor_hardforks = []\<rparr>,
     bn_span_store = span_db_new, bn_snapshot_store = snapshot_db_new\<rparr>"

theorem node_snapshot_roundtrip_witness:
  "\<exists>n'. node_put_all (\<lambda>s. Inr [1]) demo_node [(7, demo_snapshot)] = Inr n' \<and>
     node_get_snapshot (\<lambda>d. Inr demo_snapshot) n' 7 = Inr (Some demo_snapshot)"
  using node_snapshot_roundtrip [of "[(7, demo_snapshot)]" "\<lambda>s. Inr [1]" "\<lambda>d. Inr demo_snapshot" demo_node 7]
  by (simp add: demo_node_def)

definition demo_status :: "nat unified_status" where
  "demo_status = \<lparr>us_version = 69, us_chain = 137, us_genesis = 5, us_forkid = 3, us_blockhash = 9,
     us_total_difficulty = None, us_earliest_block = Some 0, us_latest_block = Some 100\<rparr>"

definition demo_wire :: "(nat, string) wire" where
  "demo_wire = \<lparr>wi_encode_status_id = [0], wi_encode_bor_status = (\<lambda>b. [1]),
     wi_encode_legacy_status = (\<lambda>u. []), wi_decode_id = (\<lambda>bs. Inr (unat (hd bs), tl bs)),
     wi_expected_status = (\<lambda>i. ''expected status''), wi_decode_bor_status = (\<lambda>bs. Inr (our_bor_status demo_status)),
     wi_decode_status = (\<lambda>v bs. Inl ''no'')\<rparr>"

theorem boreth_peers_agree_witness:
  "handshake False demo_wire (\<lambda>f. (Inr () :: string + unit)) \<lparr>pe_send = None,
       pe_next = Some (Inr (status_bytes demo_wire demo_status)), pe_disconnect = None\<rparr> demo_status =
     Inr (demo_status\<lparr>us_total_difficulty := Some 0\<rparr>)"
  using boreth_peers_agree [of demo_wire demo_status demo_status "\<lambda>f. (Inr () :: string + unit)"
      "\<lparr>pe_send = None, pe_next = Some (Inr (status_bytes demo_wire demo_status)), pe_disconnect = None\<rparr>"]
  by (simp add: demo_wire_def demo_status_def unwrap_or_def status_bytes_def)

theorem handshake_silent_refusals_witness:
  "bor_eth_handshake demo_wire (\<lambda>f. (Inr () :: string + unit))
     \<lparr>pe_send = None, pe_next = Some (Inr [1]), pe_disconnect = None\<rparr> demo_status =
     (Inl (InvalidMessage ''expected status''), [Sent (status_bytes demo_wire demo_status)])"
proof -
  let ?P = "\<lparr>pe_send = None, pe_next = Some (Inr [1]), pe_disconnect = None\<rparr>"
  obtain acts where h: "bor_eth_handshake demo_wire (\<lambda>f. (Inr () :: string + unit)) ?P demo_status =
      (Inl (InvalidMessage ''expected status''), acts)"
    by (simp add: bor_eth_handshake_def decode_bor_eth69_status_def demo_wire_def demo_status_def)
  with handshake_silent_refusals [OF _ _ _ h] show ?thesis by (simp add: demo_status_def)
qed

end
