(* ===== verification/Evm_System.thy ===== *)
theory Evm_System
  imports Bor_Chainspec
begin

text \<open>
  \<open>bor-evm/src/config.rs\<close>, \<open>system_call.rs\<close> and \<open>executor.rs\<close>: the precompile set, the call data
  of the two system calls and the plan of the system transactions of a block. The Solidity ABI
  encoder (\<open>alloy_sol_types\<close>) is the argument \<open>abi\<close>.
\<close>

section \<open>config.rs\<close>

definition P256_VERIFY_ADDRESS :: address where
  "P256_VERIFY_ADDRESS = 0x100"

definition bor_precompile_addresses :: "u64 \<Rightarrow> address list" where
  "bor_precompile_addresses block =
     (let addrs = map (\<lambda>i. word_of_nat (be_value (replicate 19 0 @ [word_of_nat i]))) [1..<10]
      in if mainnet_block Napoli \<le> block then addrs @ [P256_VERIFY_ADDRESS] else addrs)"

section \<open>system\_call.rs\<close>

type_synonym abi_encoder = "u256 \<Rightarrow> bytes \<Rightarrow> bytes"

definition COMMIT_SPAN_SELECTOR :: bytes where
  "COMMIT_SPAN_SELECTOR = [0x60, 0xcc, 0x80, 0xd8]"

definition ON_STATE_RECEIVE_SELECTOR :: bytes where
  "ON_STATE_RECEIVE_SELECTOR = [0x26, 0xc5, 0x3b, 0xea]"

record commit_span_call =
  csc_span_id :: u256
  csc_validator_bytes :: bytes

definition commit_span_call_data :: "abi_encoder \<Rightarrow> commit_span_call \<Rightarrow> bytes" where
  "commit_span_call_data abi c = COMMIT_SPAN_SELECTOR @ abi (csc_span_id c) (csc_validator_bytes c)"

definition commit_span_to_address :: address where
  "commit_span_to_address = BOR_VALIDATOR_SET_ADDRESS"

definition commit_span_caller :: address where
  "commit_span_caller = SYSTEM_ADDRESS"

record state_receive_call =
  src_state_id :: u256
  src_data :: bytes

definition state_receive_call_data :: "abi_encoder \<Rightarrow> state_receive_call \<Rightarrow> bytes" where
  "state_receive_call_data abi c = ON_STATE_RECEIVE_SELECTOR @ abi (src_state_id c) (src_data c)"

definition state_receive_to_address :: address where
  "state_receive_to_address = STATE_RECEIVER_ADDRESS"

definition state_receive_caller :: address where
  "state_receive_caller = SYSTEM_ADDRESS"

definition prepare_state_sync_calls :: "(u256 \<times> bytes) list \<Rightarrow> state_receive_call list" where
  "prepare_state_sync_calls events = map (\<lambda>(state_id, data). \<lparr>src_state_id = state_id, src_data = data\<rparr>) events"

section \<open>executor.rs\<close>

record system_call_record =
  scr_to :: address
  scr_from :: address
  scr_data :: bytes

record system_tx_result =
  str_commit_span_executed :: bool
  str_state_sync_count :: nat
  str_system_calls :: "system_call_record list"

record system_tx_plan =
  stp_execute_commit_span :: bool
  stp_state_sync_events :: "(u256 \<times> bytes) list"

text \<open>\<open>block_number > 0 && block_number % size == 0\<close>: the remainder is taken only above block 0.\<close>

definition is_boundary :: "u64 \<Rightarrow> u64 \<Rightarrow> panic + bool" where
  "is_boundary block_number sz =
     (if 0 < block_number then bindR (u64_rem block_number sz) (\<lambda>r. Inr (r = 0)) else Inr False)"

definition plan_system_txs ::
    "u64 \<Rightarrow> u64 \<Rightarrow> u64 \<Rightarrow> bool \<Rightarrow> (u256 \<times> bytes) list \<Rightarrow> panic + system_tx_plan" where
  "plan_system_txs block_number sprint_sz span_sz has_pending_span pending_events =
     bindR (is_boundary block_number sprint_sz) (\<lambda>is_sprint_boundary.
     bindR (is_boundary block_number span_sz) (\<lambda>is_span_boundary.
     Inr \<lparr>stp_execute_commit_span = (is_span_boundary \<and> has_pending_span),
          stp_state_sync_events = (if is_sprint_boundary then pending_events else [])\<rparr>))"

definition commit_span_record :: "abi_encoder \<Rightarrow> u256 \<Rightarrow> bytes \<Rightarrow> system_call_record" where
  "commit_span_record abi span_id val_bytes =
     \<lparr>scr_to = commit_span_to_address, scr_from = commit_span_caller,
      scr_data = commit_span_call_data abi \<lparr>csc_span_id = span_id, csc_validator_bytes = val_bytes\<rparr>\<rparr>"

definition state_receive_record :: "abi_encoder \<Rightarrow> u256 \<times> bytes \<Rightarrow> system_call_record" where
  "state_receive_record abi e =
     \<lparr>scr_to = state_receive_to_address, scr_from = state_receive_caller,
      scr_data = state_receive_call_data abi \<lparr>src_state_id = fst e, src_data = snd e\<rparr>\<rparr>"

text \<open>The loop over the events: it pushes a record and counts.\<close>

fun push_state_syncs ::
    "abi_encoder \<Rightarrow> (u256 \<times> bytes) list \<Rightarrow> system_call_record list \<times> nat \<Rightarrow> system_call_record list \<times> nat" where
  "push_state_syncs abi [] acc = acc"
| "push_state_syncs abi (e # es) (calls, n) =
     push_state_syncs abi es (calls @ [state_receive_record abi e], n + 1)"

definition execute_system_tx_plan ::
    "abi_encoder \<Rightarrow> system_tx_plan \<Rightarrow> u256 option \<Rightarrow> bytes option \<Rightarrow> system_tx_result" where
  "execute_system_tx_plan abi plan span_id validator_bytes =
     (let (calls, committed) =
        (if stp_execute_commit_span plan then
           (case (span_id, validator_bytes) of
              (Some i, Some vb) \<Rightarrow> ([commit_span_record abi i vb], True)
            | _ \<Rightarrow> ([], False))
         else ([], False));
          (calls, n) = push_state_syncs abi (stp_state_sync_events plan) (calls, 0)
      in \<lparr>str_commit_span_executed = committed, str_state_sync_count = n, str_system_calls = calls\<rparr>)"

section \<open>Lemmas\<close>

lemma push_state_syncs_eq:
  "push_state_syncs abi es (calls, n) = (calls @ map (state_receive_record abi) es, n + length es)"
  by (induction es arbitrary: calls n) auto

text \<open>The calls of a block in closed form.\<close>

definition planned_calls ::
    "abi_encoder \<Rightarrow> bool \<Rightarrow> u256 option \<Rightarrow> bytes option \<Rightarrow> (u256 \<times> bytes) list \<Rightarrow> system_call_record list" where
  "planned_calls abi commit span_id vb events =
     (case (commit, span_id, vb) of (True, Some i, Some b) \<Rightarrow> [commit_span_record abi i b] | _ \<Rightarrow> []) @
     map (state_receive_record abi) events"

lemma execute_plan_eq:
  "execute_system_tx_plan abi plan i vb =
     \<lparr>str_commit_span_executed = (stp_execute_commit_span plan \<and> i \<noteq> None \<and> vb \<noteq> None),
      str_state_sync_count = length (stp_state_sync_events plan),
      str_system_calls = planned_calls abi (stp_execute_commit_span plan) i vb (stp_state_sync_events plan)\<rparr>"
  by (auto simp: execute_system_tx_plan_def push_state_syncs_eq planned_calls_def
      split: option.splits bool.splits)

lemma is_boundary_eq: "sz \<noteq> 0 \<Longrightarrow> is_boundary n sz = Inr (0 < n \<and> n mod sz = 0)"
  by (auto simp: is_boundary_def u64_rem_def)

lemma plan_eq:
  "sprint_sz \<noteq> 0 \<Longrightarrow> span_sz \<noteq> 0 \<Longrightarrow> plan_system_txs n sprint_sz span_sz pending events =
     Inr \<lparr>stp_execute_commit_span = (0 < n \<and> n mod span_sz = 0 \<and> pending),
          stp_state_sync_events = (if 0 < n \<and> n mod sprint_sz = 0 then events else [])\<rparr>"
  by (simp add: plan_system_txs_def is_boundary_eq)

section \<open>Properties\<close>

text \<open>
  C38. The system transactions of a block: with non-zero sizes planning never panics, and
  executing the plan issues at most one \<open>commitSpan\<close>, at a positive multiple of the span size
  with a pending span whose id and validators are known, and after it one \<open>onStateReceive\<close>
  per pending event in order, at positive multiples of the sprint size and nowhere else; all
  calls come from the system address, and the counters agree with the calls.
\<close>

theorem system_txs_of_block:
  assumes "sprint_sz \<noteq> 0" and "span_sz \<noteq> 0"
  shows "\<exists>plan r. plan_system_txs n sprint_sz span_sz pending events = Inr plan \<and>
     execute_system_tx_plan abi plan i vb = r \<and>
     str_system_calls r =
       (case (0 < n \<and> n mod span_sz = 0 \<and> pending, i, vb) of
          (True, Some sid, Some b) \<Rightarrow>
            [\<lparr>scr_to = 0x1000, scr_from = SYSTEM_ADDRESS, scr_data = [0x60, 0xcc, 0x80, 0xd8] @ abi sid b\<rparr>]
        | _ \<Rightarrow> []) @
       (if 0 < n \<and> n mod sprint_sz = 0
        then map (\<lambda>(sid, b). \<lparr>scr_to = 0x1001, scr_from = SYSTEM_ADDRESS,
               scr_data = [0x26, 0xc5, 0x3b, 0xea] @ abi sid b\<rparr>) events
        else []) \<and>
     length (str_system_calls r) = (if str_commit_span_executed r then 1 else 0) + str_state_sync_count r"
proof -
  have rec: "state_receive_record abi = (\<lambda>(sid, b). \<lparr>scr_to = 0x1001, scr_from = SYSTEM_ADDRESS,
      scr_data = [0x26, 0xc5, 0x3b, 0xea] @ abi sid b\<rparr>)"
    by (auto simp: fun_eq_iff state_receive_record_def state_receive_to_address_def state_receive_caller_def
        state_receive_call_data_def STATE_RECEIVER_ADDRESS_def ON_STATE_RECEIVE_SELECTOR_def)
  have com: "commit_span_record abi sid b =
      \<lparr>scr_to = 0x1000, scr_from = SYSTEM_ADDRESS, scr_data = [0x60, 0xcc, 0x80, 0xd8] @ abi sid b\<rparr>" for sid b
    by (simp add: commit_span_record_def commit_span_to_address_def commit_span_caller_def
        commit_span_call_data_def BOR_VALIDATOR_SET_ADDRESS_def COMMIT_SPAN_SELECTOR_def)
  show ?thesis
    unfolding plan_eq [OF assms] execute_plan_eq
    by (auto simp: planned_calls_def rec com split: option.splits bool.splits)
qed

theorem system_txs_of_block_witness:
  "\<exists>plan r. plan_system_txs 6400 16 6400 True [(1, [7])] = Inr plan \<and>
     execute_system_tx_plan (\<lambda>i b. b) plan (Some 3) (Some [9]) = r \<and>
     map scr_to (str_system_calls r) = [0x1000, 0x1001]"
  using system_txs_of_block [of 16 6400 6400 True "[(1, [7])]" "\<lambda>i b. b" "Some 3" "Some [9]"] by auto

text \<open>
  The precompiles of a block: the nine standard ones, and P256VERIFY from the Napoli block
  of mainnet on; they are distinct, and the KZG address \<open>0x0a\<close> is never among them.
\<close>

theorem bor_precompiles:
  "bor_precompile_addresses block =
     [1, 2, 3, 4, 5, 6, 7, 8, 9] @ (if mainnet_block Napoli \<le> block then [0x100] else []) \<and>
   distinct (bor_precompile_addresses block) \<and> 0x0a \<notin> set (bor_precompile_addresses block)"
proof -
  have "word_of_nat (be_value (replicate 19 0 @ [word_of_nat i])) = (word_of_nat i :: address)" if "i < 10" for i
    using that by (simp add: be_value_snoc be_value_zeros unat_of_nat)
  then have "map (\<lambda>i. word_of_nat (be_value (replicate 19 0 @ [word_of_nat i]))) [1..<10] =
      (map word_of_nat [1..<10] :: address list)"
    by simp
  then show ?thesis by (simp add: bor_precompile_addresses_def P256_VERIFY_ADDRESS_def upt_rec)
qed

end
