(* ===== verification/Evm_Executor.thy ===== *)
theory Evm_Executor
  imports Evm_System Consensus_Engine
begin

text \<open>
  \<open>bor-evm/src/block_executor.rs\<close>, \<open>build.rs\<close> and the execution contexts of \<open>evm_config.rs\<close>. The
  executor wraps Reth's Ethereum executor, whose operations are the fields of \<open>inner_ops\<close>; it
  adds the system calls before the inner \<open>finish\<close>. The properties compare these calls with the
  plan of \<open>executor.rs\<close>, and the assembled header with the rules of the consensus engine.
\<close>

section \<open>block\_executor.rs\<close>

record pending_commit_span =
  pcs_span_id :: u256
  pcs_validator_bytes :: bytes

record bor_execution_ctx =
  bec_pending_commit_span :: "pending_commit_span option"
  bec_pending_state_syncs :: "(u256 \<times> bytes) list"

definition bor_execution_ctx_default :: bor_execution_ctx where
  "bor_execution_ctx_default = \<lparr>bec_pending_commit_span = None, bec_pending_state_syncs = []\<rparr>"

text \<open>Reth's \<open>EthBlockExecutionCtx\<close>.\<close>

record eth_execution_ctx =
  ec_tx_count_hint :: "nat option"
  ec_parent_hash :: b256
  ec_parent_beacon_block_root :: "b256 option"
  ec_ommers :: "header list"
  ec_withdrawals :: "withdrawal list option"
  ec_extra_data :: bytes

record bor_block_execution_ctx =
  bx_eth :: eth_execution_ctx
  bx_bor :: bor_execution_ctx

text \<open>
  Reth's executor with state \<open>'i\<close>: a system call of its EVM, the commit of the resulting state
  changes to its database, and the operations that the wrapper hands on. Its constructor, state
  hook, EVM access and receipts are the second record.
\<close>

record ('i, 'res, 'tx, 'txres, 'out, 'err) inner_executor =
  ix_transact_system_call :: "'i \<Rightarrow> address \<Rightarrow> address \<Rightarrow> bytes \<Rightarrow> 'i \<times> (string + 'res)"
  ix_commit :: "'i \<Rightarrow> 'res \<Rightarrow> 'i"
  ix_apply_pre_execution_changes :: "'i \<Rightarrow> 'i \<times> ('err + unit)"
  ix_execute_transaction :: "'i \<Rightarrow> 'tx \<Rightarrow> 'i \<times> ('err + 'txres)"
  ix_commit_transaction :: "'i \<Rightarrow> 'txres \<Rightarrow> 'i \<times> ('err + u64)"
  ix_finish :: "'i \<Rightarrow> 'err + 'out"

record ('evm, 'spec, 'rb, 'hook, 'rc, 'i) executor_parts =
  xp_new :: "'evm \<Rightarrow> eth_execution_ctx \<Rightarrow> 'spec \<Rightarrow> 'rb \<Rightarrow> 'i"
  xp_set_state_hook :: "'i \<Rightarrow> 'hook option \<Rightarrow> 'i"
  xp_evm :: "'i \<Rightarrow> 'evm"
  xp_evm_mut :: "'i \<Rightarrow> ('evm \<Rightarrow> 'evm) \<Rightarrow> 'i"
  xp_receipts :: "'i \<Rightarrow> 'rc list"

datatype 'err block_execution_error = Msg string | InnerError 'err

record 'i bor_block_executor =
  be_inner :: 'i
  be_bor_ctx :: bor_execution_ctx

definition bor_block_executor_new ::
    "('evm, 'spec, 'rb, 'hook, 'rc, 'i) executor_parts \<Rightarrow> 'evm \<Rightarrow> eth_execution_ctx \<Rightarrow> bor_execution_ctx \<Rightarrow>
     'spec \<Rightarrow> 'rb \<Rightarrow> 'i bor_block_executor" where
  "bor_block_executor_new P evm eth_ctx bor_ctx spec receipt_builder =
     \<lparr>be_inner = xp_new P evm eth_ctx spec receipt_builder, be_bor_ctx = bor_ctx\<rparr>"

text \<open>\<open>transact_system_call(..).map_err(..)?\<close>, then the commit of the state.\<close>

definition run_system_call ::
    "('i, 'res, 'tx, 'txres, 'out, 'err) inner_executor \<Rightarrow> (string \<Rightarrow> string) \<Rightarrow> 'i \<Rightarrow>
     address \<Rightarrow> address \<Rightarrow> bytes \<Rightarrow> 'i \<times> ('err block_execution_error + unit)" where
  "run_system_call X msg i caller to data =
     (case ix_transact_system_call X i caller to data of
        (i', Inl e) \<Rightarrow> (i', Inl (Msg (msg e)))
      | (i', Inr res) \<Rightarrow> (ix_commit X i' res, Inr ()))"

primrec relay_state_syncs ::
    "abi_encoder \<Rightarrow> ('i, 'res, 'tx, 'txres, 'out, 'err) inner_executor \<Rightarrow> 'i \<Rightarrow> (u256 \<times> bytes) list \<Rightarrow>
     'i \<times> ('err block_execution_error + unit)" where
  "relay_state_syncs abi X i [] = (i, Inr ())"
| "relay_state_syncs abi X i (e # es) =
     (case run_system_call X
             (\<lambda>err. ''onStateReceive failed for state_id '' @ show_nat (unat (fst e)) @ '': '' @ err) i
             state_receive_caller state_receive_to_address
             (state_receive_call_data abi \<lparr>src_state_id = fst e, src_data = snd e\<rparr>) of
        (i', Inl err) \<Rightarrow> (i', Inl err)
      | (i', Inr _) \<Rightarrow> relay_state_syncs abi X i' es)"

definition execute_bor_system_calls ::
    "abi_encoder \<Rightarrow> ('i, 'res, 'tx, 'txres, 'out, 'err) inner_executor \<Rightarrow> 'i bor_block_executor \<Rightarrow>
     'i bor_block_executor \<times> ('err block_execution_error + unit)" where
  "execute_bor_system_calls abi X b =
     (let (i, r) =
        (case bec_pending_commit_span (be_bor_ctx b) of
           None \<Rightarrow> (be_inner b, Inr ())
         | Some commit \<Rightarrow>
             run_system_call X (\<lambda>err. ''commitSpan failed: '' @ err) (be_inner b)
               commit_span_caller commit_span_to_address
               (commit_span_call_data abi
                 \<lparr>csc_span_id = pcs_span_id commit, csc_validator_bytes = pcs_validator_bytes commit\<rparr>))
      in case r of
           Inl err \<Rightarrow> (b\<lparr>be_inner := i\<rparr>, Inl err)
         | Inr _ \<Rightarrow>
             (let (i', r') = relay_state_syncs abi X i (bec_pending_state_syncs (be_bor_ctx b))
              in (b\<lparr>be_inner := i'\<rparr>, r')))"

definition executor_apply_pre_execution_changes ::
    "('i, 'res, 'tx, 'txres, 'out, 'err) inner_executor \<Rightarrow> 'i bor_block_executor \<Rightarrow>
     'i bor_block_executor \<times> ('err + unit)" where
  "executor_apply_pre_execution_changes X b =
     (let (i, r) = ix_apply_pre_execution_changes X (be_inner b) in (b\<lparr>be_inner := i\<rparr>, r))"

definition executor_execute_transaction ::
    "('i, 'res, 'tx, 'txres, 'out, 'err) inner_executor \<Rightarrow> 'i bor_block_executor \<Rightarrow> 'tx \<Rightarrow>
     'i bor_block_executor \<times> ('err + 'txres)" where
  "executor_execute_transaction X b tx =
     (let (i, r) = ix_execute_transaction X (be_inner b) tx in (b\<lparr>be_inner := i\<rparr>, r))"

definition executor_commit_transaction ::
    "('i, 'res, 'tx, 'txres, 'out, 'err) inner_executor \<Rightarrow> 'i bor_block_executor \<Rightarrow> 'txres \<Rightarrow>
     'i bor_block_executor \<times> ('err + u64)" where
  "executor_commit_transaction X b output =
     (let (i, r) = ix_commit_transaction X (be_inner b) output in (b\<lparr>be_inner := i\<rparr>, r))"

definition executor_finish ::
    "abi_encoder \<Rightarrow> ('i, 'res, 'tx, 'txres, 'out, 'err) inner_executor \<Rightarrow> 'i bor_block_executor \<Rightarrow>
     'err block_execution_error + 'out" where
  "executor_finish abi X b =
     (case execute_bor_system_calls abi X b of
        (b', Inl err) \<Rightarrow> Inl err
      | (b', Inr _) \<Rightarrow> map_err InnerError (ix_finish X (be_inner b')))"

definition executor_set_state_hook ::
    "('evm, 'spec, 'rb, 'hook, 'rc, 'i) executor_parts \<Rightarrow> 'i bor_block_executor \<Rightarrow> 'hook option \<Rightarrow>
     'i bor_block_executor" where
  "executor_set_state_hook P b hook = b\<lparr>be_inner := xp_set_state_hook P (be_inner b) hook\<rparr>"

text \<open>What a caller does through the reference that \<open>evm_mut\<close> returns is a function on the EVM.\<close>

definition executor_evm_mut ::
    "('evm, 'spec, 'rb, 'hook, 'rc, 'i) executor_parts \<Rightarrow> 'i bor_block_executor \<Rightarrow> ('evm \<Rightarrow> 'evm) \<Rightarrow>
     'i bor_block_executor" where
  "executor_evm_mut P b f = b\<lparr>be_inner := xp_evm_mut P (be_inner b) f\<rparr>"

definition executor_evm ::
    "('evm, 'spec, 'rb, 'hook, 'rc, 'i) executor_parts \<Rightarrow> 'i bor_block_executor \<Rightarrow> 'evm" where
  "executor_evm P b = xp_evm P (be_inner b)"

definition executor_receipts ::
    "('evm, 'spec, 'rb, 'hook, 'rc, 'i) executor_parts \<Rightarrow> 'i bor_block_executor \<Rightarrow> 'rc list" where
  "executor_receipts P b = xp_receipts P (be_inner b)"

text \<open>Reth's \<open>EthBlockExecutorFactory\<close>, built from its three parts, and the factory around it.\<close>

record ('rb, 'spec, 'ef) eth_executor_factory =
  ef_receipt_builder :: 'rb
  ef_spec :: 'spec
  ef_evm_factory :: 'ef

record ('rb, 'spec, 'ef) bor_executor_factory =
  bf_inner :: "('rb, 'spec, 'ef) eth_executor_factory"

definition executor_factory_clone ::
    "('rb, 'spec, 'ef) bor_executor_factory \<Rightarrow> ('rb, 'spec, 'ef) bor_executor_factory" where
  "executor_factory_clone F =
     \<lparr>bf_inner = \<lparr>ef_receipt_builder = ef_receipt_builder (bf_inner F), ef_spec = ef_spec (bf_inner F),
        ef_evm_factory = ef_evm_factory (bf_inner F)\<rparr>\<rparr>"

definition executor_factory_new ::
    "('rb, 'spec, 'ef) eth_executor_factory \<Rightarrow> ('rb, 'spec, 'ef) bor_executor_factory" where
  "executor_factory_new inner = \<lparr>bf_inner = inner\<rparr>"

definition executor_factory_inner ::
    "('rb, 'spec, 'ef) bor_executor_factory \<Rightarrow> ('rb, 'spec, 'ef) eth_executor_factory" where
  "executor_factory_inner F = bf_inner F"

definition executor_evm_factory :: "('rb, 'spec, 'ef) bor_executor_factory \<Rightarrow> 'ef" where
  "executor_evm_factory F = ef_evm_factory (bf_inner F)"

text \<open>\<open>BorBlockExecutorFactory::create_executor\<close>\<close>

definition create_executor ::
    "('evm, 'spec, 'rb, 'hook, 'rc, 'i) executor_parts \<Rightarrow> ('rb, 'spec, 'ef) bor_executor_factory \<Rightarrow> 'evm \<Rightarrow>
     bor_block_execution_ctx \<Rightarrow> 'i bor_block_executor" where
  "create_executor P F evm ctx =
     bor_block_executor_new P evm (bx_eth ctx) (bx_bor ctx) (ef_spec (bf_inner F)) (ef_receipt_builder (bf_inner F))"

text \<open>The executor that the inner factory creates for the Ethereum part of a context.\<close>

abbreviation inner_created ::
    "('evm, 'spec, 'rb, 'hook, 'rc, 'i) executor_parts \<Rightarrow> ('rb, 'spec, 'ef) bor_executor_factory \<Rightarrow> 'evm \<Rightarrow>
     eth_execution_ctx \<Rightarrow> 'i" where
  "inner_created P F evm eth \<equiv> xp_new P evm eth (ef_spec (bf_inner F)) (ef_receipt_builder (bf_inner F))"

section \<open>evm\_config.rs: execution contexts\<close>

definition context_for_block :: "header \<Rightarrow> 'tx block_body \<Rightarrow> bor_block_execution_ctx" where
  "context_for_block h body =
     \<lparr>bx_eth = \<lparr>ec_tx_count_hint = Some (length (bb_transactions body)),
        ec_parent_hash = hd_parent_hash h,
        ec_parent_beacon_block_root = hd_parent_beacon_block_root h,
        ec_ommers = (case bb_ommers body of None \<Rightarrow> [] | Some os \<Rightarrow> os),
        ec_withdrawals = bb_withdrawals body,
        ec_extra_data = hd_extra_data h\<rparr>,
      bx_bor = bor_execution_ctx_default\<rparr>"

text \<open>The fields of \<open>NextBlockEnvAttributes\<close> that the configuration reads.\<close>

record next_block_attributes =
  nb_timestamp :: u64
  nb_suggested_fee_recipient :: address
  nb_prev_randao :: b256
  nb_gas_limit :: u64
  nb_parent_beacon_block_root :: "b256 option"
  nb_withdrawals :: "withdrawal list option"

definition context_for_next_block :: "sealed_header \<Rightarrow> next_block_attributes \<Rightarrow> bor_block_execution_ctx" where
  "context_for_next_block parent attributes =
     \<lparr>bx_eth = \<lparr>ec_tx_count_hint = None,
        ec_parent_hash = sh_hash parent,
        ec_parent_beacon_block_root = nb_parent_beacon_block_root attributes,
        ec_ommers = [],
        ec_withdrawals = nb_withdrawals attributes,
        ec_extra_data = []\<rparr>,
      bx_bor = bor_execution_ctx_default\<rparr>"

text \<open>The fields of an engine payload that the configuration reads.\<close>

record execution_payload =
  ep_timestamp :: u64
  ep_block_number :: u64
  ep_fee_recipient :: address
  ep_prev_randao :: b256
  ep_gas_limit :: u64
  ep_base_fee_per_gas :: u256
  ep_excess_blob_gas :: "u64 option"
  ep_transactions :: "bytes list"
  ep_parent_hash :: b256
  ep_parent_beacon_block_root :: "b256 option"
  ep_withdrawals :: "withdrawal list option"
  ep_extra_data :: bytes

definition context_for_payload :: "execution_payload \<Rightarrow> bor_block_execution_ctx" where
  "context_for_payload payload =
     \<lparr>bx_eth = \<lparr>ec_tx_count_hint = Some (length (ep_transactions payload)),
        ec_parent_hash = ep_parent_hash payload,
        ec_parent_beacon_block_root = ep_parent_beacon_block_root payload,
        ec_ommers = [],
        ec_withdrawals = ep_withdrawals payload,
        ec_extra_data = ep_extra_data payload\<rparr>,
      bx_bor = bor_execution_ctx_default\<rparr>"

section \<open>build.rs\<close>

text \<open>\<open>U256::saturating_to::<u64>\<close>\<close>

definition saturating_to_u64 :: "u256 \<Rightarrow> u64" where
  "saturating_to_u64 x = (if unat x < 2 ^ 64 then word_of_nat (unat x) else - 1)"

text \<open>The block environment, and what the assembler takes from Alloy and Reth.\<close>

record blob_excess_gas_and_price =
  bg_excess_blob_gas :: u64
  bg_blob_gasprice :: "128 word"

record block_env =
  bv_number :: u256
  bv_beneficiary :: address
  bv_timestamp :: u256
  bv_gas_limit :: u64
  bv_basefee :: u64
  bv_difficulty :: u256
  bv_prevrandao :: "b256 option"
  bv_blob_excess_gas_and_price :: "blob_excess_gas_and_price option"

record 'rc assembler_ops =
  ao_calculate_receipt_root :: "'rc list \<Rightarrow> b256"
  ao_logs_bloom :: "'rc list \<Rightarrow> bloom"
  ao_beacon_nonce :: b64

definition assemble_block ::
    "('sig, 'tx) env \<Rightarrow> 'rc assembler_ops \<Rightarrow> block_env \<Rightarrow> bor_block_execution_ctx \<Rightarrow>
     'tx list \<Rightarrow> 'rc list \<Rightarrow> u64 \<Rightarrow> b256 \<Rightarrow> header \<times> 'tx block_body" where
  "assemble_block E A bv execution_ctx transactions receipts gas_used state_root =
     (let ctx = bx_eth execution_ctx;
          timestamp = saturating_to_u64 (bv_timestamp bv);
          transactions_root = en_transaction_root E transactions;
          receipts_root = ao_calculate_receipt_root A receipts;
          logs_bloom = ao_logs_bloom A receipts
      in (\<lparr>hd_parent_hash = ec_parent_hash ctx, hd_ommers_hash = en_empty_ommer_root E,
           hd_beneficiary = bv_beneficiary bv, hd_state_root = state_root,
           hd_transactions_root = transactions_root, hd_receipts_root = receipts_root,
           hd_logs_bloom = logs_bloom, hd_difficulty = bv_difficulty bv,
           hd_number = saturating_to_u64 (bv_number bv), hd_gas_limit = bv_gas_limit bv,
           hd_gas_used = gas_used, hd_timestamp = timestamp, hd_extra_data = [],
           hd_mix_hash = Some (case bv_prevrandao bv of Some r \<Rightarrow> r | None \<Rightarrow> 0),
           hd_nonce = Some (ao_beacon_nonce A), hd_base_fee_per_gas = Some (bv_basefee bv),
           hd_withdrawals_root = None, hd_blob_gas_used = None, hd_excess_blob_gas = None,
           hd_parent_beacon_block_root = None, hd_requests_hash = None\<rparr>,
          \<lparr>bb_transactions = transactions, bb_ommers = Some [], bb_withdrawals = None\<rparr>))"

section \<open>Lemmas\<close>

text \<open>System calls one after the other, stopping at the first that fails.\<close>

primrec run_records ::
    "('i, 'res, 'tx, 'txres, 'out, 'err) inner_executor \<Rightarrow> 'i \<Rightarrow> system_call_record list \<Rightarrow> 'i \<times> bool" where
  "run_records X i [] = (i, True)"
| "run_records X i (r # rs) =
     (case ix_transact_system_call X i (scr_from r) (scr_to r) (scr_data r) of
        (i', Inl e) \<Rightarrow> (i', False)
      | (i', Inr res) \<Rightarrow> run_records X (ix_commit X i' res) rs)"

lemma relay_run_records:
  "run_records X i (map (state_receive_record abi) es) =
     (fst (relay_state_syncs abi X i es), \<not> isl (snd (relay_state_syncs abi X i es)))"
proof (induction es arbitrary: i)
  case Nil
  then show ?case by simp
next
  case (Cons e es)
  obtain i' r where "ix_transact_system_call X i state_receive_caller state_receive_to_address
      (state_receive_call_data abi \<lparr>src_state_id = fst e, src_data = snd e\<rparr>) = (i', r)" by fastforce
  with Cons show ?case by (cases r) (simp_all add: state_receive_record_def run_system_call_def)
qed

lemma relay_errors: "snd (relay_state_syncs abi X i es) = Inl err \<Longrightarrow> \<exists>m. err = Msg m"
  by (induction es arbitrary: i) (auto simp: run_system_call_def split: prod.splits sum.splits)

lemma system_call_errors: "snd (execute_bor_system_calls abi X b) = Inl err \<Longrightarrow> \<exists>m. err = Msg m"
  by (auto simp: execute_bor_system_calls_def run_system_call_def Let_def split_beta
      split: option.splits sum.splits dest: relay_errors)

text \<open>The context that carries a plan.\<close>

definition ctx_of_plan :: "system_tx_plan \<Rightarrow> u256 option \<Rightarrow> bytes option \<Rightarrow> bor_execution_ctx" where
  "ctx_of_plan plan i vb =
     \<lparr>bec_pending_commit_span =
        (case (stp_execute_commit_span plan, i, vb) of
           (True, Some sid, Some b) \<Rightarrow> Some \<lparr>pcs_span_id = sid, pcs_validator_bytes = b\<rparr>
         | _ \<Rightarrow> None),
      bec_pending_state_syncs = stp_state_sync_events plan\<rparr>"

lemma execute_calls_run_records:
  "run_records X i (planned_calls abi (stp_execute_commit_span plan) sid vb (stp_state_sync_events plan)) =
     (let (b', r) = execute_bor_system_calls abi X \<lparr>be_inner = i, be_bor_ctx = ctx_of_plan plan sid vb\<rparr>
      in (be_inner b', \<not> isl r))"
proof (cases "bec_pending_commit_span (ctx_of_plan plan sid vb)")
  case None
  then have "planned_calls abi (stp_execute_commit_span plan) sid vb (stp_state_sync_events plan) =
      map (state_receive_record abi) (stp_state_sync_events plan)"
    by (auto simp: ctx_of_plan_def planned_calls_def split: bool.splits option.splits)
  with None show ?thesis
    by (simp add: execute_bor_system_calls_def relay_run_records Let_def split_beta) (simp add: ctx_of_plan_def)
next
  case (Some commit)
  then have "planned_calls abi (stp_execute_commit_span plan) sid vb (stp_state_sync_events plan) =
      commit_span_record abi (pcs_span_id commit) (pcs_validator_bytes commit) #
      map (state_receive_record abi) (stp_state_sync_events plan)"
    by (auto simp: ctx_of_plan_def planned_calls_def split: bool.splits option.splits)
  moreover obtain i' r where "ix_transact_system_call X i commit_span_caller commit_span_to_address
      (commit_span_call_data abi
        \<lparr>csc_span_id = pcs_span_id commit, csc_validator_bytes = pcs_validator_bytes commit\<rparr>) = (i', r)"
    by fastforce
  moreover have "bec_pending_state_syncs (ctx_of_plan plan sid vb) = stp_state_sync_events plan"
    by (simp add: ctx_of_plan_def)
  ultimately show ?thesis
    using Some
    by (cases r) (simp_all add: execute_bor_system_calls_def relay_run_records run_system_call_def
        commit_span_record_def Let_def split_beta)
qed

section \<open>Sequences of calls\<close>

text \<open>The calls that Reth makes to an executor before it finishes a block, and what they return.\<close>

datatype ('tx, 'txres, 'hook, 'evm) executor_call =
    CallPreExecutionChanges | CallExecute 'tx | CallCommit 'txres
  | CallSetStateHook "'hook option" | CallEvmMut "'evm \<Rightarrow> 'evm"

datatype ('txres, 'err) executor_answer =
    AnsweredUnit "'err + unit" | AnsweredResult "'err + 'txres" | AnsweredGas "'err + u64"

primrec executor_apply where
  "executor_apply P X b CallPreExecutionChanges =
     (let (b', r) = executor_apply_pre_execution_changes X b in (b', AnsweredUnit r))"
| "executor_apply P X b (CallExecute tx) =
     (let (b', r) = executor_execute_transaction X b tx in (b', AnsweredResult r))"
| "executor_apply P X b (CallCommit output) =
     (let (b', r) = executor_commit_transaction X b output in (b', AnsweredGas r))"
| "executor_apply P X b (CallSetStateHook hook) = (executor_set_state_hook P b hook, AnsweredUnit (Inr ()))"
| "executor_apply P X b (CallEvmMut f) = (executor_evm_mut P b f, AnsweredUnit (Inr ()))"

primrec inner_apply where
  "inner_apply P X i CallPreExecutionChanges =
     (let (i', r) = ix_apply_pre_execution_changes X i in (i', AnsweredUnit r))"
| "inner_apply P X i (CallExecute tx) =
     (let (i', r) = ix_execute_transaction X i tx in (i', AnsweredResult r))"
| "inner_apply P X i (CallCommit output) =
     (let (i', r) = ix_commit_transaction X i output in (i', AnsweredGas r))"
| "inner_apply P X i (CallSetStateHook hook) = (xp_set_state_hook P i hook, AnsweredUnit (Inr ()))"
| "inner_apply P X i (CallEvmMut f) = (xp_evm_mut P i f, AnsweredUnit (Inr ()))"

interpretation wrapped: simulation "executor_apply P X" "inner_apply P X"
    "\<lambda>b i. be_inner b = i \<and> be_bor_ctx b = ctx" "\<lambda>_. True"
  for P X ctx
proof
  fix b :: "'f bor_block_executor" and i call
  assume rel: "be_inner b = i \<and> be_bor_ctx b = ctx"
  then show "be_inner (fst (executor_apply P X b call)) = fst (inner_apply P X i call) \<and>
      be_bor_ctx (fst (executor_apply P X b call)) = ctx"
    and "snd (executor_apply P X b call) = snd (inner_apply P X i call)"
    by (cases call; auto simp: executor_apply_pre_execution_changes_def executor_execute_transaction_def
        executor_commit_transaction_def executor_set_state_hook_def executor_evm_mut_def split_beta Let_def)+
qed

lemma finish_no_calls:
  "be_bor_ctx b = bor_execution_ctx_default \<Longrightarrow>
   executor_finish abi X b = map_err InnerError (ix_finish X (be_inner b))"
  by (simp add: executor_finish_def execute_bor_system_calls_def bor_execution_ctx_default_def)

section \<open>Properties\<close>

text \<open>
  C27. Producer and validator run the same system calls: on a context that carries a plan, the
  block executor makes exactly the calls that \<open>execute_system_tx_plan\<close> records for that plan,
  in that order, commits each before the next, stops at the first that fails, and only then
  hands over to Ethereum's \<open>finish\<close>.
\<close>

theorem finish_runs_planned_calls:
  "\<exists>i' ok. run_records X i (str_system_calls (execute_system_tx_plan abi plan sid vb)) = (i', ok) \<and>
     (if ok
      then executor_finish abi X \<lparr>be_inner = i, be_bor_ctx = ctx_of_plan plan sid vb\<rparr> =
        map_err InnerError (ix_finish X i')
      else \<exists>m. executor_finish abi X \<lparr>be_inner = i, be_bor_ctx = ctx_of_plan plan sid vb\<rparr> =
        Inl (Msg m))"
proof -
  let ?b = "\<lparr>be_inner = i, be_bor_ctx = ctx_of_plan plan sid vb\<rparr>"
  obtain b' r where ex: "execute_bor_system_calls abi X ?b = (b', r)" by fastforce
  have run: "run_records X i (str_system_calls (execute_system_tx_plan abi plan sid vb)) =
      (be_inner b', \<not> isl r)"
    using ex by (simp add: execute_plan_eq execute_calls_run_records)
  show ?thesis
  proof (cases r)
    case (Inl err)
    then obtain m where "err = Msg m" using system_call_errors [of abi X ?b] ex by auto
    with Inl ex run show ?thesis
      by (intro exI [of _ "be_inner b'"] exI [of _ False]) (simp add: executor_finish_def)
  next
    case (Inr u)
    with ex run show ?thesis
      by (intro exI [of _ "be_inner b'"] exI [of _ True]) (simp add: executor_finish_def)
  qed
qed

text \<open>
  C28. The executor of the node as it is wired is Ethereum's: on the contexts that the EVM
  configuration builds for a block, for the next block and for a payload, every sequence of
  calls (pre-execution changes, executions, commits, state hooks, changes through \<open>evm_mut\<close>) gets
  the answers of Reth's own executor and leaves its receipts and EVM, and \<open>finish\<close> returns what
  Reth's \<open>finish\<close> returns: no Bor system call is ever made.
\<close>

theorem wired_executor_is_ethereum:
  fixes X :: "('i, 'res, 'tx, 'txres, 'out, 'err) inner_executor"
    and P :: "('evm, 'spec, 'rb, 'hook, 'rc, 'i) executor_parts"
  assumes "ctx = context_for_block h body \<or> ctx = context_for_next_block parent attributes \<or>
    ctx = context_for_payload payload"
    and "run_calls (executor_apply P X) (create_executor P F evm ctx) calls = (b, answers)"
    and "run_calls (inner_apply P X) (inner_created P F evm (bx_eth ctx)) calls = (i, answers')"
  shows "answers = answers' \<and> executor_receipts P b = xp_receipts P i \<and> executor_evm P b = xp_evm P i \<and>
    executor_finish abi X b = map_err InnerError (ix_finish X i)"
proof -
  have "be_bor_ctx (create_executor P F evm ctx) = bor_execution_ctx_default"
    and inner: "be_inner (create_executor P F evm ctx) = inner_created P F evm (bx_eth ctx)"
    using assms(1) by (auto simp: create_executor_def bor_block_executor_new_def context_for_block_def
        context_for_next_block_def context_for_payload_def)
  with wrapped.run_simulates [of "create_executor P F evm ctx" "inner_created P F evm (bx_eth ctx)"
      bor_execution_ctx_default calls P X] assms(2,3)
  have "be_inner b = i" and "be_bor_ctx b = bor_execution_ctx_default" and "answers = answers'" by simp_all
  then show ?thesis by (simp add: finish_no_calls executor_receipts_def executor_evm_def)
qed

text \<open>
  An assembled block does not pass the node's own header rules: its extra data is empty, so
  where its gas is within the limit it is refused as having 0 bytes of extra data; with 97 or
  more bytes written in, and only then, the same header passes, and its body always matches it.
\<close>

theorem assembled_block_validation:
  assumes "ao_beacon_nonce A = 0" and "gas_used \<le> bv_gas_limit bv"
    and "assemble_block E A bv ctx txs receipts gas_used state_root = (h, body)"
  shows "engine_validate_header E \<lparr>sh_header = h, sh_hash = x\<rparr> = Inl (ExtraDataExceedsMax 0) \<and>
     (engine_validate_header E \<lparr>sh_header = h\<lparr>hd_extra_data := extra\<rparr>, sh_hash = x\<rparr> = Inr () \<longleftrightarrow>
        97 \<le> length extra) \<and>
     validate_body_against_header E body \<lparr>sh_header = h, sh_hash = x\<rparr> = Inr ()"
  using assms
  by (auto simp: assemble_block_def Let_def engine_validate_header_def validate_body_against_header_def
      has_ommers_def bindR_eq_Inr not_less)

section \<open>Witnesses\<close>

theorem assembled_block_validation_witness:
  "engine_validate_header demo_env
     \<lparr>sh_header = fst (assemble_block demo_env
        \<lparr>ao_calculate_receipt_root = (\<lambda>rs. 0), ao_logs_bloom = (\<lambda>rs :: unit list. 0), ao_beacon_nonce = 0\<rparr>
        \<lparr>bv_number = 10, bv_beneficiary = 0, bv_timestamp = 1000, bv_gas_limit = 30000000, bv_basefee = 7,
         bv_difficulty = 1, bv_prevrandao = None, bv_blob_excess_gas_and_price = None\<rparr>
        (context_for_next_block \<lparr>sh_header = demo_header, sh_hash = 9\<rparr>
           \<lparr>nb_timestamp = 1000, nb_suggested_fee_recipient = 0, nb_prev_randao = 0, nb_gas_limit = 30000000,
            nb_parent_beacon_block_root = None, nb_withdrawals = None\<rparr>) [] [] 21000 4),
      sh_hash = 1\<rparr> = Inl (ExtraDataExceedsMax 0)"
proof -
  let ?A = "\<lparr>ao_calculate_receipt_root = (\<lambda>rs. 0), ao_logs_bloom = (\<lambda>rs :: unit list. 0), ao_beacon_nonce = 0\<rparr>"
  let ?bv = "\<lparr>bv_number = 10, bv_beneficiary = 0, bv_timestamp = 1000, bv_gas_limit = 30000000, bv_basefee = 7,
         bv_difficulty = 1, bv_prevrandao = None, bv_blob_excess_gas_and_price = None\<rparr>"
  let ?ctx = "context_for_next_block \<lparr>sh_header = demo_header, sh_hash = 9\<rparr>
           \<lparr>nb_timestamp = 1000, nb_suggested_fee_recipient = 0, nb_prev_randao = 0, nb_gas_limit = 30000000,
            nb_parent_beacon_block_root = None, nb_withdrawals = None\<rparr>"
  obtain h body where a: "assemble_block demo_env ?A ?bv ?ctx [] [] 21000 4 = (h, body)" by fastforce
  have "engine_validate_header demo_env \<lparr>sh_header = h, sh_hash = 1\<rparr> = Inl (ExtraDataExceedsMax 0)"
    using assembled_block_validation [OF _ _ a, of 1 "[]"] by simp
  then show ?thesis by (simp add: a)
qed

text \<open>An executor whose transactions are their gas and whose state is the list of committed amounts.\<close>

definition counting_executor :: "(nat list, unit, nat, nat, nat, string) inner_executor" where
  "counting_executor =
     \<lparr>ix_transact_system_call = (\<lambda>i from to data. (i, Inr ())), ix_commit = (\<lambda>i r. 0 # i),
      ix_apply_pre_execution_changes = (\<lambda>i. (i, Inr ())),
      ix_execute_transaction = (\<lambda>i tx. (i, if 30 < tx + sum_list i then Inl ''gas'' else Inr tx)),
      ix_commit_transaction = (\<lambda>i g. (g # i, Inr (word_of_nat g))), ix_finish = (\<lambda>i. Inr (sum_list i))\<rparr>"

definition counting_parts :: "(unit, unit, unit, unit, nat, nat list) executor_parts" where
  "counting_parts =
     \<lparr>xp_new = (\<lambda>_ _ _ _. []), xp_set_state_hook = (\<lambda>i _. i), xp_evm = (\<lambda>_. ()), xp_evm_mut = (\<lambda>i _. i),
      xp_receipts = (\<lambda>i. i)\<rparr>"

theorem wired_executor_is_ethereum_witness:
  "\<exists>b answers. run_calls (executor_apply counting_parts counting_executor)
       (create_executor counting_parts (executor_factory_new
          \<lparr>ef_receipt_builder = (), ef_spec = (), ef_evm_factory = ()\<rparr>) () (context_for_block demo_header demo_body))
       [CallPreExecutionChanges, CallExecute 21, CallCommit 21, CallExecute 10, CallSetStateHook None] =
       (b, answers) \<and>
     answers = [AnsweredUnit (Inr ()), AnsweredResult (Inr 21), AnsweredGas (Inr 21), AnsweredResult (Inl ''gas''),
       AnsweredUnit (Inr ())] \<and>
     executor_receipts counting_parts b = [21] \<and>
     executor_finish (\<lambda>i bs. bs) counting_executor b = Inr 21"
proof -
  let ?F = "executor_factory_new \<lparr>ef_receipt_builder = (), ef_spec = (), ef_evm_factory = ()\<rparr>"
  let ?ctx = "context_for_block demo_header demo_body"
  let ?calls = "[CallPreExecutionChanges, CallExecute 21, CallCommit 21, CallExecute 10, CallSetStateHook None]"
  obtain b answers where run: "run_calls (executor_apply counting_parts counting_executor)
      (create_executor counting_parts ?F () ?ctx) ?calls = (b, answers)" by fastforce
  have inner: "run_calls (inner_apply counting_parts counting_executor) (inner_created counting_parts ?F () (bx_eth ?ctx))
      ?calls = ([21], [AnsweredUnit (Inr ()), AnsweredResult (Inr 21), AnsweredGas (Inr 21),
        AnsweredResult (Inl ''gas''), AnsweredUnit (Inr ())])"
    by (simp add: counting_executor_def counting_parts_def)
  note eq = wired_executor_is_ethereum [OF disjI1 [OF refl] run inner, of "\<lambda>i bs. bs"]
  have parts: "xp_receipts counting_parts [21] = [21]" "ix_finish counting_executor [21] = Inr 21"
    by (simp_all add: counting_parts_def counting_executor_def)
  show ?thesis by (intro exI [of _ b] exI [of _ answers] conjI run) (use eq parts in simp_all)
qed

end
