(* ===== verification/Evm_Env.thy ===== *)
theory Evm_Env
  imports Evm_Executor
begin

text \<open>
  \<open>bor-evm/src/evm_config.rs\<close>: the EVM configuration with its parts, the environments it builds
  for a block, for the next block and for an engine payload, and the conversion of a payload's
  transactions. Reth's environment constructors, Revm's \<open>CfgEnv\<close>, the blob parameters and the
  transaction codec are the fields of \<open>evm_ops\<close>, \<open>cfg_ops\<close> and \<open>tx_ops\<close>; the execution contexts are in
  \<open>Evm_Executor\<close>.
\<close>

section \<open>evm\_config.rs\<close>

text \<open>\<open>BorBlockAssembler\<close> keeps the chain specification and nothing else.\<close>

record 'c block_assembler =
  ba_chain_spec :: 'c

definition block_assembler_new :: "'c \<Rightarrow> 'c block_assembler" where
  "block_assembler_new chain_spec = \<lparr>ba_chain_spec = chain_spec\<rparr>"

record ('rb, 'c, 'ef) bor_evm_config =
  ev_executor_factory :: "('rb, 'c, 'ef) bor_executor_factory"
  ev_block_assembler :: "'c block_assembler"
  ev_chain_spec :: 'c

text \<open>The receipt builder argument is \<open>RethReceiptBuilder::default()\<close>.\<close>

definition evm_config_new_with_evm_factory :: "'rb \<Rightarrow> 'c \<Rightarrow> 'ef \<Rightarrow> ('rb, 'c, 'ef) bor_evm_config" where
  "evm_config_new_with_evm_factory receipt_builder chain_spec evm_factory =
     (let eth_factory = \<lparr>ef_receipt_builder = receipt_builder, ef_spec = chain_spec, ef_evm_factory = evm_factory\<rparr>
      in \<lparr>ev_executor_factory = executor_factory_new eth_factory,
          ev_block_assembler = block_assembler_new chain_spec,
          ev_chain_spec = chain_spec\<rparr>)"

definition evm_config_new :: "'rb \<Rightarrow> 'ef \<Rightarrow> 'c \<Rightarrow> ('rb, 'c, 'ef) bor_evm_config" where
  "evm_config_new receipt_builder default_evm_factory chain_spec =
     evm_config_new_with_evm_factory receipt_builder chain_spec default_evm_factory"

definition config_chain_spec :: "('rb, 'c, 'ef) bor_evm_config \<Rightarrow> 'c" where
  "config_chain_spec cfg = ev_chain_spec cfg"

definition config_executor_factory :: "('rb, 'c, 'ef) bor_evm_config \<Rightarrow> ('rb, 'c, 'ef) bor_executor_factory" where
  "config_executor_factory cfg = ev_executor_factory cfg"

definition config_block_assembler :: "('rb, 'c, 'ef) bor_evm_config \<Rightarrow> 'c block_assembler" where
  "config_block_assembler cfg = ev_block_assembler cfg"

text \<open>An EVM environment: Revm's configuration \<open>'cfg\<close> and the block environment.\<close>

record 'cfg evm_env =
  ee_cfg_env :: 'cfg
  ee_block_env :: block_env

record next_evm_env_attributes =
  ne_timestamp :: u64
  ne_suggested_fee_recipient :: address
  ne_prev_randao :: b256
  ne_gas_limit :: u64

text \<open>What the configuration calls of a chain specification beside \<open>eth_chain_spec\<close>, and of Reth.\<close>

record ('c, 'blob, 'spec, 'cfg) evm_ops =
  eo_for_eth_block :: "header \<Rightarrow> 'c \<Rightarrow> u64 \<Rightarrow> 'blob option \<Rightarrow> 'cfg evm_env"
  eo_for_eth_next_block :: "header \<Rightarrow> next_evm_env_attributes \<Rightarrow> u64 \<Rightarrow> 'c \<Rightarrow> u64 \<Rightarrow> 'blob option \<Rightarrow> 'cfg evm_env"
  eo_next_block_base_fee :: "'c \<Rightarrow> header \<Rightarrow> u64 \<Rightarrow> u64 option"
  eo_is_osaka_active_at_timestamp :: "'c \<Rightarrow> u64 \<Rightarrow> bool"
  eo_revm_spec :: "'c \<Rightarrow> u64 \<Rightarrow> u64 \<Rightarrow> 'spec"
  eo_is_merge :: "'spec \<Rightarrow> bool"
  eo_max_blobs_per_tx :: "'blob \<Rightarrow> u64"
  eo_calc_blob_fee :: "'blob \<Rightarrow> u64 \<Rightarrow> 128 word"

record ('cfg, 'spec) cfg_ops =
  co_new :: 'cfg
  co_with_chain_id :: "'cfg \<Rightarrow> u64 \<Rightarrow> 'cfg"
  co_with_spec :: "'cfg \<Rightarrow> 'spec \<Rightarrow> 'cfg"
  co_set_max_blobs_per_tx :: "'cfg \<Rightarrow> u64 \<Rightarrow> 'cfg"
  co_set_tx_gas_limit_cap :: "'cfg \<Rightarrow> u64 option \<Rightarrow> 'cfg"
  co_max_tx_gas_limit_osaka :: u64

definition evm_env ::
    "('c, 'bfp, 'blob, 'dep, 'gen, 'hdr, 'node) eth_chain_spec \<Rightarrow> ('c, 'blob, 'spec, 'cfg) evm_ops \<Rightarrow>
     ('rb, 'c, 'ef) bor_evm_config \<Rightarrow> header \<Rightarrow> 'cfg evm_env" where
  "evm_env S R cfg h =
     eo_for_eth_block R h (ev_chain_spec cfg) (es_chain S (ev_chain_spec cfg))
       (es_blob_params_at_timestamp S (ev_chain_spec cfg) (hd_timestamp h))"

definition next_evm_env ::
    "('c, 'bfp, 'blob, 'dep, 'gen, 'hdr, 'node) eth_chain_spec \<Rightarrow> ('c, 'blob, 'spec, 'cfg) evm_ops \<Rightarrow>
     ('rb, 'c, 'ef) bor_evm_config \<Rightarrow> header \<Rightarrow> next_block_attributes \<Rightarrow> 'cfg evm_env" where
  "next_evm_env S R cfg parent attributes =
     eo_for_eth_next_block R parent
       \<lparr>ne_timestamp = nb_timestamp attributes,
        ne_suggested_fee_recipient = nb_suggested_fee_recipient attributes,
        ne_prev_randao = nb_prev_randao attributes,
        ne_gas_limit = nb_gas_limit attributes\<rparr>
       (case eo_next_block_base_fee R (ev_chain_spec cfg) parent (nb_timestamp attributes) of
          Some fee \<Rightarrow> fee | None \<Rightarrow> 0)
       (ev_chain_spec cfg) (es_chain S (ev_chain_spec cfg))
       (es_blob_params_at_timestamp S (ev_chain_spec cfg) (nb_timestamp attributes))"

text \<open>The configuration part of \<open>evm_env_for_payload\<close>.\<close>

definition payload_cfg_env ::
    "('c, 'bfp, 'blob, 'dep, 'gen, 'hdr, 'node) eth_chain_spec \<Rightarrow> ('c, 'blob, 'spec, 'cfg) evm_ops \<Rightarrow>
     ('cfg, 'spec) cfg_ops \<Rightarrow> ('rb, 'c, 'ef) bor_evm_config \<Rightarrow> u64 \<Rightarrow> 'spec \<Rightarrow> 'blob option \<Rightarrow> 'cfg" where
  "payload_cfg_env S R G cfg timestamp spec blob_params =
     (let cfg_env = co_with_spec G (co_with_chain_id G (co_new G) (es_chain S (ev_chain_spec cfg))) spec;
          cfg_env1 = (case blob_params of
              Some params \<Rightarrow> co_set_max_blobs_per_tx G cfg_env (eo_max_blobs_per_tx R params)
            | None \<Rightarrow> cfg_env)
      in if eo_is_osaka_active_at_timestamp R (ev_chain_spec cfg) timestamp
         then co_set_tx_gas_limit_cap G cfg_env1 (Some (co_max_tx_gas_limit_osaka G))
         else cfg_env1)"

definition evm_env_for_payload ::
    "('c, 'bfp, 'blob, 'dep, 'gen, 'hdr, 'node) eth_chain_spec \<Rightarrow> ('c, 'blob, 'spec, 'cfg) evm_ops \<Rightarrow>
     ('cfg, 'spec) cfg_ops \<Rightarrow> ('rb, 'c, 'ef) bor_evm_config \<Rightarrow> execution_payload \<Rightarrow> 'cfg evm_env" where
  "evm_env_for_payload S R G cfg payload =
     (let timestamp = ep_timestamp payload;
          block_number = ep_block_number payload;
          blob_params = es_blob_params_at_timestamp S (ev_chain_spec cfg) timestamp;
          spec = eo_revm_spec R (ev_chain_spec cfg) timestamp block_number;
          blob_excess_gas_and_price =
            (case (ep_excess_blob_gas payload, blob_params) of
               (Some excess_blob_gas, Some params) \<Rightarrow>
                 Some \<lparr>bg_excess_blob_gas = excess_blob_gas,
                       bg_blob_gasprice = eo_calc_blob_fee R params excess_blob_gas\<rparr>
             | _ \<Rightarrow> None)
      in \<lparr>ee_cfg_env = payload_cfg_env S R G cfg timestamp spec blob_params,
          ee_block_env =
            \<lparr>bv_number = ucast block_number,
             bv_beneficiary = ep_fee_recipient payload,
             bv_timestamp = ucast timestamp,
             bv_gas_limit = ep_gas_limit payload,
             bv_basefee = saturating_to_u64 (ep_base_fee_per_gas payload),
             bv_difficulty = (if eo_is_merge R spec then 0 else ep_prev_randao payload),
             bv_prevrandao = (if eo_is_merge R spec then Some (ep_prev_randao payload) else None),
             bv_blob_excess_gas_and_price = blob_excess_gas_and_price\<rparr>\<rparr>)"

text \<open>The transactions of a payload: decoding, then recovery of the signer.\<close>

record 'tx tx_ops =
  to_decode_2718_exact :: "bytes \<Rightarrow> string + 'tx"
  to_try_recover :: "'tx \<Rightarrow> string + address"

definition convert_payload_tx :: "'tx tx_ops \<Rightarrow> bytes \<Rightarrow> string + ('tx \<times> address)" where
  "convert_payload_tx T raw =
     bindR (to_decode_2718_exact T raw) (\<lambda>tx.
     bindR (to_try_recover T tx) (\<lambda>signer.
     Inr (tx, signer)))"

text \<open>The lazy iterator, as the list of what its elements convert to.\<close>

definition tx_iterator_for_payload :: "'tx tx_ops \<Rightarrow> execution_payload \<Rightarrow> (string + ('tx \<times> address)) list" where
  "tx_iterator_for_payload T payload = map (convert_payload_tx T) (ep_transactions payload)"

section \<open>Lemmas\<close>

lemma unat_ucast_u64 [simp]: "unat (ucast (x :: u64) :: u256) = unat x"
  using unat_bound [of x] by (simp add: unsigned_ucast_eq take_bit_nat_eq_self)

lemma saturating_to_u64_ucast [simp]: "saturating_to_u64 (ucast (x :: u64)) = x"
  using unat_bound [of x] by (simp add: saturating_to_u64_def)

lemma tx_iterator_all_Inr:
  "collectR (tx_iterator_for_payload T payload) = Inr ts \<longleftrightarrow>
   list_all2 (\<lambda>raw (tx, a). to_decode_2718_exact T raw = Inr tx \<and> to_try_recover T tx = Inr a)
     (ep_transactions payload) ts"
proof -
  have "collectR (map (convert_payload_tx T) raws) = Inr ts \<longleftrightarrow>
      list_all2 (\<lambda>raw (tx, a). to_decode_2718_exact T raw = Inr tx \<and> to_try_recover T tx = Inr a) raws ts" for raws
    by (induction raws arbitrary: ts)
      (auto simp: bindR_eq_Inr convert_payload_tx_def list_all2_Cons1)
  then show ?thesis by (simp add: tx_iterator_for_payload_def)
qed

text \<open>The payload that an Ethereum block with this header is sent as.\<close>

definition carries_header :: "execution_payload \<Rightarrow> header \<Rightarrow> bool" where
  "carries_header payload h \<longleftrightarrow>
     ep_parent_hash payload = hd_parent_hash h \<and> ep_fee_recipient payload = hd_beneficiary h \<and>
     hd_mix_hash h = Some (ep_prev_randao payload) \<and> ep_block_number payload = hd_number h \<and>
     ep_gas_limit payload = hd_gas_limit h \<and> ep_timestamp payload = hd_timestamp h \<and>
     ep_extra_data payload = hd_extra_data h \<and>
     map_option ucast (hd_base_fee_per_gas h) = Some (ep_base_fee_per_gas payload)"

section \<open>Properties\<close>

text \<open>
  C29. A Bor block that is executed from its payload and assembled again: for a header that the
  engine accepts, with the zero mix hash that Bor requires, the environment and the context
  of its payload together with the results of its execution give the same header but for
  two fields. The difficulty is 0 and the extra data, seal included, is empty, whatever
  hardforks the chain specification reports.
\<close>

theorem payload_reassembly:
  assumes "engine_validate_header E \<lparr>sh_header = h, sh_hash = x\<rparr> = Inr ()" and "hd_mix_hash h = Some 0"
    and "carries_header payload h" and "ao_beacon_nonce A = 0"
    and "hd_transactions_root h = en_transaction_root E txs"
    and "hd_receipts_root h = ao_calculate_receipt_root A receipts"
    and "hd_logs_bloom h = ao_logs_bloom A receipts"
  shows "fst (assemble_block E A (ee_block_env (evm_env_for_payload S R G cfg payload))
      (context_for_payload payload) txs receipts (hd_gas_used h) (hd_state_root h)) =
    h\<lparr>hd_difficulty := 0, hd_extra_data := []\<rparr>"
proof -
  have fields: "hd_nonce h = Some 0" "hd_ommers_hash h = en_empty_ommer_root E" "hd_withdrawals_root h = None"
    "hd_blob_gas_used h = None" "hd_excess_blob_gas h = None" "hd_parent_beacon_block_root h = None"
    "hd_requests_hash h = None"
    using assms(1) by (auto simp: engine_validate_header_def Let_def bindR_eq_Inr)
  have randao: "ep_prev_randao payload = 0" using assms(2,3) by (simp add: carries_header_def)
  obtain fee where fee: "hd_base_fee_per_gas h = Some fee" "ep_base_fee_per_gas payload = ucast fee"
    using assms(3) by (auto simp: carries_header_def)
  show ?thesis
    using assms(2-7) fields randao fee
    by (intro header.equality) (simp_all add: carries_header_def assemble_block_def evm_env_for_payload_def
        context_for_payload_def Let_def)
qed

section \<open>Witnesses\<close>

text \<open>Chain 137 with constant blob parameters, after the merge; the configuration lists its settings.\<close>

definition demo_spec :: "(unit, unit, unit, unit, unit, unit, unit) eth_chain_spec" where
  "demo_spec =
     \<lparr>es_chain = (\<lambda>_. 137), es_chain_id = (\<lambda>_. 137), es_base_fee_params_at_timestamp = (\<lambda>_ _. ()),
      es_blob_params_at_timestamp = (\<lambda>_ _. Some ()), es_deposit_contract = (\<lambda>_. None), es_genesis = (\<lambda>_. ()),
      es_genesis_hash = (\<lambda>_. 0), es_genesis_header = (\<lambda>_. ()), es_prune_delete_limit = (\<lambda>_. 0),
      es_display_hardforks = (\<lambda>_. []), es_bootnodes = (\<lambda>_. None), es_final_paris_total_difficulty = (\<lambda>_. None)\<rparr>"

definition demo_block_env :: block_env where
  "demo_block_env =
     \<lparr>bv_number = 0, bv_beneficiary = 0, bv_timestamp = 0, bv_gas_limit = 0, bv_basefee = 0, bv_difficulty = 0,
      bv_prevrandao = None, bv_blob_excess_gas_and_price = None\<rparr>"

definition demo_evm_ops :: "(unit, unit, bool, string list) evm_ops" where
  "demo_evm_ops =
     \<lparr>eo_for_eth_block = (\<lambda>_ _ _ _. \<lparr>ee_cfg_env = [], ee_block_env = demo_block_env\<rparr>),
      eo_for_eth_next_block = (\<lambda>_ _ _ _ _ _. \<lparr>ee_cfg_env = [], ee_block_env = demo_block_env\<rparr>),
      eo_next_block_base_fee = (\<lambda>_ _ _. None), eo_is_osaka_active_at_timestamp = (\<lambda>_ _. False),
      eo_revm_spec = (\<lambda>_ _ _. True), eo_is_merge = (\<lambda>spec. spec), eo_max_blobs_per_tx = (\<lambda>_. 6),
      eo_calc_blob_fee = (\<lambda>_ _. 1)\<rparr>"

definition demo_cfg_ops :: "(string list, bool) cfg_ops" where
  "demo_cfg_ops =
     \<lparr>co_new = [], co_with_chain_id = (\<lambda>c i. show_u64 i # c), co_with_spec = (\<lambda>c s. ''spec'' # c),
      co_set_max_blobs_per_tx = (\<lambda>c n. ''blobs'' # c), co_set_tx_gas_limit_cap = (\<lambda>c n. ''cap'' # c),
      co_max_tx_gas_limit_osaka = 16777216\<rparr>"

definition demo_payload :: "header \<Rightarrow> execution_payload" where
  "demo_payload h =
     \<lparr>ep_timestamp = hd_timestamp h, ep_block_number = hd_number h, ep_fee_recipient = hd_beneficiary h,
      ep_prev_randao = 0, ep_gas_limit = hd_gas_limit h, ep_base_fee_per_gas = 7, ep_excess_blob_gas = None,
      ep_transactions = [], ep_parent_hash = hd_parent_hash h, ep_parent_beacon_block_root = None,
      ep_withdrawals = None, ep_extra_data = hd_extra_data h\<rparr>"

theorem payload_reassembly_witness:
  "fst (assemble_block demo_env
      \<lparr>ao_calculate_receipt_root = (\<lambda>rs. 6), ao_logs_bloom = (\<lambda>rs :: unit list. 0), ao_beacon_nonce = 0\<rparr>
      (ee_block_env (evm_env_for_payload demo_spec demo_evm_ops demo_cfg_ops (evm_config_new () () ())
         (demo_payload (demo_header\<lparr>hd_transactions_root := 0\<rparr>))))
      (context_for_payload (demo_payload (demo_header\<lparr>hd_transactions_root := 0\<rparr>))) [] [] 21000 4) =
   demo_header\<lparr>hd_transactions_root := 0, hd_difficulty := 0, hd_extra_data := []\<rparr>"
proof -
  let ?h = "demo_header\<lparr>hd_transactions_root := 0\<rparr>"
  let ?A = "\<lparr>ao_calculate_receipt_root = (\<lambda>rs. 6), ao_logs_bloom = (\<lambda>rs :: unit list. 0), ao_beacon_nonce = 0\<rparr>"
  have "engine_validate_header demo_env \<lparr>sh_header = ?h, sh_hash = 1\<rparr> = Inr ()"
    by (simp add: engine_validate_header_def demo_env_def demo_header_def Let_def address_bytes_def)
  moreover have "carries_header (demo_payload ?h) ?h"
    by (simp add: carries_header_def demo_payload_def demo_header_def)
  ultimately show ?thesis
    using payload_reassembly [of demo_env ?h 1 "demo_payload ?h" ?A "[]" "[]" demo_spec demo_evm_ops demo_cfg_ops
        "evm_config_new () () ()"]
    by (simp add: demo_header_def demo_env_def)
qed

end
