(* ===== verification/Boreth_Main.thy ===== *)
theory Boreth_Main
  imports Bor_Node Consensus_System Evm_Env
begin

text \<open>
  \<open>bin/boreth/src/main.rs\<close>: the components that the binary hands to Reth's node builder, the
  network with the Bor handshake, and \<open>main\<close>. Reth's command line, builder context and network
  manager are parameters. The properties say what the components do as they are wired.
\<close>

section \<open>main.rs\<close>

definition build_consensus :: "'c \<Rightarrow> bor_consensus" where
  "build_consensus chain_spec = bor_consensus_new"

text \<open>The first two arguments are the default receipt builder and EVM factory.\<close>

definition build_evm :: "'rb \<Rightarrow> 'ef \<Rightarrow> 'c \<Rightarrow> ('rb, 'c, 'ef) bor_evm_config" where
  "build_evm receipt_builder evm_factory chain_spec = evm_config_new receipt_builder evm_factory chain_spec"

text \<open>What \<open>build_network\<close> calls of the builder context and of Reth's network manager.\<close>

record ('ctx, 'hs, 'builder, 'cfg, 'net, 'pool, 'handle, 'e) network_ops =
  no_network_config_builder :: "'ctx \<Rightarrow> 'e + 'builder"
  no_eth_rlpx_handshake :: "'builder \<Rightarrow> 'hs \<Rightarrow> 'builder"
  no_build_network_config :: "'ctx \<Rightarrow> 'builder \<Rightarrow> 'cfg"
  no_manager_builder :: "'cfg \<Rightarrow> 'e + 'net"
  no_start_network :: "'ctx \<Rightarrow> 'net \<Rightarrow> 'pool \<Rightarrow> 'handle"

text \<open>\<open>BorRlpxHandshake\<close> has no fields: its value is the method \<open>handshake\<close>.\<close>

definition build_network where
  "build_network N ctx pool =
     bindR (no_network_config_builder N ctx) (\<lambda>builder.
     let network_config = no_build_network_config N ctx (no_eth_rlpx_handshake N builder handshake) in
     bindR (no_manager_builder N network_config) (\<lambda>network.
     Inr (no_start_network N ctx network pool)))"

text \<open>The three components that replace those of the Ethereum node.\<close>

record ('rb, 'c, 'ef, 'handle) boreth_components =
  bo_consensus :: bor_consensus
  bo_executor :: "('rb, 'c, 'ef) bor_evm_config"
  bo_network :: 'handle

definition boreth_components where
  "boreth_components receipt_builder evm_factory N ctx chain_spec pool =
     bindR (build_network N ctx pool) (\<lambda>handle.
     Inr \<lparr>bo_consensus = build_consensus chain_spec,
          bo_executor = build_evm receipt_builder evm_factory chain_spec,
          bo_network = handle\<rparr>)"

text \<open>
  \<open>main\<close>: the environment variables it leaves and its exit code. \<open>cli\<close> is Reth's command line,
  which reads the arguments, parses the chain with the given parser and launches the node.
\<close>

definition boreth_main ::
    "((string \<Rightarrow> panic + (string + 'i)) \<Rightarrow> 'launch \<Rightarrow> 'err + unit) \<Rightarrow> (string \<Rightarrow> panic + (string + 'i)) \<Rightarrow> 'launch \<Rightarrow>
     (string, string) hmap \<Rightarrow> (string, string) hmap \<times> nat" where
  "boreth_main cli parser launch vars =
     (let vars' = (if hm_get vars ''RUST_BACKTRACE'' = None then hm_insert ''RUST_BACKTRACE'' ''1'' vars else vars)
      in case cli parser launch of
           Inl err \<Rightarrow> (vars', 1)
         | Inr _ \<Rightarrow> (vars', 0))"

section \<open>Lemmas\<close>

lemma empty_engine_pre_execution:
  "engine_pre_execution E bor_consensus_new h b =
     (bor_consensus_new, case block_signer E h b of Inl err \<Rightarrow> Inl (Err err) | Inr _ \<Rightarrow> Inr ())"
  by (auto simp: engine_pre_execution_def get_span_for_block_def span_id_at_def u64_div_def span_size_default_def
      bor_consensus_new_def span_cache_get_def span_cache_new_def hm_contains_def hm_get_def Let_def
      split: sum.splits)

lemma find_hardfork_table:
  "find_bor_fork (hardfork_name f) (hardfork_table act) = Some (Block (act f))"
  by (cases f) (simp_all add: hardfork_table_eq all_hardforks_def)

lemma find_bor_fork_None: "(\<And>f. hardfork_name f \<noteq> name) \<Longrightarrow> find_bor_fork name m = None"
  by (induction name m rule: find_bor_fork.induct) simp_all

text \<open>A Bor specification reports its own forks by name, and the inner specification's otherwise.\<close>

lemma hardforks_fork_table:
  assumes "cs_bor_hardforks cs = hardfork_table act"
  shows "hardforks_fork ops cs (hardfork_name f) = Block (act f)"
    and "(\<And>f. hardfork_name f \<noteq> name) \<Longrightarrow> hardforks_fork ops cs name = io_fork ops (cs_inner cs) name"
  using assms find_bor_fork_None [of name] by (simp_all add: hardforks_fork_def find_hardfork_table)

lemma amoy_genesis_eq:
  "bor_amoy_genesis build (Inr g) =
     Inr \<lparr>cs_inner = build AMOY_CHAIN_ID g amoy_eth_forks, cs_bor_hardforks = hardfork_table amoy_block\<rparr>"
  using amoy_spec_eq by (simp add: bor_amoy_genesis_def bor_amoy_chainspec_def)

lemma bor_names_not_eth [simp]:
  "map_of mainnet_eth_forks (hardfork_name f) = None" "map_of amoy_eth_forks (hardfork_name f) = None"
  by (cases f; simp add: mainnet_eth_forks_def amoy_eth_forks_def)+

section \<open>Properties\<close>

text \<open>
  C31. The binary's engine checks no signer: on every sequence of block validations the engine
  that \<open>build_consensus\<close> returns answers only whether a signer could be recovered from the block,
  for every signer and every number of blocks by one signer, and it records nobody, because
  nothing in the binary inserts a span.
\<close>

theorem wired_engine_checks_no_signer:
  fixes blocks :: "(header \<times> 'tx block_body) list"
  shows "run_calls (engine_apply E) (build_consensus chain_spec) (map (\<lambda>(h, b). CallPreExecution h b) blocks) =
     (build_consensus chain_spec,
      map (\<lambda>(h, b). case block_signer E h b of Inl err \<Rightarrow> Inl (Err err) | Inr _ \<Rightarrow> Inr ()) blocks)"
  by (induction blocks) (auto simp: build_consensus_def empty_engine_pre_execution)

text \<open>
  The specification that the command line gives the node knows no Bor hardfork: for every
  chain name of a Polygon network the parser returns the inner specification of the genesis
  it builds. With Reth's lookup, which answers \<open>Never\<close> for a fork that is not in the list, each
  of the ten Bor hardforks never activates in it, while the genesis itself reports the block
  of the network's table; on every other name the two agree.
\<close>

theorem parsed_spec_drops_bor_forks:
  assumes "\<And>chain_id g forks name. io_fork ops (build chain_id g forks) name =
      (case map_of forks name of Some c \<Rightarrow> c | None \<Rightarrow> Never)"
    and "s = ''polygon'' \<and> network = bor_mainnet_genesis build g \<and> act = mainnet_block \<or>
      s = ''mainnet'' \<and> network = bor_mainnet_genesis build g \<and> act = mainnet_block \<or>
      s = ''amoy'' \<and> network = bor_amoy_genesis build (Inr g') \<and> act = amoy_block"
  shows "\<exists>inner cs. chain_spec_parse build g (Inr g') parse_genesis s = Inr (Inr inner) \<and> network = Inr cs \<and>
    (\<forall>f. io_fork ops inner (hardfork_name f) = Never \<and> hardforks_fork ops cs (hardfork_name f) = Block (act f)) \<and>
    (\<forall>name. (\<nexists>f. hardfork_name f = name) \<longrightarrow> io_fork ops inner name = hardforks_fork ops cs name)"
proof -
  obtain chain_id genesis forks where net: "network = Inr \<lparr>cs_inner = build chain_id genesis forks,
      cs_bor_hardforks = hardfork_table act\<rparr>" (is "_ = Inr ?cs")
    and parse: "chain_spec_parse build g (Inr g') parse_genesis s = Inr (Inr (build chain_id genesis forks))"
    and none: "\<And>f. map_of forks (hardfork_name f) = None"
    using assms(2) by (elim disjE conjE)
      (simp_all add: chain_spec_parse_def into_inner_def amoy_genesis_eq bor_mainnet_genesis_def mainnet_spec_eq)
  have "io_fork ops (build chain_id genesis forks) (hardfork_name f) = Never" for f
    using assms(1) none by simp
  moreover have "hardforks_fork ops ?cs (hardfork_name f) = Block (act f)" for f
    by (rule hardforks_fork_table) simp
  moreover have "io_fork ops (build chain_id genesis forks) name = hardforks_fork ops ?cs name"
    if "\<nexists>f. hardfork_name f = name" for name
    using that hardforks_fork_table(2) [of ?cs act name ops] by auto
  ultimately show ?thesis using net parse by blast
qed

section \<open>Witnesses\<close>

text \<open>A specification as the list of its forks.\<close>

definition list_spec_ops :: "((string \<times> fork_condition) list, unit) inner_ops" where
  "list_spec_ops =
     \<lparr>io_forks_iter = (\<lambda>forks. forks),
      io_fork = (\<lambda>forks name. case map_of forks name of Some c \<Rightarrow> c | None \<Rightarrow> Never),
      io_chain_id = (\<lambda>_. 0), io_genesis_hash = (\<lambda>_. 0), io_genesis_timestamp = (\<lambda>_. 0),
      io_hash_from = (\<lambda>_. ()), io_hash_add = (\<lambda>h b. h)\<rparr>"

theorem parsed_spec_drops_bor_forks_witness:
  "\<exists>inner cs. chain_spec_parse (\<lambda>chain_id (g :: unit) forks. forks) () (Inr ()) (\<lambda>s. Inl s) ''amoy'' =
       Inr (Inr inner) \<and>
     bor_amoy_genesis (\<lambda>chain_id (g :: unit) forks. forks) (Inr ()) = Inr cs \<and>
     io_fork list_spec_ops inner ''Rio'' = Never \<and> hardforks_fork list_spec_ops cs ''Rio'' = Block 26272256"
proof -
  have law: "io_fork list_spec_ops ((\<lambda>chain_id (g :: unit) forks. forks) chain_id g forks) name =
      (case map_of forks name of Some c \<Rightarrow> c | None \<Rightarrow> Never)" for chain_id :: u64 and g forks name
    by (simp add: list_spec_ops_def)
  obtain inner cs where
    "chain_spec_parse (\<lambda>chain_id (g :: unit) forks. forks) () (Inr ()) (\<lambda>s. Inl s) ''amoy'' = Inr (Inr inner)"
    "bor_amoy_genesis (\<lambda>chain_id (g :: unit) forks. forks) (Inr ()) = Inr cs"
    and "\<forall>f. io_fork list_spec_ops inner (hardfork_name f) = Never \<and>
      hardforks_fork list_spec_ops cs (hardfork_name f) = Block (amoy_block f)"
    using parsed_spec_drops_bor_forks [OF law, of "''amoy''" "bor_amoy_genesis (\<lambda>chain_id (g :: unit) forks. forks) (Inr ())"
        "()" amoy_block "()" "\<lambda>s. Inl s"] by auto
  then show ?thesis by (metis (no_types) hardfork_name.simps(7) amoy_block.simps(7))
qed

end
