(* ===== verification/Tests_Chainspec.thy ===== *)
theory Tests_Chainspec
  imports Boreth_Main
begin

text \<open>
  The unit tests of \<open>bor-chainspec\<close> and \<open>bor-primitives\<close>, each as the predicate that its assertions
  state of the model. An assertion on a call that could panic says that the call returns.
  Reth's chain specification is a list of forks with a chain id (\<open>test_ops\<close>). The tests that
  only exercise serde and those on the embedded Amoy genesis file are left out: the file and
  the JSON codec are parameters.
\<close>

section \<open>constants.rs\<close>

definition test_system_address :: bool where
  "test_system_address \<longleftrightarrow> SYSTEM_ADDRESS = 0xfffffffffffffffffffffffffffffffffffffffe"

definition test_validator_contract :: bool where
  "test_validator_contract \<longleftrightarrow> BOR_VALIDATOR_SET_ADDRESS = 0x0000000000000000000000000000000000001000"

definition test_state_receiver :: bool where
  "test_state_receiver \<longleftrightarrow> STATE_RECEIVER_ADDRESS = 0x0000000000000000000000000000000000001001"

definition test_chain_ids :: bool where
  "test_chain_ids \<longleftrightarrow> MAINNET_CHAIN_ID = 137 \<and> AMOY_CHAIN_ID = 80002"

section \<open>hardfork.rs\<close>

definition test_hardfork_ordering :: bool where
  "test_hardfork_ordering \<longleftrightarrow>
     list_all (\<lambda>(f, g). mainnet_block f < mainnet_block g) (zip all_hardforks (tl all_hardforks))"

definition test_delhi_block :: bool where
  "test_delhi_block \<longleftrightarrow> mainnet_block Delhi = 38189056"

definition test_rio_block :: bool where
  "test_rio_block \<longleftrightarrow> mainnet_block Rio = 77414656"

definition test_madhugiri_block :: bool where
  "test_madhugiri_block \<longleftrightarrow> mainnet_block Madhugiri = 80084800"

definition test_lisovo_block :: bool where
  "test_lisovo_block \<longleftrightarrow> mainnet_block Lisovo = 83756500"

section \<open>params.rs\<close>

definition test_sprint_size_pre_delhi :: bool where
  "test_sprint_size_pre_delhi \<longleftrightarrow> sprint_size 38189055 = 64"

definition test_sprint_size_post_delhi :: bool where
  "test_sprint_size_post_delhi \<longleftrightarrow> sprint_size 38189056 = 16"

definition test_span_size_pre_rio :: bool where
  "test_span_size_pre_rio \<longleftrightarrow> span_size 77414655 = 6400"

definition test_span_size_post_rio :: bool where
  "test_span_size_post_rio \<longleftrightarrow> span_size 77414656 = 1600"

definition test_gas_limit_pre_bhilai :: bool where
  "test_gas_limit_pre_bhilai \<longleftrightarrow> block_gas_limit (76000000 - 1) = 30000000"

definition test_gas_limit_post_bhilai :: bool where
  "test_gas_limit_post_bhilai \<longleftrightarrow> block_gas_limit 76000000 = 45000000"

definition test_base_fee_denom_evolution :: bool where
  "test_base_fee_denom_evolution \<longleftrightarrow>
     base_fee_change_denominator 1 = 8 \<and>
     base_fee_change_denominator 38189056 = 16 \<and>
     base_fee_change_denominator 76000000 = 64"

definition test_is_sprint_start :: bool where
  "test_is_sprint_start \<longleftrightarrow>
     is_sprint_start 0 = Inr True \<and> is_sprint_start 64 = Inr True \<and> is_sprint_start 65 = Inr False \<and>
     is_sprint_start 38189056 = Inr True"

definition test_is_span_start :: bool where
  "test_is_span_start \<longleftrightarrow>
     is_span_start 0 6400 = Inr True \<and> is_span_start 6400 6400 = Inr True \<and> is_span_start 6401 6400 = Inr False"

definition test_max_code_size :: bool where
  "test_max_code_size \<longleftrightarrow> max_code_size 0 = 24576 \<and> max_code_size 100000000 = 24576"

section \<open>chainspec.rs\<close>

text \<open>A specification of Reth as its chain id and forks; a fork hash is the list of what was folded.\<close>

type_synonym test_spec = "u64 \<times> (string \<times> fork_condition) list"

definition test_build :: "u64 \<Rightarrow> unit \<Rightarrow> (string \<times> fork_condition) list \<Rightarrow> test_spec" where
  "test_build chain_id genesis forks = (chain_id, forks)"

definition test_ops :: "(test_spec, u64 list) inner_ops" where
  "test_ops =
     \<lparr>io_forks_iter = snd,
      io_fork = (\<lambda>spec name. case map_of (snd spec) name of Some c \<Rightarrow> c | None \<Rightarrow> Never),
      io_chain_id = fst, io_genesis_hash = (\<lambda>_. 0), io_genesis_timestamp = (\<lambda>_. 0),
      io_hash_from = (\<lambda>_. []), io_hash_add = (\<lambda>h b. h @ [b])\<rparr>"

definition test_mainnet_spec :: "panic + test_spec bor_chain_spec" where
  "test_mainnet_spec =
     bor_mainnet_chainspec (test_build 137 ()
       [(''Frontier'', Block 0), (''Homestead'', Block 0), (''Tangerine'', Block 0),
        (''SpuriousDragon'', Block 0), (''Byzantium'', Block 0), (''Constantinople'', Block 0),
        (''Petersburg'', Block 0), (''Istanbul'', Block 0), (''MuirGlacier'', Block 0),
        (''Berlin'', Block 29231616), (''London'', Block 29231616)])"

definition returns_and :: "panic + 'a \<Rightarrow> ('a \<Rightarrow> bool) \<Rightarrow> bool" where
  "returns_and r P \<longleftrightarrow> (case r of Inl _ \<Rightarrow> False | Inr x \<Rightarrow> P x)"

definition test_chainspec_chain_id :: bool where
  "test_chainspec_chain_id \<longleftrightarrow> returns_and test_mainnet_spec (\<lambda>spec. io_chain_id test_ops (cs_inner spec) = 137)"

definition test_chainspec_is_fork_active :: bool where
  "test_chainspec_is_fork_active \<longleftrightarrow> returns_and test_mainnet_spec (\<lambda>spec.
     is_bor_fork_active_at_block spec Delhi 38189057 \<and> \<not> is_bor_fork_active_at_block spec Delhi 38189055)"

fun blocks_ascend :: "u64 option \<Rightarrow> (bor_hardfork \<times> fork_condition) list \<Rightarrow> bool" where
  "blocks_ascend prev [] = True"
| "blocks_ascend prev ((fork, Block block) # rest) =
     ((case prev of Some p \<Rightarrow> p \<le> block | None \<Rightarrow> True) \<and> blocks_ascend (Some block) rest)"
| "blocks_ascend prev (_ # rest) = blocks_ascend prev rest"

definition test_hardfork_order_invariant :: bool where
  "test_hardfork_order_invariant \<longleftrightarrow> returns_and test_mainnet_spec (\<lambda>spec. blocks_ascend None (cs_bor_hardforks spec))"

text \<open>The inner fork id of the third assertion is Reth's and is not compared.\<close>

definition test_fork_id_excludes_bor_hardforks :: bool where
  "test_fork_id_excludes_bor_hardforks \<longleftrightarrow> returns_and test_mainnet_spec (\<lambda>spec.
     fi_next (hardforks_fork_id test_ops spec 0) = 29231616 \<and>
     fi_next (hardforks_fork_id test_ops spec 100000000) = 0)"

text \<open>Reth's filter announces the first fork beyond the head among those it is given.\<close>

definition test_fork_filter_at_genesis :: bool where
  "test_fork_filter_at_genesis \<longleftrightarrow> returns_and test_mainnet_spec (\<lambda>spec.
     find (\<lambda>b. 0 < b) (snd (snd (fork_filter_args test_ops spec))) = Some 29231616)"

section \<open>genesis.rs, amoy.rs and cli.rs\<close>

definition test_mainnet_chain_id :: bool where
  "test_mainnet_chain_id \<longleftrightarrow>
     returns_and (bor_mainnet_genesis test_build ()) (\<lambda>spec. io_chain_id test_ops (cs_inner spec) = 137)"

definition test_mainnet_has_all_bor_hardforks :: bool where
  "test_mainnet_has_all_bor_hardforks \<longleftrightarrow> returns_and (bor_mainnet_genesis test_build ()) (\<lambda>spec.
     list_all (\<lambda>fork. bt_get (bor_hardforks spec) fork \<noteq> None) all_hardforks)"

definition test_mainnet_delhi_active :: bool where
  "test_mainnet_delhi_active \<longleftrightarrow> returns_and (bor_mainnet_genesis test_build ()) (\<lambda>spec.
     is_bor_fork_active_at_block spec Delhi 38189056 \<and> \<not> is_bor_fork_active_at_block spec Delhi 38189055)"

definition test_mainnet_lisovo_active :: bool where
  "test_mainnet_lisovo_active \<longleftrightarrow> returns_and (bor_mainnet_genesis test_build ()) (\<lambda>spec.
     is_bor_fork_active_at_block spec Lisovo 83756500 \<and> \<not> is_bor_fork_active_at_block spec Lisovo 83756499)"

definition test_mainnet_london_block :: bool where
  "test_mainnet_london_block \<longleftrightarrow> returns_and (bor_mainnet_genesis test_build ()) (\<lambda>spec.
     io_fork test_ops (chain_spec_inner spec) ''London'' = Block 29231616)"

definition test_amoy_chain_id :: bool where
  "test_amoy_chain_id \<longleftrightarrow>
     returns_and (bor_amoy_genesis test_build (Inr ())) (\<lambda>spec. io_chain_id test_ops (cs_inner spec) = 80002)"

definition test_amoy_delhi_active_at_73100 :: bool where
  "test_amoy_delhi_active_at_73100 \<longleftrightarrow> returns_and (bor_amoy_genesis test_build (Inr ())) (\<lambda>spec.
     is_bor_fork_active_at_block spec Delhi 73100 \<and> \<not> is_bor_fork_active_at_block spec Delhi 73099)"

definition test_amoy_ahmedabad_active_at_block :: bool where
  "test_amoy_ahmedabad_active_at_block \<longleftrightarrow> returns_and (bor_amoy_genesis test_build (Inr ())) (\<lambda>spec.
     is_bor_fork_active_at_block spec Ahmedabad 11865856 \<and>
     \<not> is_bor_fork_active_at_block spec Ahmedabad 11865855)"

definition test_amoy_bor_hardfork_count :: bool where
  "test_amoy_bor_hardfork_count \<longleftrightarrow> returns_and (bor_amoy_genesis test_build (Inr ())) (\<lambda>spec.
     length (bor_hardforks spec) = length all_hardforks)"

text \<open>Reth's genesis parser fails on a string that is neither a file nor JSON.\<close>

definition test_parse :: "string \<Rightarrow> panic + (string + test_spec)" where
  "test_parse = chain_spec_parse test_build () (Inr ()) (\<lambda>s. Inl s)"

definition parses_to_chain :: "string \<Rightarrow> u64 \<Rightarrow> bool" where
  "parses_to_chain s chain_id \<longleftrightarrow>
     returns_and (test_parse s) (\<lambda>r. case r of Inl _ \<Rightarrow> False | Inr spec \<Rightarrow> io_chain_id test_ops spec = chain_id)"

definition test_parse_amoy :: bool where
  "test_parse_amoy \<longleftrightarrow> parses_to_chain ''amoy'' 80002"

definition test_parse_polygon :: bool where
  "test_parse_polygon \<longleftrightarrow> parses_to_chain ''polygon'' 137"

definition test_parse_mainnet_alias :: bool where
  "test_parse_mainnet_alias \<longleftrightarrow> parses_to_chain ''mainnet'' 137"

definition test_parse_unknown_fails :: bool where
  "test_parse_unknown_fails \<longleftrightarrow> returns_and (test_parse ''nonexistent-chain'') isl"

section \<open>bootnodes.rs\<close>

definition str_contains :: "string \<Rightarrow> string \<Rightarrow> bool" where
  "str_contains s part \<longleftrightarrow> list_ex (\<lambda>i. take (length part) (drop i s) = part) [0..<Suc (length s)]"

definition starts_with :: "string \<Rightarrow> string \<Rightarrow> bool" where
  "starts_with s part \<longleftrightarrow> take (length part) s = part"

definition test_amoy_bootnodes_parse :: bool where
  "test_amoy_bootnodes_parse \<longleftrightarrow>
     list_all (\<lambda>bootnode. starts_with bootnode ''enode://'' \<and> str_contains bootnode '':30303'') AMOY_BOOTNODES"

definition test_amoy_dns_discovery :: bool where
  "test_amoy_dns_discovery \<longleftrightarrow> starts_with AMOY_DNS_DISCOVERY ''enrtree://''"

section \<open>bor-primitives/src/lib.rs\<close>

text \<open>\<open>Address::new([b; 20])\<close>\<close>

definition address_of_byte :: "u8 \<Rightarrow> address" where
  "address_of_byte b = word_of_nat (be_value (replicate 20 b))"

definition sample_validator :: "u64 \<Rightarrow> u8 \<Rightarrow> validator" where
  "sample_validator i b =
     \<lparr>v_id = i, v_address = address_of_byte b, v_voting_power = 100, v_signer = address_of_byte b,
      v_proposer_priority = 0\<rparr>"

definition test_span_id_calculation :: bool where
  "test_span_id_calculation \<longleftrightarrow> span_id_at 6400 6400 = Inr 1 \<and> span_id_at 0 6400 = Inr 0"

definition test_validator_bytes_encoding :: bool where
  "test_validator_bytes_encoding \<longleftrightarrow>
     length (encode_validator_bytes [sample_validator 1 0xaa, sample_validator 2 0xbb]) = 40"

definition test_validator_bytes_decode :: bool where
  "test_validator_bytes_decode \<longleftrightarrow>
     returns_and (decode_validator_bytes (encode_validator_bytes [sample_validator 1 0xaa, sample_validator 2 0xbb]))
       (\<lambda>addresses. length addresses = 2 \<and> addresses ! 0 = address_of_byte 0xaa \<and> addresses ! 1 = address_of_byte 0xbb)"

section \<open>The tests pass\<close>

lemma constants_tests:
  "test_system_address" "test_validator_contract" "test_state_receiver" "test_chain_ids"
  by (simp_all add: test_system_address_def test_validator_contract_def test_state_receiver_def test_chain_ids_def
      SYSTEM_ADDRESS_def BOR_VALIDATOR_SET_ADDRESS_def STATE_RECEIVER_ADDRESS_def MAINNET_CHAIN_ID_def AMOY_CHAIN_ID_def)

lemma hardfork_tests:
  "test_hardfork_ordering" "test_delhi_block" "test_rio_block" "test_madhugiri_block" "test_lisovo_block"
  by (simp_all add: test_hardfork_ordering_def all_hardforks_def test_delhi_block_def test_rio_block_def
      test_madhugiri_block_def test_lisovo_block_def)

lemma params_size_tests:
  "test_sprint_size_pre_delhi" "test_sprint_size_post_delhi" "test_span_size_pre_rio" "test_span_size_post_rio"
  "test_gas_limit_pre_bhilai" "test_gas_limit_post_bhilai" "test_base_fee_denom_evolution" "test_max_code_size"
  by (simp_all add: test_sprint_size_pre_delhi_def test_sprint_size_post_delhi_def test_span_size_pre_rio_def
      test_span_size_post_rio_def test_gas_limit_pre_bhilai_def test_gas_limit_post_bhilai_def
      test_base_fee_denom_evolution_def test_max_code_size_def sprint_size_def span_size_def block_gas_limit_def
      base_fee_change_denominator_def max_code_size_def word_le_nat_alt)

lemma params_start_tests: "test_is_sprint_start" "test_is_span_start"
  by (simp_all add: test_is_sprint_start_def test_is_span_start_def is_sprint_start_eq is_span_start_eq sprint_size_def)

lemmas genesis_eqs = bor_mainnet_genesis_def mainnet_spec_eq amoy_genesis_eq returns_and_def test_build_def
  test_ops_def AMOY_CHAIN_ID_def

lemma chainspec_tests:
  "test_chainspec_chain_id" "test_chainspec_is_fork_active" "test_hardfork_order_invariant"
  "test_fork_id_excludes_bor_hardforks" "test_fork_filter_at_genesis"
  by (simp_all add: test_chainspec_chain_id_def test_chainspec_is_fork_active_def test_hardfork_order_invariant_def
      test_fork_id_excludes_bor_hardforks_def test_fork_filter_at_genesis_def test_mainnet_spec_def genesis_eqs
      is_bor_fork_active_at_block_def hardfork_table_eq all_hardforks_def bt_get_def hardforks_fork_id_def
      compute_fork_id_def eth_fork_blocks_def fork_filter_args_def List.map_filter_def)

lemma genesis_tests:
  "test_mainnet_chain_id" "test_mainnet_has_all_bor_hardforks" "test_mainnet_delhi_active"
  "test_mainnet_lisovo_active" "test_mainnet_london_block"
  by (simp_all add: test_mainnet_chain_id_def test_mainnet_has_all_bor_hardforks_def test_mainnet_delhi_active_def
      test_mainnet_lisovo_active_def test_mainnet_london_block_def genesis_eqs bor_hardforks_def chain_spec_inner_def
      is_bor_fork_active_at_block_def list_all_iff mainnet_eth_forks_def)

lemma amoy_tests:
  "test_amoy_chain_id" "test_amoy_delhi_active_at_73100" "test_amoy_ahmedabad_active_at_block"
  "test_amoy_bor_hardfork_count"
  by (simp_all add: test_amoy_chain_id_def test_amoy_delhi_active_at_73100_def test_amoy_ahmedabad_active_at_block_def
      test_amoy_bor_hardfork_count_def genesis_eqs bor_hardforks_def is_bor_fork_active_at_block_def hardfork_table_eq
      all_hardforks_def bt_get_def)

lemma cli_tests: "test_parse_amoy" "test_parse_polygon" "test_parse_mainnet_alias" "test_parse_unknown_fails"
  by (simp_all add: test_parse_amoy_def test_parse_polygon_def test_parse_mainnet_alias_def
      test_parse_unknown_fails_def parses_to_chain_def test_parse_def chain_spec_parse_def into_inner_def genesis_eqs)

lemma str_contains_end:
  assumes "take (length part) (rev s) = rev part"
  shows "str_contains s part"
proof -
  obtain r where "rev s = rev part @ r" using assms by (metis append_take_drop_id)
  then have "s = rev r @ part" by (metis rev_append rev_rev_ident)
  then show ?thesis by (auto simp: str_contains_def list_ex_iff intro!: bexI [of _ "length r"])
qed

lemma bootnodes_tests: "test_amoy_bootnodes_parse" "test_amoy_dns_discovery"
proof -
  show "test_amoy_bootnodes_parse"
    unfolding test_amoy_bootnodes_parse_def AMOY_BOOTNODES_def list.pred_inject
    by (intro conjI TrueI str_contains_end) (simp_all add: starts_with_def)
  show "test_amoy_dns_discovery"
    by (simp add: test_amoy_dns_discovery_def AMOY_DNS_DISCOVERY_def starts_with_def)
qed

lemma primitives_tests: "test_span_id_calculation" "test_validator_bytes_encoding" "test_validator_bytes_decode"
  using validator_bytes_roundtrip [of "[sample_validator 1 0xaa, sample_validator 2 0xbb]"]
  by (simp_all add: test_span_id_calculation_def test_validator_bytes_encoding_def test_validator_bytes_decode_def
      span_id_at_def u64_div_def returns_and_def sample_validator_def)

end
