(* ===== verification/Consensus_Proposer.thy ===== *)
theory Consensus_Proposer
  imports Bor_Primitives
begin

text \<open>
  \<open>bor-consensus/src/proposer.rs\<close>: the weighted round-robin selection of a proposer, on
  \<open>i64\<close> priorities with the overflow behaviour of the build profile. The lemmas prove an
  invariant of the priorities that rules out overflow for ever, and from the exact
  bookkeeping of the priorities the fairness of the selection.
\<close>

section \<open>Model\<close>

text \<open>\<open>iter().map(..).sum()\<close> adds from left to right and checks every addition.\<close>

primrec sum_voting_power :: "bool \<Rightarrow> int \<Rightarrow> validator list \<Rightarrow> panic + int" where
  "sum_voting_power oc acc [] = Inr acc"
| "sum_voting_power oc acc (v # vs) =
     bindR (i64_arith oc (acc + v_voting_power v)) (\<lambda>s. sum_voting_power oc s vs)"

definition increment_priority :: "bool \<Rightarrow> validator \<Rightarrow> panic + validator" where
  "increment_priority oc v =
     bindR (i64_arith oc (v_proposer_priority v + v_voting_power v))
       (\<lambda>p. Inr (v\<lparr>v_proposer_priority := p\<rparr>))"

text \<open>\<open>enumerate().max_by_key(..)\<close> returns the last of several maximal elements.\<close>

primrec max_by_key_loop :: "nat \<Rightarrow> (nat \<times> int) option \<Rightarrow> int list \<Rightarrow> nat option" where
  "max_by_key_loop i best [] = map_option fst best"
| "max_by_key_loop i best (x # xs) =
     max_by_key_loop (Suc i)
       (case best of
          None \<Rightarrow> Some (i, x)
        | Some (j, y) \<Rightarrow> if y \<le> x then Some (i, x) else Some (j, y)) xs"

definition max_by_key_index :: "int list \<Rightarrow> nat option" where
  "max_by_key_index xs = max_by_key_loop 0 None xs"

definition select_proposer :: "bool \<Rightarrow> validator_set \<Rightarrow> panic + (validator_set \<times> address)" where
  "select_proposer oc vset =
     bindR (sum_voting_power oc 0 (vs_validators vset)) (\<lambda>total_voting_power.
     bindR (collectR (map (increment_priority oc) (vs_validators vset))) (\<lambda>vs.
     case max_by_key_index (map v_proposer_priority vs) of
       None \<Rightarrow> Inl (ExpectFailed ''validator set must not be empty'')
     | Some idx \<Rightarrow>
         bindR (i64_arith oc (v_proposer_priority (vs ! idx) - total_voting_power)) (\<lambda>p.
         let proposer = (vs ! idx)\<lparr>v_proposer_priority := p\<rparr>
         in Inr (\<lparr>vs_validators = vs[idx := proposer], vs_proposer = Some proposer\<rparr>,
                 v_signer proposer))))"

definition get_sprint_producer ::
    "bool \<Rightarrow> validator_set \<Rightarrow> u64 \<Rightarrow> panic + (validator_set \<times> address)" where
  "get_sprint_producer oc vset sprint_number = select_proposer oc vset"

text \<open>The producers of \<open>k\<close> consecutive sprints: \<open>select_proposer\<close> on its own output.\<close>

primrec proposer_run :: "bool \<Rightarrow> nat \<Rightarrow> validator_set \<Rightarrow> panic + (validator_set \<times> address list)" where
  "proposer_run oc 0 vset = Inr (vset, [])"
| "proposer_run oc (Suc k) vset =
     bindR (select_proposer oc vset) (\<lambda>(vset', a).
     bindR (proposer_run oc k vset') (\<lambda>(vset'', as). Inr (vset'', a # as)))"

section \<open>The invariant\<close>

definition total_power :: "validator list \<Rightarrow> int" where
  "total_power vs = sum_list (map v_voting_power vs)"

text \<open>
  \<open>1 / (k + 1) + ... + 1 / n\<close> as a multiple of \<open>1 / n!\<close>; for \<open>k = 0\<close> it is the \<open>n\<close>-th harmonic
  number \<open>H\<close>.
\<close>

definition harmonic_tail :: "nat \<Rightarrow> nat \<Rightarrow> int" where
  "harmonic_tail n k = (\<Sum>i\<in>{k<..n}. int (fact n div i))"

text \<open>
  Any \<open>k\<close> of \<open>n\<close> priorities are on average at most \<open>T * (1 / (k + 1) + ... + 1 / n)\<close>: the
  invariant of a greedy player that always serves the one who has waited for most.
\<close>

definition capped :: "validator list \<Rightarrow> bool" where
  "capped vs \<longleftrightarrow>
     (\<forall>S\<subseteq>{..<length vs}. fact (length vs) * (\<Sum>j\<in>S. v_proposer_priority (vs ! j)) \<le>
        int (card S) * total_power vs * harmonic_tail (length vs) (card S))"

text \<open>
  Non-negative voting powers with a positive total \<open>T\<close>, priorities that sum to zero, stay
  above \<open>-T\<close> and are capped, and \<open>T * H\<close> within an \<open>i64\<close>.
\<close>

definition balanced :: "validator list \<Rightarrow> bool" where
  "balanced vs \<longleftrightarrow>
     (\<forall>v\<in>set vs. 0 \<le> v_voting_power v \<and> - total_power vs < v_proposer_priority v) \<and>
     0 < total_power vs \<and> total_power vs * harmonic_tail (length vs) 0 < 2 ^ 63 * fact (length vs) \<and>
     sum_list (map v_proposer_priority vs) = 0 \<and> capped vs"

section \<open>Lemmas: lists\<close>

lemma sum_list_upper: "(\<And>x. x \<in> set xs \<Longrightarrow> x \<le> (B :: int)) \<Longrightarrow> sum_list xs \<le> int (length xs) * B"
proof (induction xs)
  case Nil
  then show ?case by simp
next
  case (Cons x xs)
  then have "sum_list xs \<le> int (length xs) * B" and "x \<le> B" by simp_all
  then show ?case by (simp add: algebra_simps)
qed

lemma harmonic_tail_step: "k < n \<Longrightarrow> harmonic_tail n k = int (fact n div Suc k) + harmonic_tail n (Suc k)"
proof -
  assume "k < n"
  then have "{k<..n} = insert (Suc k) {Suc k<..n}" by auto
  then show ?thesis by (simp add: harmonic_tail_def)
qed

lemma fact_split: "k < n \<Longrightarrow> int (Suc k) * int (fact n div Suc k) = fact n"
proof -
  assume "k < n"
  then have "Suc k dvd fact n" by (intro dvd_fact) simp_all
  then have "Suc k * (fact n div Suc k) = fact n" by (rule dvd_mult_div_cancel)
  then show ?thesis by (metis of_nat_fact of_nat_mult)
qed

lemma harmonic_tail_nonneg [simp]: "0 \<le> harmonic_tail n k"
  by (simp add: harmonic_tail_def sum_nonneg)

lemma harmonic_first: "0 < n \<Longrightarrow> harmonic_tail n 0 = fact n + harmonic_tail n 1"
  using harmonic_tail_step [of 0 n] by simp

text \<open>The harmonic number is at most \<open>n\<close>.\<close>

lemma harmonic_fits:
  assumes "int n * t < 2 ^ 63" and "0 \<le> t"
  shows "t * harmonic_tail n 0 < 2 ^ 63 * fact n"
proof -
  have "harmonic_tail n 0 \<le> (\<Sum>i\<in>{0<..n}. fact n)"
    unfolding harmonic_tail_def by (intro sum_mono) (metis div_le_dividend of_nat_fact of_nat_le_iff)
  then have "t * harmonic_tail n 0 \<le> t * (int n * fact n)" using assms(2) by (intro mult_left_mono) simp_all
  also have "\<dots> = int n * t * fact n" by simp
  also have "\<dots> < 2 ^ 63 * fact n" by (rule mult_strict_right_mono [OF assms(1)]) simp
  finally show ?thesis .
qed

lemma sum_list_map_update:
  "i < length xs \<Longrightarrow> sum_list (map f (xs[i := y])) = sum_list (map f xs) - f (xs ! i) + (f y :: int)"
proof (induction xs arbitrary: i)
  case Nil
  then show ?case by simp
next
  case (Cons x xs)
  then show ?case by (cases i) auto
qed

definition last_max :: "nat \<Rightarrow> int list \<Rightarrow> bool" where
  "last_max i xs \<longleftrightarrow> i < length xs \<and> (\<forall>j<length xs. xs ! j \<le> xs ! i \<and> (i < j \<longrightarrow> xs ! j < xs ! i))"

lemma last_max_snoc:
  "last_max j pre \<Longrightarrow> last_max (if pre ! j \<le> x then length pre else j) (pre @ [x])"
  by (fastforce simp: last_max_def nth_append less_Suc_eq)

lemma max_by_key_loop_correct:
  "last_max j pre \<Longrightarrow> \<exists>i. max_by_key_loop (length pre) (Some (j, pre ! j)) xs = Some i \<and> last_max i (pre @ xs)"
proof (induction xs arbitrary: j pre)
  case Nil
  then show ?case by simp
next
  case (Cons x xs)
  let ?j = "if pre ! j \<le> x then length pre else j"
  have lm: "last_max ?j (pre @ [x])" using Cons.prems by (rule last_max_snoc)
  have "(if pre ! j \<le> x then Some (length pre, x) else Some (j, pre ! j)) = Some (?j, (pre @ [x]) ! ?j)"
    using Cons.prems by (auto simp: nth_append last_max_def)
  with Cons.IH [OF lm] show ?case by simp
qed

lemma max_by_key_index_correct:
  "xs \<noteq> [] \<Longrightarrow> \<exists>i. max_by_key_index xs = Some i \<and> last_max i xs"
proof (cases xs)
  case (Cons x ys)
  have "last_max 0 [x]" by (simp add: last_max_def)
  from max_by_key_loop_correct [OF this, of ys] show ?thesis
    by (simp add: max_by_key_index_def Cons)
qed simp

section \<open>Lemmas: one selection\<close>

text \<open>The increment without overflow.\<close>

definition raised :: "validator \<Rightarrow> validator" where
  "raised v = v\<lparr>v_proposer_priority := v_proposer_priority v + v_voting_power v\<rparr>"

lemma raised_simps [simp]:
  "v_proposer_priority (raised v) = v_proposer_priority v + v_voting_power v"
  "v_voting_power (raised v) = v_voting_power v"
  "v_signer (raised v) = v_signer v"
  by (simp_all add: raised_def)

lemma total_power_Cons [simp]: "total_power (v # vs) = v_voting_power v + total_power vs"
  by (simp add: total_power_def)

lemma total_power_map_raised [simp]: "total_power (map raised vs) = total_power vs"
  by (simp add: total_power_def comp_def)

lemma total_power_nonneg: "(\<And>v. v \<in> set vs \<Longrightarrow> 0 \<le> v_voting_power v) \<Longrightarrow> 0 \<le> total_power vs"
  unfolding total_power_def by (rule sum_list_nonneg) auto

lemma voting_power_le_total:
  "(\<And>v. v \<in> set vs \<Longrightarrow> 0 \<le> v_voting_power v) \<Longrightarrow> v \<in> set vs \<Longrightarrow> v_voting_power v \<le> total_power vs"
  unfolding total_power_def by (rule member_le_sum_list) auto

lemma sum_voting_power_ok:
  "(\<And>v. v \<in> set vs \<Longrightarrow> 0 \<le> v_voting_power v) \<Longrightarrow> 0 \<le> acc \<Longrightarrow> acc + total_power vs < 2 ^ 63 \<Longrightarrow>
     sum_voting_power oc acc vs = Inr (acc + total_power vs)"
proof (induction vs arbitrary: acc)
  case Nil
  then show ?case by (simp add: total_power_def)
next
  case (Cons v vs)
  have v: "0 \<le> v_voting_power v" and vs: "0 \<le> total_power vs"
    using Cons.prems(1) total_power_nonneg [of vs] by auto
  then have "i64_range (acc + v_voting_power v)"
    using Cons.prems(2,3) by (simp add: i64_range_def)
  then show ?case
    using Cons.IH [of "acc + v_voting_power v"] Cons.prems v by (simp add: add.assoc)
qed

lemma balanced_nonempty: "balanced vs \<Longrightarrow> vs \<noteq> []"
  by (auto simp: balanced_def total_power_def)

lemma balanced_power_nonneg: "balanced vs \<Longrightarrow> v \<in> set vs \<Longrightarrow> 0 \<le> v_voting_power v"
  by (simp add: balanced_def)

lemma capped_single:
  "capped vs \<Longrightarrow> j < length vs \<Longrightarrow>
   fact (length vs) * v_proposer_priority (vs ! j) \<le> total_power vs * harmonic_tail (length vs) 1"
  unfolding capped_def by (drule spec [of _ "{j}"]) simp

lemma balanced_priority_bounds:
  assumes "balanced vs" and "v \<in> set vs"
  shows "- total_power vs < v_proposer_priority v"
    and "fact (length vs) * v_proposer_priority v \<le> total_power vs * harmonic_tail (length vs) 1"
  using assms capped_single [of vs] by (auto simp: balanced_def in_set_conv_nth)

lemma balanced_harmonic:
  "balanced vs \<Longrightarrow> total_power vs * fact (length vs) + total_power vs * harmonic_tail (length vs) 1 < 2 ^ 63 * fact (length vs)"
  using harmonic_first [of "length vs"] balanced_nonempty [of vs] by (simp add: balanced_def algebra_simps)

lemma balanced_total_bound: "balanced vs \<Longrightarrow> total_power vs < 2 ^ 63"
proof -
  assume b: "balanced vs"
  have "0 \<le> total_power vs * harmonic_tail (length vs) 1" using b by (simp add: balanced_def)
  then have "total_power vs * fact (length vs) < 2 ^ 63 * fact (length vs)" using balanced_harmonic [OF b] by linarith
  then show ?thesis by (simp only: mult_less_cancel_right_pos [OF fact_gt_zero])
qed

lemma balanced_raised_bound:
  assumes "balanced vs" and "v \<in> set vs"
  shows "v_proposer_priority v + v_voting_power v < 2 ^ 63"
proof -
  have "v_voting_power v \<le> total_power vs"
    using assms by (auto intro: voting_power_le_total simp: balanced_power_nonneg)
  then have "fact (length vs) * v_voting_power v \<le> total_power vs * fact (length vs)"
    unfolding mult.commute [of "total_power vs"] by (intro mult_left_mono) simp_all
  then have "fact (length vs) * v_proposer_priority v + fact (length vs) * v_voting_power v < 2 ^ 63 * fact (length vs)"
    using balanced_priority_bounds(2) [OF assms] balanced_harmonic [OF assms(1)] by linarith
  then have "fact (length vs) * (v_proposer_priority v + v_voting_power v) < fact (length vs) * 2 ^ 63"
    by (simp only: distrib_left mult.commute)
  then show ?thesis by (simp only: mult_less_cancel_left_pos [OF fact_gt_zero])
qed

lemma balanced_increment_ok:
  assumes "balanced vs" and "v \<in> set vs"
  shows "increment_priority oc v = Inr (raised v)"
proof -
  have "i64_range (v_proposer_priority v + v_voting_power v)"
    using balanced_priority_bounds(1) [OF assms] balanced_raised_bound [OF assms] balanced_power_nonneg [OF assms]
      balanced_total_bound [OF assms(1)] by (simp add: i64_range_def)
  then show ?thesis by (simp add: increment_priority_def raised_def)
qed

lemma sum_raised: "sum_list (map v_proposer_priority (map raised vs)) =
    sum_list (map v_proposer_priority vs) + total_power vs"
  by (induction vs) (simp_all add: total_power_def comp_def)

text \<open>The priority that is selected is positive: the raised priorities sum to the total.\<close>

lemma selected_positive:
  assumes "balanced vs" and "last_max i (map v_proposer_priority (map raised vs))"
  shows "0 < v_proposer_priority (raised (vs ! i))"
proof (rule ccontr)
  let ?ps = "map v_proposer_priority (map raised vs)"
  assume neg: "\<not> 0 < v_proposer_priority (raised (vs ! i))"
  have i: "i < length vs" using assms(2) by (simp add: last_max_def)
  have "p \<le> 0" if "p \<in> set ?ps" for p
  proof -
    from that obtain j where "j < length ?ps" "p = ?ps ! j" by (metis in_set_conv_nth)
    then have "p \<le> ?ps ! i" using assms(2) by (simp only: last_max_def)
    with neg i show ?thesis by simp
  qed
  then have "sum_list ?ps \<le> int (length ?ps) * 0" by (rule sum_list_upper)
  with assms(1) show False by (simp only: sum_raised) (simp add: balanced_def)
qed

text \<open>One selection from a balanced set: no panic, and the successor set in closed form.\<close>

lemma select_proposer_balanced:
  assumes "balanced (vs_validators vset)"
  obtains i where "last_max i (map v_proposer_priority (map raised (vs_validators vset)))"
    and "select_proposer oc vset = Inr
      (\<lparr>vs_validators = (map raised (vs_validators vset))[i := (raised (vs_validators vset ! i))
          \<lparr>v_proposer_priority := v_proposer_priority (raised (vs_validators vset ! i)) -
             total_power (vs_validators vset)\<rparr>],
        vs_proposer = Some ((raised (vs_validators vset ! i))
          \<lparr>v_proposer_priority := v_proposer_priority (raised (vs_validators vset ! i)) -
             total_power (vs_validators vset)\<rparr>)\<rparr>,
       v_signer (vs_validators vset ! i))"
proof -
  let ?vs = "vs_validators vset"
  let ?T = "total_power ?vs"
  have inc: "collectR (map (increment_priority oc) ?vs) = Inr (map raised ?vs)"
    by (rule collectR_all_Inr) (rule balanced_increment_ok [OF assms])
  have tot: "sum_voting_power oc 0 ?vs = Inr ?T"
    using sum_voting_power_ok [of ?vs 0 oc] balanced_power_nonneg [OF assms] balanced_total_bound [OF assms]
    by simp
  obtain i where idx: "max_by_key_index (map v_proposer_priority (map raised ?vs)) = Some i"
      and lm: "last_max i (map v_proposer_priority (map raised ?vs))"
    using max_by_key_index_correct balanced_nonempty [OF assms] by (metis Nil_is_map_conv)
  have i: "i < length ?vs" using lm by (simp add: last_max_def)
  have mem: "?vs ! i \<in> set ?vs" using i by simp
  have pos: "0 < v_proposer_priority (raised (?vs ! i))" using assms lm by (rule selected_positive)
  have "i64_range (v_proposer_priority (raised (?vs ! i)) - ?T)"
    using pos balanced_raised_bound [OF assms mem] balanced_total_bound [OF assms] assms
    by (simp add: i64_range_def balanced_def)
  then have "select_proposer oc vset = Inr
      (\<lparr>vs_validators = (map raised ?vs)[i := (raised (?vs ! i))
          \<lparr>v_proposer_priority := v_proposer_priority (raised (?vs ! i)) - ?T\<rparr>],
        vs_proposer = Some ((raised (?vs ! i))
          \<lparr>v_proposer_priority := v_proposer_priority (raised (?vs ! i)) - ?T\<rparr>)\<rparr>,
       v_signer (?vs ! i))"
    using i idx by (simp add: select_proposer_def tot inc Let_def del: raised_simps(1) map_map) 
  with lm show thesis by (rule that)
qed

text \<open>
  The set after a selection of validator \<open>i\<close>: every priority is raised by the power, the total is
  taken from that of \<open>i\<close>.
\<close>

abbreviation charged :: "validator list \<Rightarrow> nat \<Rightarrow> validator" where
  "charged vs i \<equiv> (raised (vs ! i))\<lparr>v_proposer_priority := v_proposer_priority (raised (vs ! i)) - total_power vs\<rparr>"

lemma selected_powers:
  assumes "i < length vs"
  shows "map v_signer ((map raised vs)[i := charged vs i]) = map v_signer vs"
    and "map v_voting_power ((map raised vs)[i := charged vs i]) = map v_voting_power vs"
  by (rule nth_equalityI; use assms in \<open>auto simp: nth_list_update\<close>)+

text \<open>The cap is kept: those that were not served are below the one that was.\<close>

lemma power_of_subset:
  assumes "balanced vs" and "S \<subseteq> {..<length vs}"
  shows "(\<Sum>j\<in>S. v_voting_power (vs ! j)) \<le> total_power vs"
proof -
  have "(\<Sum>j\<in>S. v_voting_power (vs ! j)) \<le> (\<Sum>j<length vs. v_voting_power (vs ! j))"
    using assms by (intro sum_mono2) (auto simp: balanced_def)
  then show ?thesis by (simp add: total_power_def sum_list_sum_nth atLeast0LessThan)
qed

lemma unserved_capped:
  assumes "balanced vs" and "S \<subseteq> {..<length vs}" and "i < length vs" and "i \<notin> S"
    and "\<And>j. j \<in> S \<Longrightarrow> v_proposer_priority (raised (vs ! j)) \<le> v_proposer_priority (raised (vs ! i))"
  shows "fact (length vs) * (\<Sum>j\<in>S. v_proposer_priority (raised (vs ! j))) \<le>
    int (card S) * total_power vs * harmonic_tail (length vs) (card S)"
proof -
  let ?n = "length vs" and ?k = "card S" and ?T = "total_power vs" and ?S = "insert i S"
  let ?X = "\<Sum>j\<in>S. v_proposer_priority (raised (vs ! j))" and ?f = "fact (length vs) :: int"
  define q where "q = int (fact ?n div Suc ?k)"
  have fin: "finite S" and S: "?S \<subseteq> {..<?n}" using assms(2,3) finite_subset by auto
  have "card ?S \<le> card {..<?n}" using S by (rule card_mono [rotated]) simp
  then have k: "?k < ?n" using fin assms(4) by simp
  have f: "?f = int (Suc ?k) * q" using fact_split [OF k] by (simp add: q_def)
  have "?X \<le> int ?k * v_proposer_priority (raised (vs ! i))"
    using sum_bounded_above [of S "\<lambda>j. v_proposer_priority (raised (vs ! j))"] assms(5) by simp
  then have "int (Suc ?k) * ?X \<le> int ?k * (\<Sum>j\<in>?S. v_proposer_priority (raised (vs ! j)))"
    using fin assms(4) by (simp add: algebra_simps)
  then have "?f * (int (Suc ?k) * ?X) \<le> ?f * (int ?k * (\<Sum>j\<in>?S. v_proposer_priority (raised (vs ! j))))"
    by (rule mult_left_mono) simp
  also have "\<dots> = int ?k * (?f * (\<Sum>j\<in>?S. v_proposer_priority (vs ! j)) + ?f * (\<Sum>j\<in>?S. v_voting_power (vs ! j)))"
    by (simp only: raised_simps sum.distrib) (simp only: algebra_simps)
  also have "\<dots> \<le> int ?k * (int (Suc ?k) * ?T * harmonic_tail ?n (Suc ?k) + ?f * ?T)"
  proof (intro mult_left_mono add_mono)
    have "card ?S = Suc ?k" using fin assms(4) by simp
    then show "?f * (\<Sum>j\<in>?S. v_proposer_priority (vs ! j)) \<le> int (Suc ?k) * ?T * harmonic_tail ?n (Suc ?k)"
      using assms(1) S unfolding balanced_def capped_def by (metis (no_types))
    show "(\<Sum>j\<in>?S. v_voting_power (vs ! j)) \<le> ?T" by (rule power_of_subset [OF assms(1) S])
  qed simp_all
  also have "\<dots> = int (Suc ?k) * (int ?k * ?T * harmonic_tail ?n ?k)"
    unfolding harmonic_tail_step [OF k] q_def [symmetric] by (subst f) (simp only: algebra_simps)
  finally have "int (Suc ?k) * (?f * ?X) \<le> int (Suc ?k) * (int ?k * ?T * harmonic_tail ?n ?k)"
    by (simp only: mult.left_commute)
  then show ?thesis by (simp only: mult_le_cancel_left_pos [OF of_nat_0_less_iff [THEN iffD2, OF zero_less_Suc]])
qed

lemma capped_selected:
  assumes "balanced vs" and "last_max i (map v_proposer_priority (map raised vs))"
  shows "capped ((map raised vs)[i := charged vs i])" (is "capped ?ws")
proof -
  have i: "i < length vs" using assms(2) by (simp add: last_max_def)
  have T: "total_power ?ws = total_power vs"
    unfolding total_power_def selected_powers(2) [OF i, unfolded total_power_def] ..
  have "fact (length vs) * (\<Sum>j\<in>S. v_proposer_priority (?ws ! j)) \<le>
      int (card S) * total_power vs * harmonic_tail (length vs) (card S)" if S: "S \<subseteq> {..<length vs}" for S
  proof (cases "i \<in> S")
    case True
    have fin: "finite S" using S finite_subset by auto
    have "(\<Sum>j\<in>S. v_proposer_priority (?ws ! j)) =
        (\<Sum>j\<in>S. v_proposer_priority (vs ! j) + v_voting_power (vs ! j) - (if j = i then total_power vs else 0))"
      using S by (intro sum.cong) (auto simp: nth_list_update)
    also have "\<dots> = (\<Sum>j\<in>S. v_proposer_priority (vs ! j)) + (\<Sum>j\<in>S. v_voting_power (vs ! j)) - total_power vs"
      using True fin by (simp add: sum.distrib sum_subtractf)
    finally have "(\<Sum>j\<in>S. v_proposer_priority (?ws ! j)) \<le> (\<Sum>j\<in>S. v_proposer_priority (vs ! j))"
      using power_of_subset [OF assms(1) S] by linarith
    then have "fact (length vs) * (\<Sum>j\<in>S. v_proposer_priority (?ws ! j)) \<le> fact (length vs) * (\<Sum>j\<in>S. v_proposer_priority (vs ! j))"
      by (rule mult_left_mono) simp
    also have "\<dots> \<le> int (card S) * total_power vs * harmonic_tail (length vs) (card S)"
      using assms(1) S by (simp add: balanced_def capped_def)
    finally show ?thesis .
  next
    case False
    have "(\<Sum>j\<in>S. v_proposer_priority (?ws ! j)) = (\<Sum>j\<in>S. v_proposer_priority (raised (vs ! j)))"
    proof (rule sum.cong)
      fix j
      assume "j \<in> S"
      then have "j \<noteq> i" "j < length vs" using S False by auto
      then show "v_proposer_priority (?ws ! j) = v_proposer_priority (raised (vs ! j))" by simp
    qed simp
    moreover have "v_proposer_priority (raised (vs ! j)) \<le> v_proposer_priority (raised (vs ! i))" if "j \<in> S" for j
      using assms(2) S that i by (auto simp: last_max_def)
    ultimately show ?thesis using unserved_capped [OF assms(1) S i False] by simp
  qed
  then show ?thesis unfolding capped_def T length_list_update length_map by blast
qed

lemma balanced_selected:
  assumes "balanced vs" and "last_max i (map v_proposer_priority (map raised vs))"
  shows "balanced ((map raised vs)[i := charged vs i])" (is "balanced ?ws")
proof -
  have i: "i < length vs" using assms(2) by (simp add: last_max_def)
  have T: "total_power ?ws = total_power vs"
    unfolding total_power_def selected_powers(2) [OF i, unfolded total_power_def] ..
  have "sum_list (map v_proposer_priority ?ws) = 0"
    using i sum_list_map_update [of i "map raised vs" v_proposer_priority "charged vs i"] sum_raised [of vs] assms(1)
    by (simp add: balanced_def del: map_map)
  moreover have "0 \<le> v_voting_power w \<and> - total_power vs < v_proposer_priority w" if "w \<in> set ?ws" for w
  proof -
    from that obtain j where j: "j < length vs" and w: "w = ?ws ! j" by (auto simp: in_set_conv_nth)
    have mem: "vs ! j \<in> set vs" using j by simp
    have "- total_power vs < v_proposer_priority (vs ! j)" and "0 \<le> v_voting_power (vs ! j)"
      using balanced_priority_bounds(1) [OF assms(1) mem] balanced_power_nonneg [OF assms(1) mem] .
    then show ?thesis using selected_positive [OF assms] i j by (auto simp: w nth_list_update)
  qed
  ultimately show ?thesis
    using assms(1) capped_selected [OF assms] unfolding balanced_def T length_list_update length_map by blast
qed

text \<open>
  The account of the selections \<open>as\<close> that lead from \<open>vs\<close> to \<open>ws\<close>: only priorities change, each
  validator gains its power once a selection and pays the total once it is selected.
\<close>

definition accounted :: "validator list \<Rightarrow> address list \<Rightarrow> validator list \<Rightarrow> bool" where
  "accounted vs as ws \<longleftrightarrow>
     map v_signer ws = map v_signer vs \<and> map v_voting_power ws = map v_voting_power vs \<and>
     set as \<subseteq> set (map v_signer vs) \<and>
     (\<forall>j<length vs. v_proposer_priority (ws ! j) =
        v_proposer_priority (vs ! j) + int (length as) * v_voting_power (vs ! j) -
        total_power vs * int (count_list as (v_signer (vs ! j))))"

lemma accounted_nil: "accounted vs [] vs"
  by (simp add: accounted_def)

lemma accounted_append:
  assumes "accounted vs as ws" and "accounted ws bs us"
  shows "accounted vs (as @ bs) us"
proof -
  have len: "length ws = length vs" using assms(1) by (metis accounted_def length_map)
  have T: "total_power ws = total_power vs" using assms(1) by (simp only: accounted_def total_power_def)
  have nth: "v_signer (ws ! j) = v_signer (vs ! j)" "v_voting_power (ws ! j) = v_voting_power (vs ! j)"
    if "j < length vs" for j
    using that len assms(1) unfolding accounted_def by (metis nth_map)+
  have "v_proposer_priority (us ! j) = v_proposer_priority (vs ! j) +
      int (length (as @ bs)) * v_voting_power (vs ! j) - total_power vs * int (count_list (as @ bs) (v_signer (vs ! j)))"
    if j: "j < length vs" for j
  proof -
    have "v_proposer_priority (ws ! j) = v_proposer_priority (vs ! j) +
        int (length as) * v_voting_power (vs ! j) - total_power vs * int (count_list as (v_signer (vs ! j)))"
      using assms(1) j by (simp add: accounted_def)
    moreover have "v_proposer_priority (us ! j) = v_proposer_priority (ws ! j) +
        int (length bs) * v_voting_power (vs ! j) - total_power vs * int (count_list bs (v_signer (vs ! j)))"
      using assms(2) j len nth [OF j] by (simp add: accounted_def T)
    ultimately show ?thesis by (simp add: algebra_simps)
  qed
  then show ?thesis using assms by (simp add: accounted_def)
qed

lemma select_proposer_step:
  assumes "balanced (vs_validators vset)" and "distinct (map v_signer (vs_validators vset))"
  shows "\<exists>vset' a. select_proposer oc vset = Inr (vset', a) \<and> balanced (vs_validators vset') \<and>
     accounted (vs_validators vset) [a] (vs_validators vset')"
proof -
  let ?vs = "vs_validators vset"
  obtain i where lm: "last_max i (map v_proposer_priority (map raised ?vs))"
    and sel: "select_proposer oc vset = Inr (\<lparr>vs_validators = (map raised ?vs)[i := charged ?vs i],
        vs_proposer = Some (charged ?vs i)\<rparr>, v_signer (?vs ! i))"
    using select_proposer_balanced [OF assms(1)] by metis
  have i: "i < length ?vs" using lm by (simp add: last_max_def)
  have "v_signer (?vs ! i) = v_signer (?vs ! j) \<longleftrightarrow> j = i" if "j < length ?vs" for j
    using assms(2) i that by (auto simp: distinct_conv_nth)
  then have "accounted ?vs [v_signer (?vs ! i)] ((map raised ?vs)[i := charged ?vs i])"
    using i selected_powers [OF i] by (simp add: accounted_def nth_list_update)
  then show ?thesis using sel balanced_selected [OF assms(1) lm] by simp
qed

lemma proposer_run_accounted:
  assumes "balanced (vs_validators vset)" and "distinct (map v_signer (vs_validators vset))"
  shows "\<exists>vset' as. proposer_run oc k vset = Inr (vset', as) \<and> length as = k \<and>
     balanced (vs_validators vset') \<and> accounted (vs_validators vset) as (vs_validators vset')"
  using assms
proof (induction k arbitrary: vset)
  case 0
  then show ?case by (simp add: accounted_nil)
next
  case (Suc k)
  obtain v1 a where sel: "select_proposer oc vset = Inr (v1, a)" "balanced (vs_validators v1)"
      "accounted (vs_validators vset) [a] (vs_validators v1)"
    using select_proposer_step [OF Suc.prems, of oc] by blast
  then have "distinct (map v_signer (vs_validators v1))" using Suc.prems(2) by (simp add: accounted_def)
  from Suc.IH [OF sel(2) this] obtain v2 as where "proposer_run oc k v1 = Inr (v2, as)" "length as = k"
      "balanced (vs_validators v2)" "accounted (vs_validators v1) as (vs_validators v2)" by blast
  then show ?case using sel accounted_append [OF sel(3), of as "vs_validators v2"] by simp
qed

lemma proposer_run_balanced:
  assumes "balanced (vs_validators vset)" and "distinct (map v_signer (vs_validators vset))"
  shows "\<exists>vset' as. proposer_run oc k vset = Inr (vset', as) \<and> length as = k \<and>
     balanced (vs_validators vset') \<and>
     map v_signer (vs_validators vset') = map v_signer (vs_validators vset) \<and>
     map v_voting_power (vs_validators vset') = map v_voting_power (vs_validators vset) \<and>
     set as \<subseteq> set (map v_signer (vs_validators vset)) \<and>
     (\<forall>j<length (vs_validators vset).
        v_proposer_priority (vs_validators vset' ! j) =
          v_proposer_priority (vs_validators vset ! j) + int k * v_voting_power (vs_validators vset ! j) -
          total_power (vs_validators vset) * int (count_list as (v_signer (vs_validators vset ! j))))"
  using proposer_run_accounted [OF assms, of oc k] unfolding accounted_def by blast

lemma balanced_initial:
  assumes "\<And>v. v \<in> set vs \<Longrightarrow> 0 \<le> v_voting_power v \<and> v_proposer_priority v = 0"
    and "0 < total_power vs" and "total_power vs * harmonic_tail (length vs) 0 < 2 ^ 63 * fact (length vs)"
  shows "balanced vs"
proof -
  have "map v_proposer_priority vs = map (\<lambda>v. 0) vs"
    using assms(1) by simp
  then have "sum_list (map v_proposer_priority vs) = sum_list (map (\<lambda>v. 0) vs)"
    by (rule arg_cong)
  moreover have "(\<Sum>j\<in>S. v_proposer_priority (vs ! j)) = 0" if "S \<subseteq> {..<length vs}" for S
    using assms(1) that by (intro sum.neutral) (auto simp: subset_iff)
  then have "capped vs" using assms(2) by (simp add: capped_def)
  ultimately show ?thesis using assms by (simp add: balanced_def)
qed

text \<open>A selection changes priorities only, and reads the validators only.\<close>

abbreviation at_rest :: "validator \<Rightarrow> validator" where
  "at_rest v \<equiv> v\<lparr>v_proposer_priority := 0\<rparr>"

lemma increments_keep:
  "collectR (map (increment_priority oc) vs) = Inr ws \<Longrightarrow> map at_rest ws = map at_rest vs"
  by (induction vs arbitrary: ws) (auto simp: bindR_eq_Inr increment_priority_def)

lemma select_proposer_keeps:
  assumes "select_proposer oc vset = Inr (vset', a)"
  shows "map at_rest (vs_validators vset') = map at_rest (vs_validators vset)"
proof -
  obtain ws i p where ws: "collectR (map (increment_priority oc) (vs_validators vset)) = Inr ws"
      and vset': "vs_validators vset' = ws[i := (ws ! i)\<lparr>v_proposer_priority := p\<rparr>]"
    using assms by (auto simp: select_proposer_def bindR_eq_Inr Let_def split: option.splits)
  have "map at_rest (vs_validators vset') = map at_rest ws"
    unfolding vset' by (cases "i < length ws") (simp_all add: map_update list_update_same_conv list_update_beyond not_less)
  with increments_keep [OF ws] show ?thesis by simp
qed

lemma proposer_run_keeps:
  "proposer_run oc k vset = Inr (vset', as) \<Longrightarrow> map at_rest (vs_validators vset') = map at_rest (vs_validators vset)"
proof (induction k arbitrary: vset as)
  case (Suc k)
  then show ?case using select_proposer_keeps by (fastforce simp: bindR_eq_Inr split: prod.splits)
qed simp

lemma select_proposer_cong:
  "vs_validators v = vs_validators w \<Longrightarrow> select_proposer oc v = select_proposer oc w"
  by (simp add: select_proposer_def)

lemma proposer_run_cong:
  assumes "vs_validators v = vs_validators w"
  shows "map_sum id snd (proposer_run oc k v) = map_sum id snd (proposer_run oc k w)"
  using select_proposer_cong [OF assms, of oc] by (cases k) simp_all

lemma proposer_run_add:
  "proposer_run oc (j + k) vset =
     bindR (proposer_run oc j vset) (\<lambda>(v, as). bindR (proposer_run oc k v) (\<lambda>(w, bs). Inr (w, as @ bs)))"
  by (induction j arbitrary: vset) (auto simp: bindR_assoc bindR_def split: sum.splits prod.splits)

lemma multiple_above: "0 < (t :: int) \<Longrightarrow> t dvd x \<Longrightarrow> - t < x \<Longrightarrow> 0 \<le> x"
proof (elim dvdE)
  fix q assume "0 < t" and "- t < x" and x: "x = t * q"
  then have "t * - 1 < t * q" by simp
  with \<open>0 < t\<close> have "- 1 < q" by (simp only: mult_less_cancel_left_pos)
  with \<open>0 < t\<close> show "0 \<le> x" by (simp add: x)
qed

text \<open>Priorities that are multiples of the total are all zero.\<close>

lemma balanced_multiples:
  assumes "balanced vs" and "\<And>v. v \<in> set vs \<Longrightarrow> total_power vs dvd v_proposer_priority v" and "v \<in> set vs"
  shows "v_proposer_priority v = 0"
proof -
  have "0 < total_power vs" and sum: "sum_list (map v_proposer_priority vs) = 0"
    using assms(1) by (simp_all add: balanced_def)
  then have "0 \<le> x" if "x \<in> set (map v_proposer_priority vs)" for x
    using that balanced_priority_bounds(1) [OF assms(1)] assms(2) by (auto intro: multiple_above)
  then have "\<forall>x\<in>set (map v_proposer_priority vs). x = 0"
    using sum sum_list_nonneg_eq_0_iff [of "map v_proposer_priority vs"] by blast
  with assms(3) show ?thesis by simp
qed

section \<open>Properties\<close>

text \<open>
  C8. The priorities never overflow: from a validator set with zero priorities, non-negative
  powers and a positive total \<open>T\<close> with \<open>T * H\<close> within an \<open>i64\<close>, \<open>H\<close> the \<open>n\<close>-th harmonic number,
  any number of selections returns, with or without overflow checks; each selects a member, the
  validators and their powers are kept, the priorities always sum to zero and stay strictly
  above \<open>-T\<close> and at most \<open>T * (H - 1)\<close>.
\<close>

theorem proposer_run_never_overflows:
  assumes "\<And>v. v \<in> set (vs_validators vset) \<Longrightarrow> 0 \<le> v_voting_power v \<and> v_proposer_priority v = 0"
    and "0 < total_power (vs_validators vset)"
    and "total_power (vs_validators vset) * harmonic_tail (length (vs_validators vset)) 0 <
      2 ^ 63 * fact (length (vs_validators vset))"
    and "distinct (map v_signer (vs_validators vset))"
  shows "\<exists>vset' as. proposer_run oc k vset = Inr (vset', as) \<and> length as = k \<and>
     set as \<subseteq> set (map v_signer (vs_validators vset)) \<and>
     map v_signer (vs_validators vset') = map v_signer (vs_validators vset) \<and>
     map v_voting_power (vs_validators vset') = map v_voting_power (vs_validators vset) \<and>
     sum_list (map v_proposer_priority (vs_validators vset')) = 0 \<and>
     (\<forall>v\<in>set (vs_validators vset'). - total_power (vs_validators vset) < v_proposer_priority v \<and>
        fact (length (vs_validators vset)) * v_proposer_priority v \<le>
          total_power (vs_validators vset) * harmonic_tail (length (vs_validators vset)) 1)"
proof -
  have "balanced (vs_validators vset)" by (rule balanced_initial [OF assms(1-3)])
  then obtain v as where run: "proposer_run oc k vset = Inr (v, as)" "length as = k"
      and b: "balanced (vs_validators v)"
      and s: "map v_signer (vs_validators v) = map v_signer (vs_validators vset)"
      and p: "map v_voting_power (vs_validators v) = map v_voting_power (vs_validators vset)"
      and as: "set as \<subseteq> set (map v_signer (vs_validators vset))"
    using proposer_run_balanced [OF _ assms(4), of oc k] by blast
  have T: "total_power (vs_validators v) = total_power (vs_validators vset)"
    by (simp only: total_power_def p)
  have len: "length (vs_validators v) = length (vs_validators vset)" using s by (metis length_map)
  have "\<forall>w\<in>set (vs_validators v). - total_power (vs_validators vset) < v_proposer_priority w \<and>
      fact (length (vs_validators vset)) * v_proposer_priority w \<le>
        total_power (vs_validators vset) * harmonic_tail (length (vs_validators vset)) 1"
    using balanced_priority_bounds [OF b] unfolding T len by blast
  moreover have "sum_list (map v_proposer_priority (vs_validators v)) = 0" using b by (simp add: balanced_def)
  ultimately show ?thesis using run s p as by blast
qed

text \<open>From rest, a validator is less than a selection ahead of its share, and behind it by the harmonic bound.\<close>

lemma accounted_share:
  assumes "balanced ws" and "accounted vs as ws" and "v \<in> set vs" and "v_proposer_priority v = 0"
  shows "total_power vs * int (count_list as (v_signer v)) < int (length as) * v_voting_power v + total_power vs"
    and "fact (length vs) * (int (length as) * v_voting_power v) \<le>
      fact (length vs) * (total_power vs * int (count_list as (v_signer v))) + total_power vs * harmonic_tail (length vs) 1"
proof -
  obtain j where j: "j < length vs" "v = vs ! j" using assms(3) by (auto simp: in_set_conv_nth)
  have T: "total_power ws = total_power vs" using assms(2) by (simp only: accounted_def total_power_def)
  have len: "length ws = length vs" using assms(2) by (metis accounted_def length_map)
  then have "ws ! j \<in> set ws" using j(1) by simp
  note bnd = balanced_priority_bounds [OF assms(1) this]
  have pr: "v_proposer_priority (ws ! j) =
      int (length as) * v_voting_power v - total_power vs * int (count_list as (v_signer v))"
    using assms(2,4) j by (simp add: accounted_def)
  show "total_power vs * int (count_list as (v_signer v)) < int (length as) * v_voting_power v + total_power vs"
    using bnd(1) unfolding pr T by linarith
  show "fact (length vs) * (int (length as) * v_voting_power v) \<le>
      fact (length vs) * (total_power vs * int (count_list as (v_signer v))) + total_power vs * harmonic_tail (length vs) 1"
    using bnd(2) unfolding pr T len right_diff_distrib by linarith
qed

lemma accounted_powerless:
  assumes "balanced ws" and "accounted vs as ws" and "v \<in> set vs" and "v_proposer_priority v = 0" and "v_voting_power v = 0"
  shows "v_signer v \<notin> set as"
proof -
  have "0 < total_power ws" using assms(1) by (simp add: balanced_def)
  then have "0 < total_power vs" using assms(2) by (metis accounted_def total_power_def)
  moreover have "total_power vs * int (count_list as (v_signer v)) < total_power vs * 1"
    using accounted_share(1) [OF assms(1-4)] assms(5) by simp
  ultimately have "int (count_list as (v_signer v)) < 1" by (simp only: mult_less_cancel_left_pos)
  then show ?thesis by (simp add: count_list_0_iff)
qed

text \<open>
  C9. Fairness: after \<open>k\<close> selections from zero priorities, a validator of power \<open>w\<close> among \<open>n\<close>
  with total \<open>T\<close> has been selected \<open>c\<close> times with \<open>T * c < k * w + T\<close> and
  \<open>k * w \<le> T * c + T * (H - 1)\<close>: it is less than one selection ahead of its exact share
  \<open>k * w / T\<close>, and behind it by at most \<open>H - 1 = 1 / 2 + ... + 1 / n\<close>, which grows like the
  logarithm of the number of validators; with no power it is never selected.
\<close>

theorem proposer_fairness:
  assumes "\<And>v. v \<in> set (vs_validators vset) \<Longrightarrow> 0 \<le> v_voting_power v \<and> v_proposer_priority v = 0"
    and "0 < total_power (vs_validators vset)"
    and "total_power (vs_validators vset) * harmonic_tail (length (vs_validators vset)) 0 <
      2 ^ 63 * fact (length (vs_validators vset))"
    and "distinct (map v_signer (vs_validators vset))"
    and "v \<in> set (vs_validators vset)"
    and "proposer_run oc k vset = Inr (vset', as)"
  shows "total_power (vs_validators vset) * int (count_list as (v_signer v)) <
       int k * v_voting_power v + total_power (vs_validators vset) \<and>
     fact (length (vs_validators vset)) * (int k * v_voting_power v) \<le>
       fact (length (vs_validators vset)) * (total_power (vs_validators vset) * int (count_list as (v_signer v))) +
       total_power (vs_validators vset) * harmonic_tail (length (vs_validators vset)) 1 \<and>
     (v_voting_power v = 0 \<longrightarrow> v_signer v \<notin> set as)"
proof -
  have "balanced (vs_validators vset)" by (rule balanced_initial [OF assms(1-3)])
  then have b: "balanced (vs_validators vset')" and acc: "accounted (vs_validators vset) as (vs_validators vset')"
      and k: "length as = k"
    using proposer_run_accounted [OF _ assms(4), of oc k] assms(6) by auto
  have rest: "v_proposer_priority v = 0" using assms(1,5) by blast
  show ?thesis
    using accounted_share [OF b acc assms(5) rest, unfolded k] accounted_powerless [OF b acc assms(5) rest] by blast
qed

text \<open>Where the powers divide, the selections of one cycle leave every validator as it was.\<close>

lemma cycle_restores:
  assumes "\<And>v. v \<in> set vs \<Longrightarrow> v_proposer_priority v = 0" and "balanced ws" and "accounted vs as ws"
    and "map at_rest ws = map at_rest vs"
    and "\<And>v. v \<in> set vs \<Longrightarrow> total_power vs dvd int (length as) * v_voting_power v"
  shows "ws = vs" and "v \<in> set vs \<Longrightarrow> total_power vs * int (count_list as (v_signer v)) = int (length as) * v_voting_power v"
proof -
  have len: "length ws = length vs" using assms(3) by (metis accounted_def length_map)
  have T: "total_power ws = total_power vs" using assms(3) by (simp only: accounted_def total_power_def)
  have pr: "v_proposer_priority (ws ! j) =
      int (length as) * v_voting_power (vs ! j) - total_power vs * int (count_list as (v_signer (vs ! j)))"
    if "j < length vs" for j using assms(1,3) that by (simp add: accounted_def)
  have "total_power vs dvd v_proposer_priority w" if w: "w \<in> set ws" for w
  proof -
    obtain j where "j < length vs" "w = ws ! j" using w len by (auto simp: in_set_conv_nth)
    with pr assms(5) [of "vs ! j"] show ?thesis by simp
  qed
  then have zero: "v_proposer_priority w = 0" if "w \<in> set ws" for w
    using balanced_multiples [OF assms(2) _ that] by (simp add: T)
  have "ws = map at_rest ws" by (rule sym, rule map_idI) (use zero in simp)
  also have "\<dots> = vs" unfolding assms(4) by (rule map_idI) (use assms(1) in simp)
  finally show same: "ws = vs" .
  assume "v \<in> set vs"
  then obtain j where j: "j < length vs" "v = vs ! j" by (auto simp: in_set_conv_nth)
  then show "total_power vs * int (count_list as (v_signer v)) = int (length as) * v_voting_power v"
    using pr [OF j(1)] zero [of "ws ! j"] len by simp
qed

text \<open>
  C10. The schedule is exactly proportional and repeats: where the total power divides \<open>k * w\<close> for
  every power \<open>w\<close>, \<open>k\<close> selections from zero priorities pick each validator exactly \<open>k * w / T\<close>
  times and leave every validator as it was, and whatever number of selections comes after, their
  result is that of a start from the beginning.
\<close>

theorem proposer_cycle:
  assumes "\<And>v. v \<in> set (vs_validators vset) \<Longrightarrow> 0 \<le> v_voting_power v \<and> v_proposer_priority v = 0"
    and "0 < total_power (vs_validators vset)"
    and "total_power (vs_validators vset) * harmonic_tail (length (vs_validators vset)) 0 <
      2 ^ 63 * fact (length (vs_validators vset))"
    and "distinct (map v_signer (vs_validators vset))"
    and "\<And>v. v \<in> set (vs_validators vset) \<Longrightarrow> total_power (vs_validators vset) dvd int k * v_voting_power v"
  shows "\<exists>vset' as. proposer_run oc k vset = Inr (vset', as) \<and>
     vs_validators vset' = vs_validators vset \<and>
     (\<forall>v\<in>set (vs_validators vset).
        total_power (vs_validators vset) * int (count_list as (v_signer v)) = int k * v_voting_power v) \<and>
     (\<forall>m. map_sum id snd (proposer_run oc (k + m) vset) = map_sum id (\<lambda>(_, bs). as @ bs) (proposer_run oc m vset))"
proof -
  have "balanced (vs_validators vset)" by (rule balanced_initial [OF assms(1-3)])
  then obtain vset' as where run: "proposer_run oc k vset = Inr (vset', as)" "length as = k"
      "balanced (vs_validators vset')" "accounted (vs_validators vset) as (vs_validators vset')"
    using proposer_run_accounted [OF _ assms(4), of oc k] by blast
  note cycle = cycle_restores [OF _ run(3,4) proposer_run_keeps [OF run(1)], unfolded run(2), OF _ assms(5)]
  have same: "vs_validators vset' = vs_validators vset" by (rule cycle(1)) (use assms(1) in blast)+
  have "map_sum id snd (proposer_run oc (k + m) vset) = map_sum id (\<lambda>(_, bs). as @ bs) (proposer_run oc m vset)" for m
    using proposer_run_cong [OF same, of oc m]
    by (cases "proposer_run oc m vset"; cases "proposer_run oc m vset'") (auto simp: proposer_run_add run)
  with run(1) same cycle(2) assms(1) show ?thesis by blast
qed

text \<open>
  Each selection takes a validator of maximal raised priority, and among equal ones the
  last in list order; an empty set panics with the message of the \<open>expect\<close>.
\<close>

theorem select_proposer_maximal:
  assumes "balanced (vs_validators vset)"
  shows "(\<exists>i<length (vs_validators vset). \<exists>vset'.
       select_proposer oc vset = Inr (vset', v_signer (vs_validators vset ! i)) \<and>
       last_max i (map (\<lambda>v. v_proposer_priority v + v_voting_power v) (vs_validators vset))) \<and>
     select_proposer oc (vset\<lparr>vs_validators := []\<rparr>) =
       Inl (ExpectFailed ''validator set must not be empty'')"
proof
  obtain i where lm: "last_max i (map v_proposer_priority (map raised (vs_validators vset)))"
    and sel: "\<exists>vset'. select_proposer oc vset = Inr (vset', v_signer (vs_validators vset ! i))"
    using select_proposer_balanced [OF assms, of oc] by blast
  have "last_max i (map (\<lambda>v. v_proposer_priority v + v_voting_power v) (vs_validators vset))"
    using lm by (simp add: comp_def)
  moreover have "i < length (vs_validators vset)" using lm by (simp add: last_max_def)
  ultimately show "\<exists>i<length (vs_validators vset). \<exists>vset'.
       select_proposer oc vset = Inr (vset', v_signer (vs_validators vset ! i)) \<and>
       last_max i (map (\<lambda>v. v_proposer_priority v + v_voting_power v) (vs_validators vset))"
    using sel by blast
qed (simp add: select_proposer_def max_by_key_index_def)

section \<open>Witnesses\<close>

definition two_validators :: validator_set where
  "two_validators = \<lparr>vs_validators =
     [\<lparr>v_id = 1, v_address = 1, v_voting_power = 300, v_signer = 1, v_proposer_priority = 0\<rparr>,
      \<lparr>v_id = 2, v_address = 2, v_voting_power = 100, v_signer = 2, v_proposer_priority = 0\<rparr>],
     vs_proposer = None\<rparr>"

lemma two_validators_facts:
  "v \<in> set (vs_validators two_validators) \<Longrightarrow> 0 \<le> v_voting_power v \<and> v_proposer_priority v = 0"
  "total_power (vs_validators two_validators) = 400"
  "length (vs_validators two_validators) = 2"
  "map v_signer (vs_validators two_validators) = [1, 2]"
  "harmonic_tail 2 0 = 3" "harmonic_tail 2 1 = 1"
  by (auto simp: harmonic_tail_def atLeastSucAtMost_greaterThanAtMost [symmetric] numeral_2_eq_2 atLeastAtMostSuc_conv simp: two_validators_def total_power_def)

theorem proposer_run_never_overflows_witness:
  "\<exists>vset' as. proposer_run True 1000 two_validators = Inr (vset', as) \<and> length as = 1000 \<and>
     sum_list (map v_proposer_priority (vs_validators vset')) = 0 \<and>
     list_all (\<lambda>v. - 400 < v_proposer_priority v \<and> v_proposer_priority v \<le> 200) (vs_validators vset')"
proof -
  obtain vset' as where "proposer_run True 1000 two_validators = Inr (vset', as)" "length as = 1000"
      "sum_list (map v_proposer_priority (vs_validators vset')) = 0"
      "\<forall>v\<in>set (vs_validators vset'). - 400 < v_proposer_priority v \<and> 2 * v_proposer_priority v \<le> 400"
    using proposer_run_never_overflows [of two_validators True 1000, OF two_validators_facts(1)]
    by (simp only: two_validators_facts fact_2) (simp, blast)
  then show ?thesis by (intro exI conjI) (auto simp: list_all_iff)
qed

lemma two_validators_run:
  "\<exists>vset'. proposer_run True 4 two_validators = Inr (vset', [1, 2, 1, 1])"
  by (simp add: numeral_eq_Suc select_proposer_def two_validators_def increment_priority_def
      max_by_key_index_def i64_range_def Let_def)

theorem proposer_fairness_witness:
  "(\<exists>vset'. proposer_run True 4 two_validators = Inr (vset', [1, 2, 1, 1])) \<and>
   400 * int (count_list [1, 2, 1, 1] (1 :: address)) < 4 * 300 + 400 \<and>
   2 * (4 * 300) \<le> 2 * (400 * int (count_list [1, 2, 1, 1] (1 :: address))) + 400 * harmonic_tail 2 1"
proof -
  obtain vset' where run: "proposer_run True 4 two_validators = Inr (vset', [1, 2, 1, 1])"
    using two_validators_run by blast
  have "(vs_validators two_validators) ! 0 \<in> set (vs_validators two_validators)"
    by (simp add: two_validators_def)
  note f = proposer_fairness [OF two_validators_facts(1) _ _ _ this run]
  have "400 * int (count_list [1, 2, 1, 1] (1 :: address)) < 4 * 300 + 400 \<and>
      2 * (4 * 300) \<le> 2 * (400 * int (count_list [1, 2, 1, 1] (1 :: address))) + 400 * harmonic_tail 2 1"
    using f by (simp add: two_validators_facts two_validators_def total_power_def numeral_2_eq_2)
  with run show ?thesis by blast
qed

text \<open>Powers 300 and 100: a cycle of four.\<close>

theorem proposer_cycle_witness:
  "(\<exists>vset'. proposer_run True 4 two_validators = Inr (vset', [1, 2, 1, 1]) \<and>
      vs_validators vset' = vs_validators two_validators) \<and>
   map_sum id snd (proposer_run True (4 + 4) two_validators) = Inr [1, 2, 1, 1, 1, 2, 1, 1]"
proof -
  have dvd: "total_power (vs_validators two_validators) dvd int 4 * v_voting_power v"
    if "v \<in> set (vs_validators two_validators)" for v
    using that by (auto simp: two_validators_def total_power_def)
  obtain w where w: "proposer_run True 4 two_validators = Inr (w, [1, 2, 1, 1])" using two_validators_run by blast
  have same: "vs_validators w = vs_validators two_validators"
    and again: "map_sum id snd (proposer_run True (4 + m) two_validators) =
      map_sum id (\<lambda>(_, bs). [1, 2, 1, 1] @ bs) (proposer_run True m two_validators)" for m
    using proposer_cycle [OF two_validators_facts(1) _ _ _ dvd, of True] w by (auto simp: two_validators_facts simp del: append.simps)
  have "map_sum id snd (proposer_run True (4 + 4) two_validators) = Inr [1, 2, 1, 1, 1, 2, 1, 1]"
    unfolding again w by simp
  with w same show ?thesis by blast
qed

theorem select_proposer_maximal_witness:
  "(\<exists>i<2. \<exists>vset'. select_proposer True two_validators = Inr (vset', v_signer (vs_validators two_validators ! i)) \<and>
       last_max i [300, 100])"
proof -
  have "balanced (vs_validators two_validators)"
    by (rule balanced_initial) (auto simp: two_validators_facts)
  from select_proposer_maximal [OF this, of True] show ?thesis
    by (simp add: two_validators_facts(3)) (simp add: two_validators_def)
qed

end
