(* ===== verification/Tests_Consensus.thy ===== *)
theory Tests_Consensus
  imports Tests_Chainspec Consensus_Proposer
begin

text \<open>
  The unit tests of \<open>bor-consensus\<close>, each as the predicate that its assertions state of the model.
  A test that signs with a key takes the signature as an argument: its premise is that the
  seal recovers to the address of that key. Where an assertion is about Keccak or secp256k1
  only, it is left out.
\<close>

section \<open>difficulty.rs\<close>

text \<open>\<open>B256::from([b; 32])\<close>\<close>

definition b256_of_byte :: "u8 \<Rightarrow> b256" where
  "b256_of_byte b = word_of_nat (be_value (replicate 32 b))"

definition make_validators :: "nat \<Rightarrow> address list" where
  "make_validators count = map (\<lambda>i. address_of_byte (word_of_nat (i + 1))) [0..<count]"

definition test_diff_inturn :: bool where
  "test_diff_inturn \<longleftrightarrow> diff_inturn 5 = 5 \<and> diff_inturn 1 = 1 \<and> diff_inturn 100 = 100"

definition test_diff_noturn :: bool where
  "test_diff_noturn \<longleftrightarrow> diff_noturn 5 1 = 4 \<and> diff_noturn 5 4 = 1"

definition test_diff_minimum :: bool where
  "test_diff_minimum \<longleftrightarrow> diff_noturn 5 5 = 1 \<and> diff_noturn 5 10 = 1 \<and> diff_noturn 1 1 = 1"

definition test_is_inturn :: bool where
  "test_is_inturn \<longleftrightarrow>
     (let validators = make_validators 3 in
      is_inturn (validators ! 0) validators 0 \<and> \<not> is_inturn (validators ! 1) validators 0 \<and>
      is_inturn (validators ! 1) validators 1 \<and> is_inturn (validators ! 2) validators 2 \<and>
      is_inturn (validators ! 0) validators 3)"

definition test_calculate_difficulty_inturn :: bool where
  "test_calculate_difficulty_inturn \<longleftrightarrow>
     (let validators = make_validators 5 in calculate_difficulty (validators ! 0) validators 0 = 5)"

definition test_calculate_difficulty_noturn :: bool where
  "test_calculate_difficulty_noturn \<longleftrightarrow>
     (let validators = make_validators 5 in
      calculate_difficulty (validators ! 1) validators 0 = 4 \<and>
      calculate_difficulty (validators ! 4) validators 0 = 1)"

definition test_diff_at_span_boundary :: bool where
  "test_diff_at_span_boundary \<longleftrightarrow>
     (let small_set = make_validators 3; large_set = make_validators 10 in
      calculate_difficulty (small_set ! 1) small_set 6400 = 3 \<and>
      calculate_difficulty (large_set ! 0) large_set 6400 = 10)"

definition test_signer_not_in_set :: bool where
  "test_signer_not_in_set \<longleftrightarrow> calculate_difficulty (address_of_byte 0xff) (make_validators 3) 0 = 1"

definition test_empty_validators :: bool where
  "test_empty_validators \<longleftrightarrow> calculate_difficulty 0 [] 0 = 1 \<and> \<not> is_inturn 0 [] 0"

definition test_circular_distance :: bool where
  "test_circular_distance \<longleftrightarrow>
     (let validators = make_validators 5 in calculate_difficulty (validators ! 1) validators 3 = 2)"

section \<open>recents.rs\<close>

definition test_recent_window_size :: bool where
  "test_recent_window_size \<longleftrightarrow>
     (let recents = recents_add_signer recents_new 5 0 in
      is_recently_signed recents 0 11 10 = Inr True \<and> is_recently_signed recents 0 12 10 = Inr False)"

definition test_reject_recent_signer :: bool where
  "test_reject_recent_signer \<longleftrightarrow> is_recently_signed (recents_add_signer recents_new 10 1) 1 13 10 = Inr True"

definition test_allow_after_window :: bool where
  "test_allow_after_window \<longleftrightarrow> is_recently_signed (recents_add_signer recents_new 5 2) 2 20 10 = Inr False"

section \<open>snapshot.rs\<close>

definition snapshot_test_validator :: "u64 \<Rightarrow> address \<Rightarrow> validator" where
  "snapshot_test_validator i a =
     \<lparr>v_id = i, v_address = a, v_voting_power = 100, v_signer = a, v_proposer_priority = 0\<rparr>"

definition snapshot_test_validator_set :: validator_set where
  "snapshot_test_validator_set =
     \<lparr>vs_validators = [snapshot_test_validator 1 1, snapshot_test_validator 2 2, snapshot_test_validator 3 3],
      vs_proposer = None\<rparr>"

definition test_snapshot_create :: bool where
  "test_snapshot_create \<longleftrightarrow>
     (let snap = snapshot_new 100 0 snapshot_test_validator_set in
      sn_number snap = 100 \<and> sn_recents snap = [] \<and> length (vs_validators (sn_validator_set snap)) = 3)"

definition test_snapshot_apply :: bool where
  "test_snapshot_apply \<longleftrightarrow>
     (let snap = snapshot_apply (snapshot_new 100 0 snapshot_test_validator_set) 101 1 in
      sn_number snap = 101 \<and> bt_get (sn_recents snap) 101 = Some 1)"

definition test_snapshot_is_authorized :: bool where
  "test_snapshot_is_authorized \<longleftrightarrow>
     (let snap = snapshot_new 100 0 snapshot_test_validator_set in
      snapshot_is_authorized snap 1 \<and> \<not> snapshot_is_authorized snap 0x99)"

text \<open>The JSON codec is given by its two functions.\<close>

definition test_snapshot_encode_decode_roundtrip ::
    "(bor_snapshot \<Rightarrow> string + bytes) \<Rightarrow> (bytes \<Rightarrow> string + bor_snapshot) \<Rightarrow> bool" where
  "test_snapshot_encode_decode_roundtrip to_vec from_slice \<longleftrightarrow>
     (let snap = snapshot_apply (snapshot_new 100 0 snapshot_test_validator_set) 101 1 in
      returns_and (snapshot_encode to_vec snap) (\<lambda>encoded.
        case snapshot_decode from_slice encoded of
          Inl _ \<Rightarrow> False
        | Inr decoded \<Rightarrow>
            sn_number decoded = sn_number snap \<and> length (vs_validators (sn_validator_set decoded)) = 3 \<and>
            length (sn_recents decoded) = length (sn_recents snap)))"

section \<open>proposer.rs\<close>

definition make_validator :: "u64 \<Rightarrow> u8 \<Rightarrow> int \<Rightarrow> validator" where
  "make_validator i addr_byte voting_power =
     \<lparr>v_id = i, v_address = address_of_byte addr_byte, v_voting_power = voting_power,
      v_signer = address_of_byte addr_byte, v_proposer_priority = 0\<rparr>"

definition make_validator_set :: "validator list \<Rightarrow> validator_set" where
  "make_validator_set validators = \<lparr>vs_validators = validators, vs_proposer = None\<rparr>"

definition test_proposer_single_validator :: bool where
  "test_proposer_single_validator \<longleftrightarrow>
     returns_and (proposer_run True 2 (make_validator_set [make_validator 1 0xaa 100]))
       (\<lambda>(vs, selected). selected = [address_of_byte 0xaa, address_of_byte 0xaa])"

definition test_proposer_equal_power :: bool where
  "test_proposer_equal_power \<longleftrightarrow>
     returns_and (proposer_run True 3 (make_validator_set
         [make_validator 1 0xaa 100, make_validator 2 0xbb 100, make_validator 3 0xcc 100]))
       (\<lambda>(vs, selected). address_of_byte 0xaa \<in> set selected \<and> address_of_byte 0xbb \<in> set selected \<and>
          address_of_byte 0xcc \<in> set selected)"

definition test_proposer_weighted :: bool where
  "test_proposer_weighted \<longleftrightarrow>
     returns_and (proposer_run True 400 (make_validator_set [make_validator 1 0xaa 300, make_validator 2 0xbb 100]))
       (\<lambda>(vs, selected). length (filter (\<lambda>a. a = address_of_byte 0xaa) selected) = 300 \<and>
          length (filter (\<lambda>a. a \<noteq> address_of_byte 0xaa) selected) = 100)"

definition test_proposer_deterministic :: bool where
  "test_proposer_deterministic \<longleftrightarrow>
     (let make_set = make_validator_set [make_validator 1 0xaa 200, make_validator 2 0xbb 100] in
      returns_and (proposer_run True 20 make_set) (\<lambda>(vs1, ps1).
        returns_and (proposer_run True 20 make_set) (\<lambda>(vs2, ps2). ps1 = ps2)))"

section \<open>validation.rs\<close>

definition make_extra_data_with_seal :: "bytes \<Rightarrow> bytes" where
  "make_extra_data_with_seal seal = replicate 32 0 @ seal"

text \<open>The header of the tests; each changes the fields it is about.\<close>

definition test_params :: header_validation_params where
  "test_params =
     \<lparr>hp_number = 100, hp_timestamp = 1000, hp_nonce = 0, hp_mix_hash = 0, hp_difficulty = 1,
      hp_extra_data = replicate 97 0, hp_gas_limit = 30000000, hp_seal_hash = 0, hp_has_ommers = False\<rparr>"

definition fails_with :: "validation_error failure + 'a \<Rightarrow> (validation_error \<Rightarrow> bool) \<Rightarrow> bool" where
  "fails_with r P \<longleftrightarrow> (case r of Inl (Err e) \<Rightarrow> P e | _ \<Rightarrow> False)"

definition test_reject_nonzero_nonce :: "'sig crypto \<Rightarrow> bool" where
  "test_reject_nonzero_nonce C \<longleftrightarrow>
     fails_with (validate_header True C (test_params\<lparr>hp_nonce := 1\<rparr>) [] [] 1000) (\<lambda>e. e = NonZeroNonce)"

definition test_reject_nonzero_mixhash :: "'sig crypto \<Rightarrow> bool" where
  "test_reject_nonzero_mixhash C \<longleftrightarrow>
     fails_with (validate_header True C (test_params\<lparr>hp_mix_hash := b256_of_byte 0xff\<rparr>) [] [] 1000)
       (\<lambda>e. e = NonZeroMixHash)"

definition test_reject_nonempty_ommers :: "'sig crypto \<Rightarrow> bool" where
  "test_reject_nonempty_ommers C \<longleftrightarrow>
     fails_with (validate_header True C (test_params\<lparr>hp_has_ommers := True\<rparr>) [] [] 1000) (\<lambda>e. e = NonEmptyOmmers)"

definition test_reject_future_block :: "'sig crypto \<Rightarrow> bool" where
  "test_reject_future_block C \<longleftrightarrow>
     fails_with (validate_header True C (test_params\<lparr>hp_timestamp := 2000\<rparr>) [] [] 1000)
       (\<lambda>e. case e of FutureBlock _ _ \<Rightarrow> True | _ \<Rightarrow> False)"

text \<open>The signature of a key over the seal hash: 65 bytes that recover to the key's address.\<close>

definition seals :: "'sig crypto \<Rightarrow> b256 \<Rightarrow> bytes \<Rightarrow> address \<Rightarrow> bool" where
  "seals C seal_hash seal signer \<longleftrightarrow> length seal = 65 \<and> ecrecover_seal C seal_hash seal = Inr signer"

definition test_reject_wrong_difficulty :: "'sig crypto \<Rightarrow> b256 \<Rightarrow> bytes \<Rightarrow> address \<Rightarrow> bool" where
  "test_reject_wrong_difficulty C seal_hash seal signer_addr \<longleftrightarrow>
     fails_with (validate_header True C (test_params\<lparr>hp_number := 0, hp_difficulty := 999,
         hp_extra_data := make_extra_data_with_seal seal, hp_seal_hash := seal_hash\<rparr>) [signer_addr] [] 1000)
       (\<lambda>e. case e of WrongDifficulty _ _ \<Rightarrow> True | _ \<Rightarrow> False)"

definition test_validate_known_header :: "'sig crypto \<Rightarrow> b256 \<Rightarrow> bytes \<Rightarrow> address \<Rightarrow> bool" where
  "test_validate_known_header C seal_hash seal signer_addr \<longleftrightarrow>
     validate_header True C (test_params\<lparr>hp_number := 0, hp_difficulty := 1,
         hp_extra_data := make_extra_data_with_seal seal, hp_seal_hash := seal_hash\<rparr>) [signer_addr] [] 1000 =
       Inr signer_addr"

definition test_validate_header_against_parent_ok :: bool where
  "test_validate_header_against_parent_ok \<longleftrightarrow>
     validate_header_against_parent (test_params\<lparr>hp_number := 101, hp_timestamp := 1002\<rparr>)
       \<lparr>pp_parent_timestamp = 1000\<rparr> = Inr ()"

definition test_validate_header_against_parent_reject_non_increasing :: bool where
  "test_validate_header_against_parent_reject_non_increasing \<longleftrightarrow>
     (case validate_header_against_parent (test_params\<lparr>hp_number := 101, hp_timestamp := 999\<rparr>)
        \<lparr>pp_parent_timestamp = 1000\<rparr> of
        Inl (TimestampNotIncreasing _ _) \<Rightarrow> True | _ \<Rightarrow> False)"

definition test_reject_unauthorized_signer :: "'sig crypto \<Rightarrow> b256 \<Rightarrow> bytes \<Rightarrow> bool" where
  "test_reject_unauthorized_signer C seal_hash seal \<longleftrightarrow>
     fails_with (validate_header True C (test_params\<lparr>hp_number := 0,
         hp_extra_data := make_extra_data_with_seal seal, hp_seal_hash := seal_hash\<rparr>) [address_of_byte 0xaa] [] 1000)
       (\<lambda>e. case e of UnauthorizedSigner _ \<Rightarrow> True | _ \<Rightarrow> False)"

section \<open>block\_validation.rs\<close>

definition make_extra_data_with_validators :: "address list \<Rightarrow> bytes" where
  "make_extra_data_with_validators validators =
     replicate EXTRADATA_VANITY_LEN 0 @ concat (map address_bytes validators) @ replicate EXTRADATA_SEAL_LEN 0"

definition make_minimal_extra_data :: bytes where
  "make_minimal_extra_data = replicate (EXTRADATA_VANITY_LEN + EXTRADATA_SEAL_LEN) 0"

definition block_test_reject_nonempty_ommers :: "(address \<Rightarrow> string) \<Rightarrow> bool" where
  "block_test_reject_nonempty_ommers sa \<longleftrightarrow>
     fails_with (validate_block_pre_execution sa 100 make_minimal_extra_data True False 6400 None)
       (\<lambda>e. e = NonEmptyOmmers)"

definition test_reject_nonempty_withdrawals :: "(address \<Rightarrow> string) \<Rightarrow> bool" where
  "test_reject_nonempty_withdrawals sa \<longleftrightarrow>
     fails_with (validate_block_pre_execution sa 100 make_minimal_extra_data False True 6400 None)
       (\<lambda>e. e = NonEmptyWithdrawals)"

definition test_validate_span_start_extradata :: "(address \<Rightarrow> string) \<Rightarrow> bool" where
  "test_validate_span_start_extradata sa \<longleftrightarrow>
     (let validators = [address_of_byte 0xaa, address_of_byte 0xbb];
          extra = make_extra_data_with_validators validators
      in validate_block_pre_execution sa 6400 extra False False 6400 (Some validators) = Inr ())"

definition test_reject_missing_validators_at_span_start :: "(address \<Rightarrow> string) \<Rightarrow> bool" where
  "test_reject_missing_validators_at_span_start sa \<longleftrightarrow>
     fails_with (validate_block_pre_execution sa 6400 make_minimal_extra_data False False 6400 None)
       (\<lambda>e. e = MissingValidatorsAtSpanStart 6400)"

definition test_normal_block_no_validators_required :: "(address \<Rightarrow> string) \<Rightarrow> bool" where
  "test_normal_block_no_validators_required sa \<longleftrightarrow>
     validate_block_pre_execution sa 100 make_minimal_extra_data False False 6400 None = Inr ()"

definition test_block_zero_not_span_start :: "(address \<Rightarrow> string) \<Rightarrow> bool" where
  "test_block_zero_not_span_start sa \<longleftrightarrow>
     validate_block_pre_execution sa 0 make_minimal_extra_data False False 6400 None = Inr ()"

definition test_state_root_matches :: bool where
  "test_state_root_matches \<longleftrightarrow>
     (let root = b256_of_byte 0xab in validate_block_post_execution root root root root 1000 1000 = Inr ())"

definition test_state_root_mismatch :: bool where
  "test_state_root_mismatch \<longleftrightarrow>
     (let expected = b256_of_byte 0xab; actual = b256_of_byte 0xcd in
      case validate_block_post_execution expected actual expected expected 1000 1000 of
        Inl (StateRootMismatch _ _) \<Rightarrow> True | _ \<Rightarrow> False)"

definition test_receipt_root_mismatch :: bool where
  "test_receipt_root_mismatch \<longleftrightarrow>
     (let root = b256_of_byte 0xab; bad = b256_of_byte 0xcd in
      case validate_block_post_execution root root root bad 1000 1000 of
        Inl (ReceiptRootMismatch _ _) \<Rightarrow> True | _ \<Rightarrow> False)"

definition test_gas_used_matches :: bool where
  "test_gas_used_matches \<longleftrightarrow>
     (let root = b256_of_byte 0xab in validate_block_post_execution root root root root 5000 5000 = Inr ())"

definition test_gas_used_mismatch :: bool where
  "test_gas_used_mismatch \<longleftrightarrow>
     (let root = b256_of_byte 0xab in
      case validate_block_post_execution root root root root 5000 6000 of
        Inl (GasUsedMismatch _ _) \<Rightarrow> True | _ \<Rightarrow> False)"

definition test_receipt_root_pre_madhugiri :: bool where
  "test_receipt_root_pre_madhugiri \<longleftrightarrow>
     (let regular_root = b256_of_byte 0x11 in
      validate_block_post_execution 0 0 regular_root regular_root 1000 1000 = Inr ())"

definition test_receipt_root_post_madhugiri :: bool where
  "test_receipt_root_post_madhugiri \<longleftrightarrow>
     (let unified_root = b256_of_byte 0x22 in
      validate_block_post_execution 0 0 unified_root unified_root 2000 2000 = Inr ())"

section \<open>extra\_data.rs\<close>

definition parses_and :: "bytes \<Rightarrow> (extra_data \<Rightarrow> bool) \<Rightarrow> bool" where
  "parses_and data P \<longleftrightarrow> (case extra_data_parse data of Inl _ \<Rightarrow> False | Inr ed \<Rightarrow> P ed)"

definition test_parse_minimal_extradata :: bool where
  "test_parse_minimal_extradata \<longleftrightarrow>
     parses_and (replicate EXTRADATA_VANITY_LEN 0x01 @ replicate EXTRADATA_SEAL_LEN 0xff) (\<lambda>extra.
       ed_vanity extra = replicate EXTRADATA_VANITY_LEN 0x01 \<and> ed_validator_bytes extra = [] \<and>
       length (ed_seal extra) = EXTRADATA_SEAL_LEN \<and> list_all (\<lambda>b. b = 0xff) (ed_seal extra) \<and>
       extra_data_validators extra = Inr [])"

definition test_parse_with_validators :: bool where
  "test_parse_with_validators \<longleftrightarrow>
     parses_and (replicate EXTRADATA_VANITY_LEN 0 @ (replicate ADDRESS_LEN 0xaa @ replicate ADDRESS_LEN 0xbb) @
         replicate EXTRADATA_SEAL_LEN 0xcc) (\<lambda>extra.
       length (ed_validator_bytes extra) = 40 \<and> length (ed_seal extra) = EXTRADATA_SEAL_LEN \<and>
       extra_data_validators extra = Inr [address_of_byte 0xaa, address_of_byte 0xbb])"

definition test_reject_short_extradata :: bool where
  "test_reject_short_extradata \<longleftrightarrow> extra_data_parse (replicate (MIN_EXTRA_DATA_LEN - 1) 0) = Inl (TooShort 96)"

definition test_validator_extraction :: bool where
  "test_validator_extraction \<longleftrightarrow>
     parses_and (replicate EXTRADATA_VANITY_LEN 0 @
         concat (map (\<lambda>i. replicate ADDRESS_LEN (word_of_nat (i + 1))) [0..<3]) @ replicate EXTRADATA_SEAL_LEN 0xff)
       (\<lambda>extra. extra_data_validators extra = Inr [address_of_byte 1, address_of_byte 2, address_of_byte 3])"

section \<open>seal.rs\<close>

definition test_invalid_signature_length :: "'sig crypto \<Rightarrow> bool" where
  "test_invalid_signature_length C \<longleftrightarrow> ecrecover_seal C 0 (replicate 64 0) = Inl (InvalidSignatureLength 64)"

text \<open>\<open>Header { .. }\<close> with the fields the tests give and the defaults of Alloy.\<close>

definition default_header :: "b256 \<Rightarrow> header" where
  "default_header empty_ommer_root =
     \<lparr>hd_parent_hash = 0, hd_ommers_hash = empty_ommer_root, hd_beneficiary = 0, hd_state_root = 0,
      hd_transactions_root = 0, hd_receipts_root = 0, hd_logs_bloom = 0, hd_difficulty = 0, hd_number = 0,
      hd_gas_limit = 0, hd_gas_used = 0, hd_timestamp = 0, hd_extra_data = [], hd_mix_hash = Some 0,
      hd_nonce = Some 0, hd_base_fee_per_gas = None, hd_withdrawals_root = None, hd_blob_gas_used = None,
      hd_excess_blob_gas = None, hd_parent_beacon_block_root = None, hd_requests_hash = None\<rparr>"

text \<open>The header that the round trip signs, with a zero seal.\<close>

definition seal_test_header :: "b256 \<Rightarrow> header" where
  "seal_test_header empty_ommer_root =
     (default_header empty_ommer_root)\<lparr>hd_number := 42, hd_gas_limit := 30000000, hd_timestamp := 1700000000,
        hd_extra_data := replicate 97 0, hd_base_fee_per_gas := Some 7\<rparr>"

definition test_seal_hash_round_trip_with_ecrecover :: "'sig crypto \<Rightarrow> b256 \<Rightarrow> bytes \<Rightarrow> address \<Rightarrow> bool" where
  "test_seal_hash_round_trip_with_ecrecover C empty_ommer_root seal_bytes signer_addr \<longleftrightarrow>
     (let header = seal_test_header empty_ommer_root;
          seal_hash = compute_seal_hash C header;
          header_with_seal = header\<lparr>hd_extra_data := take 32 (hd_extra_data header) @ seal_bytes\<rparr>;
          seal_hash2 = compute_seal_hash C header_with_seal
      in seal_hash = seal_hash2 \<and> ecrecover_seal C seal_hash2 seal_bytes = Inr signer_addr)"

section \<open>reth\_consensus.rs\<close>

definition test_bor_consensus_rejects_nonzero_nonce :: "('sig, 'tx) env \<Rightarrow> b256 \<Rightarrow> bool" where
  "test_bor_consensus_rejects_nonzero_nonce E hash \<longleftrightarrow>
     isl (engine_validate_header E \<lparr>sh_header = (default_header (en_empty_ommer_root E))
       \<lparr>hd_nonce := Some 1, hd_extra_data := replicate 97 0\<rparr>, sh_hash = hash\<rparr>)"

definition test_bor_consensus_accepts_valid_header :: "('sig, 'tx) env \<Rightarrow> b256 \<Rightarrow> bool" where
  "test_bor_consensus_accepts_valid_header E hash \<longleftrightarrow>
     engine_validate_header E \<lparr>sh_header = (default_header (en_empty_ommer_root E))
       \<lparr>hd_extra_data := replicate 97 0, hd_gas_limit := 30000000\<rparr>, sh_hash = hash\<rparr> = Inr ()"

definition test_bor_consensus_rejects_withdrawals_root :: "('sig, 'tx) env \<Rightarrow> b256 \<Rightarrow> bool" where
  "test_bor_consensus_rejects_withdrawals_root E hash \<longleftrightarrow>
     engine_validate_header E \<lparr>sh_header = (default_header (en_empty_ommer_root E))
       \<lparr>hd_extra_data := replicate 97 0, hd_gas_limit := 30000000, hd_withdrawals_root := Some 0\<rparr>, sh_hash = hash\<rparr> =
     Inl WithdrawalsRootUnexpected"

section \<open>span\_prefetch.rs\<close>

definition make_span :: "u64 \<Rightarrow> u64 \<Rightarrow> span" where
  "make_span i sz =
     \<lparr>sp_id = i, sp_start_block = i * sz, sp_end_block = (i + 1) * sz - 1,
      sp_validator_set = \<lparr>vs_validators = [\<lparr>v_id = 1, v_address = 0, v_voting_power = 100, v_signer = 0,
         v_proposer_priority = 0\<rparr>], vs_proposer = None\<rparr>,
      sp_selected_producers = [], sp_bor_chain_id = ''137''\<rparr>"

definition consensus_contains :: "prefetcher \<Rightarrow> u64 \<Rightarrow> bool" where
  "consensus_contains p i \<longleftrightarrow> span_cache_contains (bc_span_cache (pf_consensus p)) i"

definition test_prefetch_caches_spans :: bool where
  "test_prefetch_caches_spans \<longleftrightarrow>
     (let mock = with_span (with_span (with_span mock_client_new 0 (make_span 0 6400)) 1 (make_span 1 6400))
        2 (make_span 2 6400)
      in returns_and (prefetch_for_block True (mock_fetch_span mock) (prefetcher_new bor_consensus_new) 6400)
           (\<lambda>p. consensus_contains p 1 \<and> consensus_contains p 2))"

definition test_prefetch_genesis_span :: bool where
  "test_prefetch_genesis_span \<longleftrightarrow>
     (let mock = with_span mock_client_new 0 (make_span 0 6400)
      in returns_and (prefetch_for_block True (mock_fetch_span mock) (prefetcher_new bor_consensus_new) 0)
           (\<lambda>p. consensus_contains p 0))"

definition test_prefetch_skips_already_cached :: bool where
  "test_prefetch_skips_already_cached \<longleftrightarrow>
     (let mock = with_span (with_span mock_client_new 0 (make_span 0 6400)) 1 (make_span 1 6400)
      in returns_and (prefetch_for_block True (mock_fetch_span mock) (prefetcher_new bor_consensus_new) 0)
           (\<lambda>p. consensus_contains p 0 \<and>
              returns_and (prefetch_for_block True (mock_fetch_span mock) p 0) (\<lambda>_. True)))"

section \<open>The tests pass\<close>

lemma repeated_byte_mod: "be_value (replicate (Suc n) c) mod 256 = unat c"
proof -
  have "replicate (Suc n) c = replicate n c @ [c]" by (simp add: replicate_append_same)
  then show ?thesis using unat_bound [of c] by (simp only: be_value_snoc) simp
qed

lemma unat_of_byte:
  "unat (address_of_byte c) = be_value (replicate 20 c)" "unat (b256_of_byte c) = be_value (replicate 32 c)"
  using be_value_bound [of "replicate 20 c"] be_value_bound [of "replicate 32 c"]
  by (simp_all add: address_of_byte_def b256_of_byte_def unat_of_nat take_bit_nat_eq_self)

lemma of_byte_mod: "unat (address_of_byte c) mod 256 = unat c" "unat (b256_of_byte c) mod 256 = unat c"
  using repeated_byte_mod [of 19 c] repeated_byte_mod [of 31 c] by (simp_all add: unat_of_byte)

lemma of_byte_inj [simp]:
  "address_of_byte a = address_of_byte b \<longleftrightarrow> a = b" "b256_of_byte a = b256_of_byte b \<longleftrightarrow> a = b"
  by (metis of_byte_mod word_unat_eq_iff)+

lemma b256_of_byte_nonzero [simp]: "b256_of_byte a = 0 \<longleftrightarrow> a = 0"
  using of_byte_inj(2) [of a 0] by (simp add: b256_of_byte_def be_value_zeros)

lemma difficulty_basic_tests: "test_diff_inturn" "test_diff_noturn" "test_diff_minimum" "test_empty_validators"
  by (simp_all add: test_diff_inturn_def test_diff_noturn_def test_diff_minimum_def test_empty_validators_def
      diff_inturn_def diff_noturn_def calculate_difficulty_def is_inturn_def)

lemma difficulty_ring_tests:
  "test_is_inturn" "test_calculate_difficulty_inturn" "test_calculate_difficulty_noturn"
  "test_diff_at_span_boundary" "test_signer_not_in_set" "test_circular_distance"
  by (simp_all add: test_is_inturn_def test_calculate_difficulty_inturn_def test_calculate_difficulty_noturn_def
      test_diff_at_span_boundary_def test_signer_not_in_set_def test_circular_distance_def make_validators_def
      upt_rec is_inturn_def calculate_difficulty_def diff_inturn_def diff_noturn_def Let_def)

lemma recents_tests: "test_recent_window_size" "test_reject_recent_signer" "test_allow_after_window"
  by (simp_all add: test_recent_window_size_def test_reject_recent_signer_def test_allow_after_window_def
      is_recently_signed_def bt_range_def bt_entries_def window_start_def sign_window_def saturating_sub_def
      recents_add_signer_def recents_new_def Let_def)

lemma snapshot_tests: "test_snapshot_create" "test_snapshot_apply" "test_snapshot_is_authorized"
  by (simp_all add: test_snapshot_create_def test_snapshot_apply_def test_snapshot_is_authorized_def snapshot_new_def
      snapshot_apply_def snapshot_is_authorized_def snapshot_test_validator_set_def snapshot_test_validator_def
      bt_split_off_def window_start_def bt_get_def Let_def)

lemma snapshot_codec_test:
  assumes "\<And>s. \<exists>bs. to_vec s = Inr bs \<and> from_slice bs = Inr s"
  shows "test_snapshot_encode_decode_roundtrip to_vec from_slice"
proof -
  let ?snap = "snapshot_apply (snapshot_new 100 0 snapshot_test_validator_set) 101 1"
  obtain bs where "to_vec ?snap = Inr bs" "from_slice bs = Inr ?snap" using assms by blast
  moreover have "length (vs_validators (sn_validator_set ?snap)) = 3"
    by (simp add: snapshot_apply_def snapshot_new_def snapshot_test_validator_set_def Let_def)
  ultimately show ?thesis
    by (simp add: test_snapshot_encode_decode_roundtrip_def returns_and_def snapshot_encode_def snapshot_decode_def)
qed

lemmas proposer_eval = select_proposer_def increment_priority_def max_by_key_index_def i64_arith_def i64_range_def
  make_validator_set_def make_validator_def returns_and_def Let_def

lemma proposer_small_tests: "test_proposer_single_validator" "test_proposer_equal_power"
  by (simp_all add: test_proposer_single_validator_def test_proposer_equal_power_def proposer_eval numeral_eq_Suc)


text \<open>With powers 300 and 100 four rounds restore the priorities.\<close>

lemma weighted_rounds:
  assumes "vs_validators vs = [make_validator 1 0xaa 300, make_validator 2 0xbb 100]"
  shows "\<exists>vs' as. proposer_run True (4 * k) vs = Inr (vs', as) \<and>
    vs_validators vs' = [make_validator 1 0xaa 300, make_validator 2 0xbb 100] \<and>
    length (filter (\<lambda>a. a = address_of_byte 0xaa) as) = 3 * k \<and>
    length (filter (\<lambda>a. a \<noteq> address_of_byte 0xaa) as) = k"
  using assms
proof (induction k arbitrary: vs)
  case 0
  then show ?case by simp
next
  case (Suc k)
  let ?v1 = "\<lparr>vs_validators = [make_validator 1 0xaa 300, make_validator 2 0xbb 100],
      vs_proposer = Some (make_validator 1 0xaa 300)\<rparr>"
  have v1: "vs_validators ?v1 = [make_validator 1 0xaa 300, make_validator 2 0xbb 100]" by simp
  have step: "proposer_run True (Suc (Suc (Suc (Suc n)))) vs = bindR (proposer_run True n ?v1)
      (\<lambda>r. Inr (fst r, address_of_byte 0xaa # address_of_byte 0xbb # address_of_byte 0xaa # address_of_byte 0xaa # snd r))" for n
    using Suc.prems by (simp add: proposer_eval split_beta bindR_assoc)
  obtain v as where IH: "proposer_run True (4 * k) ?v1 = Inr (v, as)"
    "vs_validators v = [make_validator 1 0xaa 300, make_validator 2 0xbb 100]"
    "length (filter (\<lambda>a. a = address_of_byte 0xaa) as) = 3 * k"
    "length (filter (\<lambda>a. a \<noteq> address_of_byte 0xaa) as) = k"
    using Suc.IH [OF v1] by blast
  have "4 * Suc k = Suc (Suc (Suc (Suc (4 * k))))" by simp
  then have "proposer_run True (4 * Suc k) vs = Inr (v, address_of_byte 0xaa # address_of_byte 0xbb #
      address_of_byte 0xaa # address_of_byte 0xaa # as)"
    by (simp only: step IH(1)) simp
  with IH(2-4) show ?case by simp
qed

lemma proposer_long_tests: "test_proposer_weighted" "test_proposer_deterministic"
proof -
  show "test_proposer_weighted"
    using weighted_rounds [of "make_validator_set [make_validator 1 0xaa 300, make_validator 2 0xbb 100]" 100]
    by (auto simp: test_proposer_weighted_def returns_and_def make_validator_set_def)
  let ?vs = "make_validator_set [make_validator 1 0xaa 200, make_validator 2 0xbb 100]"
  have "balanced (vs_validators ?vs)"
    by (rule balanced_initial; (rule harmonic_fits)?) (auto simp: make_validator_set_def make_validator_def total_power_def)
  then show "test_proposer_deterministic"
    using proposer_run_balanced [of ?vs True 20]
    by (auto simp: test_proposer_deterministic_def returns_and_def make_validator_set_def make_validator_def)
qed

lemma validation_rule_tests:
  "test_reject_nonzero_nonce C" "test_reject_nonzero_mixhash C" "test_reject_nonempty_ommers C" "test_reject_future_block C"
  by (simp_all add: test_reject_nonzero_nonce_def test_reject_nonzero_mixhash_def test_reject_nonempty_ommers_def test_reject_future_block_def
      validate_header_def test_params_def fails_with_def extra_data_parse_def u64_add_def Let_def)

lemma validation_parent_tests:
  "test_validate_header_against_parent_ok" "test_validate_header_against_parent_reject_non_increasing"
  by (simp_all add: test_validate_header_against_parent_ok_def validate_header_against_parent_def test_params_def
      test_validate_header_against_parent_reject_non_increasing_def)

lemma make_extra_parse:
  "length seal = 65 \<Longrightarrow> \<exists>ed. extra_data_parse (make_extra_data_with_seal seal) = Inr ed \<and> ed_seal ed = seal"
  by (simp add: extra_data_parse_def make_extra_data_with_seal_def Let_def)

lemma validation_seal_tests:
  assumes "seals C seal_hash seal signer"
  shows "test_reject_wrong_difficulty C seal_hash seal signer" "test_validate_known_header C seal_hash seal signer"
    and "signer \<noteq> address_of_byte 0xaa \<Longrightarrow> test_reject_unauthorized_signer C seal_hash seal"
  using assms make_extra_parse [of seal]
  by (auto simp: seals_def test_reject_wrong_difficulty_def test_validate_known_header_def
      test_reject_unauthorized_signer_def validate_header_def test_params_def fails_with_def u64_add_def Let_def
      calculate_difficulty_def diff_inturn_def bt_entries_def)

lemma block_rule_tests:
  "block_test_reject_nonempty_ommers sa" "test_reject_nonempty_withdrawals sa"
  "test_reject_missing_validators_at_span_start sa" "test_normal_block_no_validators_required sa"
  "test_block_zero_not_span_start sa"
  by (simp_all add: block_test_reject_nonempty_ommers_def test_reject_nonempty_withdrawals_def
      test_reject_missing_validators_at_span_start_def test_normal_block_no_validators_required_def
      test_block_zero_not_span_start_def validate_block_pre_execution_def make_minimal_extra_data_def fails_with_def
      extra_data_parse_def extra_data_validators_def u64_rem_def Let_def)

lemma block_root_tests:
  "test_state_root_matches" "test_state_root_mismatch" "test_receipt_root_mismatch" "test_gas_used_matches"
  "test_gas_used_mismatch" "test_receipt_root_pre_madhugiri" "test_receipt_root_post_madhugiri"
  by (simp_all add: test_state_root_matches_def test_state_root_mismatch_def test_receipt_root_mismatch_def
      test_gas_used_matches_def test_gas_used_mismatch_def test_receipt_root_pre_madhugiri_def
      test_receipt_root_post_madhugiri_def validate_block_post_execution_def Let_def)

lemma address_bytes_of_byte [simp]: "address_bytes (address_of_byte b) = replicate 20 b"
  using be_bytes_be_value [of "replicate 20 b"] by (simp add: address_bytes_def unat_of_byte)

text \<open>Extra data made of a vanity, addresses and a seal.\<close>

lemma parse_addresses:
  assumes "length vanity = 32" and "length seal = 65"
  shows "extra_data_parse (vanity @ concat (map address_bytes as) @ seal) =
      Inr \<lparr>ed_vanity = vanity, ed_validator_bytes = concat (map address_bytes as), ed_seal = seal\<rparr>"
    and "extra_data_validators \<lparr>ed_vanity = vanity, ed_validator_bytes = concat (map address_bytes as), ed_seal = seal\<rparr> =
      Inr as"
proof -
  have "length (concat (map address_bytes as)) = 20 * length as" by (induction as) auto
  with assms show "extra_data_parse (vanity @ concat (map address_bytes as) @ seal) =
      Inr \<lparr>ed_vanity = vanity, ed_validator_bytes = concat (map address_bytes as), ed_seal = seal\<rparr>"
    by (simp add: extra_data_parse_def Let_def)
  show "extra_data_validators \<lparr>ed_vanity = vanity, ed_validator_bytes = concat (map address_bytes as), ed_seal = seal\<rparr> =
      Inr as"
    by (simp add: extra_data_validators_def decode_address_chunks)
qed

lemma extra_data_tests:
  "test_parse_minimal_extradata" "test_parse_with_validators" "test_reject_short_extradata" "test_validator_extraction"
  using parse_addresses [of "replicate 32 1" "replicate 65 0xff" "[]"]
    parse_addresses [of "replicate 32 0" "replicate 65 0xcc" "[address_of_byte 0xaa, address_of_byte 0xbb]"]
    parse_addresses [of "replicate 32 0" "replicate 65 0xff" "[address_of_byte 1, address_of_byte 2, address_of_byte 3]"]
  by (simp_all add: test_parse_minimal_extradata_def test_parse_with_validators_def test_reject_short_extradata_def
      test_validator_extraction_def parses_and_def extra_data_parse_def upt_rec list_all_iff)

lemma span_start_test: "test_validate_span_start_extradata sa"
  using parse_addresses [of "replicate 32 0" "replicate 65 0" "[address_of_byte 0xaa, address_of_byte 0xbb]"]
  by (simp add: test_validate_span_start_extradata_def validate_block_pre_execution_def
      make_extra_data_with_validators_def u64_rem_def Let_def)

lemma seal_tests:
  "test_invalid_signature_length C"
  "seals C (compute_seal_hash C (seal_test_header root)) seal signer \<Longrightarrow>
   test_seal_hash_round_trip_with_ecrecover C root seal signer"
proof -
  show "test_invalid_signature_length C" by (simp add: test_invalid_signature_length_def ecrecover_seal_def)
  assume "seals C (compute_seal_hash C (seal_test_header root)) seal signer"
  then show "test_seal_hash_round_trip_with_ecrecover C root seal signer"
    by (simp add: seals_def test_seal_hash_round_trip_with_ecrecover_def compute_seal_hash_def seal_preimage_def
        seal_list_content_def trimmed_extra_def seal_test_header_def Let_def)
qed

lemma engine_header_tests:
  "test_bor_consensus_rejects_nonzero_nonce E hash" "test_bor_consensus_accepts_valid_header E hash"
  "test_bor_consensus_rejects_withdrawals_root E hash"
  by (simp_all add: test_bor_consensus_rejects_nonzero_nonce_def test_bor_consensus_accepts_valid_header_def
      test_bor_consensus_rejects_withdrawals_root_def engine_validate_header_def default_header_def Let_def)

lemma prefetch_tests: "test_prefetch_caches_spans" "test_prefetch_genesis_span" "test_prefetch_skips_already_cached"
  by (simp_all add: test_prefetch_caches_spans_def test_prefetch_genesis_span_def test_prefetch_skips_already_cached_def
      prefetch_for_block_def ensure_spans_for_block_def prefetcher_new_def span_id_at_def u64_div_def upt_rec
      u64_add_def fetch_and_cache_span_def mock_fetch_span_def with_span_def mock_client_new_def ok_or_def hm_get_def
      hm_insert_def make_span_def consensus_contains_def returns_and_def engine_insert_span_def bor_consensus_new_def
      span_cache_contains_def span_cache_insert_def span_cache_new_def hm_contains_def word_le_nat_alt Let_def)

end
