(* ===== verification/Payload_Builder.thy ===== *)
theory Payload_Builder
  imports Evm_System Bor_Storage
begin

text \<open>
  \<open>bor-payload/src/builder.rs\<close>: user transactions up to the gas limit, then the system
  transactions of the block. The properties give the exact prefix of the pool that is taken
  and relate the layout of the block to the receipt code of \<open>bor-storage\<close>.
\<close>

section \<open>Model\<close>

record payload_config =
  pc_block_number :: u64
  pc_gas_limit :: u64
  pc_sprint_size :: u64
  pc_span_size :: u64
  pc_producer :: address
  pc_timestamp :: u64
  pc_has_pending_span :: bool
  pc_pending_span_id :: "u256 option"
  pc_pending_validator_bytes :: "bytes option"
  pc_pending_state_sync_events :: "(u256 \<times> bytes) list"

record payload_tx =
  pt_data :: bytes
  pt_gas_used :: u64
  pt_is_system_tx :: bool

record built_payload =
  bp_block_number :: u64
  bp_transactions :: "payload_tx list"
  bp_total_gas_used :: u64
  bp_system_calls :: "system_call_record list"
  bp_commit_span_executed :: bool
  bp_state_sync_count :: nat

text \<open>The loop over the pool: \<open>total_gas_used\<close> and \<open>transactions\<close> are its state.\<close>

fun include_user_txs ::
    "bool \<Rightarrow> u64 \<Rightarrow> u64 \<Rightarrow> payload_tx list \<Rightarrow> payload_tx list \<Rightarrow> panic + (payload_tx list \<times> u64)" where
  "include_user_txs oc gas_limit used txs [] = Inr (txs, used)"
| "include_user_txs oc gas_limit used txs (tx # pool) =
     bindR (u64_add oc used (pt_gas_used tx)) (\<lambda>s.
     if gas_limit < s then Inr (txs, used)
     else bindR (u64_add oc used (pt_gas_used tx)) (\<lambda>used'.
          include_user_txs oc gas_limit used' (txs @ [tx]) pool))"

definition system_payload_tx :: "system_call_record \<Rightarrow> payload_tx" where
  "system_payload_tx c = \<lparr>pt_data = scr_data c, pt_gas_used = 0, pt_is_system_tx = True\<rparr>"

definition build_payload ::
    "bool \<Rightarrow> abi_encoder \<Rightarrow> payload_config \<Rightarrow> payload_tx list \<Rightarrow> panic + built_payload" where
  "build_payload oc abi config user_txs =
     bindR (include_user_txs oc (pc_gas_limit config) 0 [] user_txs) (\<lambda>(txs, total_gas_used).
     bindR (plan_system_txs (pc_block_number config) (pc_sprint_size config) (pc_span_size config)
              (pc_has_pending_span config) (pc_pending_state_sync_events config)) (\<lambda>plan.
     let result = execute_system_tx_plan abi plan (pc_pending_span_id config)
                    (pc_pending_validator_bytes config)
     in Inr \<lparr>bp_block_number = pc_block_number config,
             bp_transactions = txs @ map system_payload_tx (str_system_calls result),
             bp_total_gas_used = total_gas_used,
             bp_system_calls = str_system_calls result,
             bp_commit_span_executed = str_commit_span_executed result,
             bp_state_sync_count = str_state_sync_count result\<rparr>))"

section \<open>Lemmas\<close>

definition gas_sum :: "payload_tx list \<Rightarrow> nat" where
  "gas_sum txs = sum_list (map (\<lambda>tx. unat (pt_gas_used tx)) txs)"

lemma gas_sum_simps [simp]:
  "gas_sum [] = 0" "gas_sum (tx # txs) = unat (pt_gas_used tx) + gas_sum txs"
  "gas_sum (txs @ txs') = gas_sum txs + gas_sum txs'"
  by (simp_all add: gas_sum_def)

text \<open>\<open>k\<close> is the length of the longest prefix that fits.\<close>

definition fits_exactly :: "nat \<Rightarrow> nat \<Rightarrow> payload_tx list \<Rightarrow> bool" where
  "fits_exactly limit k txs \<longleftrightarrow>
     k \<le> length txs \<and> gas_sum (take k txs) \<le> limit \<and>
     (k = length txs \<or> limit < gas_sum (take (Suc k) txs))"

lemma include_user_txs_spec:
  assumes "\<And>tx. tx \<in> set pool \<Longrightarrow> unat (pt_gas_used tx) + unat limit < 2 ^ 64"
    and "unat used = gas_sum acc" and "gas_sum acc \<le> unat limit"
  shows "\<exists>k t. include_user_txs oc limit used acc pool = Inr (acc @ take k pool, t) \<and>
     k \<le> length pool \<and> unat t = gas_sum (acc @ take k pool) \<and> gas_sum (acc @ take k pool) \<le> unat limit \<and>
     (k = length pool \<or> unat limit < gas_sum (acc @ take (Suc k) pool))"
  using assms
proof (induction pool arbitrary: used acc)
  case Nil
  then show ?case by simp
next
  case (Cons tx pool)
  have small: "unat used + unat (pt_gas_used tx) < 2 ^ 64"
    using Cons.prems(1) [of tx] Cons.prems(2,3) by simp
  then have add: "u64_add oc used (pt_gas_used tx) = Inr (used + pt_gas_used tx)"
    by (simp add: u64_add_def)
  have sum: "unat (used + pt_gas_used tx) = gas_sum (acc @ [tx])"
    using small Cons.prems(2) by (simp add: unat_word_ariths)
  show ?case
  proof (cases "limit < used + pt_gas_used tx")
    case True
    then have "unat limit < gas_sum (acc @ [tx])" by (simp add: word_less_nat_alt sum)
    with True show ?thesis
      using Cons.prems(2,3) by (intro exI [of _ 0] exI [of _ used]) (simp add: add)
  next
    case False
    then have "gas_sum (acc @ [tx]) \<le> unat limit" by (simp only: word_less_nat_alt not_less sum)
    with Cons.IH [of "used + pt_gas_used tx" "acc @ [tx]"] Cons.prems(1) sum
    obtain k t where "include_user_txs oc limit (used + pt_gas_used tx) (acc @ [tx]) pool = Inr ((acc @ [tx]) @ take k pool, t)"
        "k \<le> length pool" "unat t = gas_sum ((acc @ [tx]) @ take k pool)"
        "gas_sum ((acc @ [tx]) @ take k pool) \<le> unat limit"
        "k = length pool \<or> unat limit < gas_sum ((acc @ [tx]) @ take (Suc k) pool)"
      by auto
    with False show ?thesis by (intro exI [of _ "Suc k"] exI [of _ t]) (simp add: add)
  qed
qed

lemma build_payload_eq:
  assumes "\<And>tx. tx \<in> set txs \<Longrightarrow> unat (pt_gas_used tx) + unat (pc_gas_limit cfg) < 2 ^ 64"
    and "pc_sprint_size cfg \<noteq> 0" and "pc_span_size cfg \<noteq> 0"
  shows "\<exists>p k. build_payload oc abi cfg txs = Inr p \<and> fits_exactly (unat (pc_gas_limit cfg)) k txs \<and>
     bp_transactions p = take k txs @ map system_payload_tx (bp_system_calls p) \<and>
     unat (bp_total_gas_used p) = gas_sum (take k txs)"
proof -
  obtain k t where "include_user_txs oc (pc_gas_limit cfg) 0 [] txs = Inr (take k txs, t)"
      "fits_exactly (unat (pc_gas_limit cfg)) k txs" "unat t = gas_sum (take k txs)"
    using include_user_txs_spec [of txs "pc_gas_limit cfg" 0 "[]" oc] assms(1) by (auto simp: fits_exactly_def)
  then show ?thesis
    by (auto simp: build_payload_def plan_eq [OF assms(2,3)] Let_def)
qed

section \<open>Properties\<close>

text \<open>
  C26. The payload takes the longest prefix of the pool that fits: where no sum can leave a
  \<open>u64\<close> and the sizes are not zero, building returns; the user transactions are the first \<open>k\<close>
  of the pool in order, their gas adds up to the reported total, the total is within the
  limit, and the next transaction, if there is one, would exceed it. System transactions
  follow, with no gas.
\<close>

theorem payload_longest_prefix:
  assumes "\<And>tx. tx \<in> set txs \<Longrightarrow> unat (pt_gas_used tx) + unat (pc_gas_limit cfg) < 2 ^ 64"
    and "pc_sprint_size cfg \<noteq> 0" and "pc_span_size cfg \<noteq> 0"
  shows "\<exists>p k. build_payload oc abi cfg txs = Inr p \<and> k \<le> length txs \<and>
     bp_transactions p = take k txs @
       map (\<lambda>c. \<lparr>pt_data = scr_data c, pt_gas_used = 0, pt_is_system_tx = True\<rparr>) (bp_system_calls p) \<and>
     unat (bp_total_gas_used p) = gas_sum (take k txs) \<and> gas_sum (bp_transactions p) = gas_sum (take k txs) \<and>
     gas_sum (take k txs) \<le> unat (pc_gas_limit cfg) \<and>
     (k = length txs \<or> unat (pc_gas_limit cfg) < gas_sum (take (Suc k) txs))"
proof -
  have "gas_sum (map system_payload_tx cs) = 0" for cs
    by (induction cs) (simp_all add: system_payload_tx_def)
  then show ?thesis
    using build_payload_eq [of txs cfg oc abi, OF assms]
    by (fastforce simp: fits_exactly_def system_payload_tx_def [abs_def])
qed

text \<open>
  The receipt code finds the system transactions: on a payload built from user transactions
  the index test of \<open>bor-storage\<close>, given the number of system calls, answers for every
  transaction of the block whether it is a system transaction.
\<close>

theorem payload_system_txs_located:
  assumes "\<And>tx. tx \<in> set txs \<Longrightarrow> unat (pt_gas_used tx) + unat (pc_gas_limit cfg) < 2 ^ 64 \<and> \<not> pt_is_system_tx tx"
    and "pc_sprint_size cfg \<noteq> 0" and "pc_span_size cfg \<noteq> 0"
    and "build_payload oc abi cfg txs = Inr p" and "i < length (bp_transactions p)"
  shows "is_bor_system_tx oc i (length (bp_transactions p)) (length (bp_system_calls p)) =
     Inr (pt_is_system_tx (bp_transactions p ! i))"
proof -
  obtain k where k: "bp_transactions p = take k txs @ map system_payload_tx (bp_system_calls p)"
    using build_payload_eq [of txs cfg oc abi] assms by auto
  have user: "\<not> pt_is_system_tx (take k txs ! i)" if "i < length (take k txs)"
    using assms(1) that by (meson in_set_takeD nth_mem)
  have len: "length (bp_transactions p) - length (bp_system_calls p) = length (take k txs)"
    by (simp add: k)
  show ?thesis
    using assms(5) user
    by (simp add: is_bor_system_tx_def usize_sub_def len k) (auto simp: k nth_append system_payload_tx_def)
qed

section \<open>Witnesses\<close>

definition demo_config :: payload_config where
  "demo_config = \<lparr>pc_block_number = 16, pc_gas_limit = 50000, pc_sprint_size = 16, pc_span_size = 6400,
     pc_producer = 1, pc_timestamp = 1000, pc_has_pending_span = False, pc_pending_span_id = None,
     pc_pending_validator_bytes = None, pc_pending_state_sync_events = [(1, [5])]\<rparr>"

definition demo_tx :: "u64 \<Rightarrow> payload_tx" where
  "demo_tx g = \<lparr>pt_data = [], pt_gas_used = g, pt_is_system_tx = False\<rparr>"

theorem payload_longest_prefix_witness:
  "\<exists>p k. build_payload True (\<lambda>i b. b) demo_config [demo_tx 21000, demo_tx 21000, demo_tx 21000] = Inr p \<and>
     unat (bp_total_gas_used p) = gas_sum (take k [demo_tx 21000, demo_tx 21000, demo_tx 21000]) \<and>
     gas_sum (take k [demo_tx 21000, demo_tx 21000, demo_tx 21000]) \<le> 50000"
  using payload_longest_prefix [of "[demo_tx 21000, demo_tx 21000, demo_tx 21000]" demo_config True "\<lambda>i b. b"]
  by (auto simp: demo_config_def demo_tx_def)

theorem payload_system_txs_located_witness:
  "\<exists>p. build_payload True (\<lambda>i b. b) demo_config [demo_tx 21000] = Inr p \<and>
     is_bor_system_tx True 1 (length (bp_transactions p)) (length (bp_system_calls p)) = Inr True"
proof -
  have "\<exists>p. build_payload True (\<lambda>i b. b) demo_config [demo_tx 21000] = Inr p \<and> length (bp_transactions p) = 2 \<and>
      pt_is_system_tx (bp_transactions p ! 1)"
    by (simp add: build_payload_def demo_config_def demo_tx_def u64_add_def plan_eq execute_plan_eq planned_calls_def
        Let_def system_payload_tx_def)
  then obtain p where p: "build_payload True (\<lambda>i b. b) demo_config [demo_tx 21000] = Inr p"
      "length (bp_transactions p) = 2" "pt_is_system_tx (bp_transactions p ! 1)" by blast
  have "is_bor_system_tx True 1 (length (bp_transactions p)) (length (bp_system_calls p)) =
      Inr (pt_is_system_tx (bp_transactions p ! 1))"
    by (rule payload_system_txs_located [OF _ _ _ p(1)]) (auto simp: demo_config_def demo_tx_def p(2))
  with p show ?thesis by auto
qed

end
