(* ===== verification/Bor_Rpc.thy ===== *)
theory Bor_Rpc
  imports Consensus_Seal
begin

text \<open>
  \<open>bor-rpc\<close>: the block author and the root hash of a block range. The root hash is computed
  level by level on a padded vector; the main theorem refines it to the recursive hash of a
  perfect binary tree and shows that the loops end and no index is out of bounds.
\<close>

section \<open>types.rs\<close>

record validator_info =
  vi_address :: address
  vi_voting_power :: i64
  vi_proposer_priority :: i64

record bor_snapshot_response =
  sr_number :: u64
  sr_hash :: b256
  sr_validator_set :: "validator_info list"

record current_validators_response =
  cv_validators :: "validator_info list"

record bor_receipt_response =
  rr_tx_hash :: b256
  rr_block_number :: u64
  rr_block_hash :: b256
  rr_cumulative_gas_used :: u256
  rr_gas_used :: u256
  rr_is_bor_tx :: bool
  rr_status :: u64

section \<open>api.rs\<close>

text \<open>The trait \<open>BorApi\<close>, with \<open>'s\<close> for \<open>Self\<close> and \<open>'e\<close> for its error type.\<close>

record ('s, 'e) bor_api =
  bor_get_snapshot :: "'s \<Rightarrow> u64 \<Rightarrow> 'e + bor_snapshot_response"
  bor_get_snapshot_at_hash :: "'s \<Rightarrow> b256 \<Rightarrow> 'e + bor_snapshot_response"
  bor_get_current_validators :: "'s \<Rightarrow> 'e + current_validators_response"
  bor_get_current_proposer :: "'s \<Rightarrow> 'e + address"
  bor_get_root_hash :: "'s \<Rightarrow> u64 \<Rightarrow> u64 \<Rightarrow> 'e + b256"
  bor_get_author :: "'s \<Rightarrow> u64 \<Rightarrow> 'e + address"
  bor_get_transaction_receipts_by_block :: "'s \<Rightarrow> u64 \<Rightarrow> 'e + bor_receipt_response list"

section \<open>methods.rs\<close>

datatype bor_rpc_error =
    BlockNotFound u64
  | RpcSealError seal_error
  | ExtraDataError string
  | InvalidBlockRange u64 u64

primrec show_bor_rpc_error :: "bor_rpc_error \<Rightarrow> string" where
  "show_bor_rpc_error (BlockNotFound n) = ''block not found: '' @ show_u64 n"
| "show_bor_rpc_error (RpcSealError e) = ''seal recovery failed: '' @ show_seal_error e"
| "show_bor_rpc_error (ExtraDataError e) = ''invalid extra data: '' @ e"
| "show_bor_rpc_error (InvalidBlockRange a b) =
     ''invalid block range: start '' @ show_u64 a @ '' > end '' @ show_u64 b"

definition get_author :: "'sig crypto \<Rightarrow> b256 \<Rightarrow> bytes \<Rightarrow> bor_rpc_error + address" where
  "get_author C seal_hash extra =
     bindR (map_err (\<lambda>e. ExtraDataError (show_extra_data_error e)) (extra_data_parse extra)) (\<lambda>parsed.
     map_err RpcSealError (ecrecover_seal C seal_hash (ed_seal parsed)))"

text \<open>\<open>usize::next_power_of_two\<close>, the smallest power of two that is not smaller.\<close>

function next_pow2_from :: "nat \<Rightarrow> nat \<Rightarrow> nat" where
  "next_pow2_from p n = (if n \<le> p \<or> p = 0 then p else next_pow2_from (2 * p) n)"
  by pat_completeness auto
termination
  by (relation "measure (\<lambda>(p, n). n - p)") auto

declare next_pow2_from.simps [simp del]

definition next_power_of_two :: "nat \<Rightarrow> nat" where
  "next_power_of_two n = next_pow2_from 1 n"

text \<open>\<open>chunks(2)\<close>: the last chunk may have one element.\<close>

fun chunks2 :: "'a list \<Rightarrow> 'a list list" where
  "chunks2 [] = []"
| "chunks2 [x] = [[x]]"
| "chunks2 (x # y # xs) = [x, y] # chunks2 xs"

definition index_of :: "'a list \<Rightarrow> nat \<Rightarrow> panic + 'a" where
  "index_of xs i = (if i < length xs then Inr (xs ! i) else Inl IndexOutOfBounds)"

definition hash_pair :: "(bytes \<Rightarrow> b256) \<Rightarrow> b256 list \<Rightarrow> panic + b256" where
  "hash_pair keccak pair =
     bindR (index_of pair 0) (\<lambda>l.
     bindR (index_of pair 1) (\<lambda>r.
     Inr (keccak (b256_bytes l @ b256_bytes r))))"

definition hash_level :: "(bytes \<Rightarrow> b256) \<Rightarrow> b256 list \<Rightarrow> panic + b256 list" where
  "hash_level keccak level = collectR (map (hash_pair keccak) (chunks2 level))"

lemma bindR_cong [fundef_cong]:
  "r = r' \<Longrightarrow> (\<And>x. r' = Inr x \<Longrightarrow> f x = g x) \<Longrightarrow> bindR r f = bindR r' g"
  by (cases r') auto

lemma length_collectR: "collectR rs = Inr xs \<Longrightarrow> length xs = length rs"
  by (induction rs arbitrary: xs) (auto simp: bindR_eq_Inr)

lemma length_chunks2: "length (chunks2 xs) = Suc (length xs) div 2"
  by (induction xs rule: chunks2.induct) auto

lemma length_hash_level: "hash_level k xs = Inr ys \<Longrightarrow> length ys = Suc (length xs) div 2"
  unfolding hash_level_def by (drule length_collectR) (simp add: length_chunks2)

function root_loop :: "(bytes \<Rightarrow> b256) \<Rightarrow> b256 list \<Rightarrow> panic + b256" where
  "root_loop keccak level =
     (if 1 < length level
      then bindR (hash_level keccak level) (\<lambda>next_level. root_loop keccak next_level)
      else index_of level 0)"
  by pat_completeness auto
termination
  by (relation "measure (\<lambda>(k, xs). length xs)") (auto dest: length_hash_level)

declare root_loop.simps [simp del]

definition compute_root_hash :: "(bytes \<Rightarrow> b256) \<Rightarrow> b256 list \<Rightarrow> panic + b256" where
  "compute_root_hash keccak block_hashes =
     (if block_hashes = [] then Inr 0
      else if length block_hashes = 1 then index_of block_hashes 0
      else root_loop keccak (block_hashes @
             replicate (next_power_of_two (length block_hashes) - length block_hashes) 0))"

section \<open>The reference: a perfect binary tree\<close>

definition node :: "(bytes \<Rightarrow> b256) \<Rightarrow> b256 \<Rightarrow> b256 \<Rightarrow> b256" where
  "node keccak l r = keccak (b256_bytes l @ b256_bytes r)"

primrec tree_root :: "(bytes \<Rightarrow> b256) \<Rightarrow> nat \<Rightarrow> b256 list \<Rightarrow> b256" where
  "tree_root keccak 0 xs = hd xs"
| "tree_root keccak (Suc d) xs =
     node keccak (tree_root keccak d (take (2 ^ d) xs)) (tree_root keccak d (drop (2 ^ d) xs))"

section \<open>Lemmas\<close>

fun pairs :: "('a \<Rightarrow> 'a \<Rightarrow> 'b) \<Rightarrow> 'a list \<Rightarrow> 'b list" where
  "pairs f (x # y # xs) = f x y # pairs f xs"
| "pairs f [x] = []"
| "pairs f [] = []"

lemma pairs_take: "pairs f (take (2 * n) xs) = take n (pairs f xs)"
proof (induction f xs arbitrary: n rule: pairs.induct)
  case (1 f x y xs)
  then show ?case by (cases n) simp_all
next
  case (2 f x)
  then show ?case by (cases n) simp_all
qed simp

lemma pairs_drop: "pairs f (drop (2 * n) xs) = drop n (pairs f xs)"
proof (induction f xs arbitrary: n rule: pairs.induct)
  case (1 f x y xs)
  then show ?case by (cases n) simp_all
next
  case (2 f x)
  then show ?case by (cases n) simp_all
qed simp

lemma length_pairs: "length (pairs f xs) = length xs div 2"
  by (induction f xs rule: pairs.induct) auto

lemma hash_level_pairs: "even (length xs) \<Longrightarrow> hash_level k xs = Inr (pairs (node k) xs)"
  unfolding hash_level_def
  by (induction xs rule: chunks2.induct) (auto simp: hash_pair_def index_of_def node_def)

lemma tree_root_pairs: "length xs = 2 ^ Suc d \<Longrightarrow> tree_root k (Suc d) xs = tree_root k d (pairs (node k) xs)"
proof (induction d arbitrary: xs)
  case 0
  then obtain x y where "xs = [x, y]" by (auto simp: length_Suc_conv numeral_2_eq_2)
  then show ?case by simp
next
  case (Suc d)
  let ?n = "2 ^ Suc d :: nat"
  have "tree_root k (Suc d) (take ?n xs) = tree_root k d (pairs (node k) (take ?n xs))"
    "tree_root k (Suc d) (drop ?n xs) = tree_root k d (pairs (node k) (drop ?n xs))"
    using Suc.prems by (intro Suc.IH; simp)+
  then show ?case
    using pairs_take [of "node k" "2 ^ d" xs] pairs_drop [of "node k" "2 ^ d" xs]
    by (simp del: tree_root.simps(2) add: tree_root.simps(2) [of k "Suc d" xs] tree_root.simps(2) [of k d "pairs (node k) xs"])
qed

lemma root_loop_tree: "length xs = 2 ^ d \<Longrightarrow> root_loop k xs = Inr (tree_root k d xs)"
proof (induction d arbitrary: xs)
  case 0
  then obtain x where "xs = [x]" by (auto simp: length_Suc_conv)
  then show ?case by (simp add: root_loop.simps index_of_def)
next
  case (Suc d)
  have "1 < (2 :: nat) ^ Suc d" by (rule one_less_power) simp_all
  then have "root_loop k xs = root_loop k (pairs (node k) xs)"
    using Suc.prems by (subst root_loop.simps) (simp add: hash_level_pairs)
  also have "\<dots> = Inr (tree_root k d (pairs (node k) xs))"
    using Suc.prems by (intro Suc.IH) (simp add: length_pairs)
  finally show ?case using tree_root_pairs [OF Suc.prems] by simp
qed

lemma next_pow2_from_spec:
  "p = 2 ^ a \<Longrightarrow> p < 2 * n \<Longrightarrow> \<exists>d. next_pow2_from p n = 2 ^ d \<and> n \<le> 2 ^ d \<and> 2 ^ d < 2 * n"
proof (induction p n arbitrary: a rule: next_pow2_from.induct)
  case (1 p n)
  show ?case
  proof (cases "n \<le> p")
    case True
    then show ?thesis using 1(2,3) by (subst next_pow2_from.simps) auto
  next
    case False
    with 1(2) have "next_pow2_from p n = next_pow2_from (2 * p) n" by (subst next_pow2_from.simps) simp
    then show ?thesis using 1(1) [of "Suc a"] 1(2,3) False by simp
  qed
qed

lemma next_power_of_two_spec:
  "0 < n \<Longrightarrow> \<exists>d. next_power_of_two n = 2 ^ d \<and> n \<le> 2 ^ d \<and> 2 ^ d < 2 * n"
  unfolding next_power_of_two_def using next_pow2_from_spec [of 1 0 n] by simp

lemma next_power_of_two_unique:
  assumes "0 < n" and "n \<le> 2 ^ d" and "2 ^ d < 2 * n"
  shows "next_power_of_two n = 2 ^ d"
proof -
  obtain d' where d': "next_power_of_two n = 2 ^ d'" "n \<le> 2 ^ d'" "2 ^ d' < 2 * n"
    using next_power_of_two_spec [OF assms(1)] by blast
  have le: "a \<le> b" if "2 ^ a < 2 * n" "n \<le> 2 ^ b" for a b
  proof -
    have "(2 :: nat) ^ a < 2 ^ Suc b" using that by simp
    then show ?thesis by (simp only: power_strict_increasing_iff less_Suc_eq_le)
  qed
  have "d' = d" using le [of d' d] le [of d d'] assms d' by simp
  with d' show ?thesis by simp
qed

lemma compute_root_hash_tree:
  assumes "xs \<noteq> []" and "length xs \<le> 2 ^ d" and "2 ^ d < 2 * length xs"
  shows "compute_root_hash k xs = Inr (tree_root k d (xs @ replicate (2 ^ d - length xs) 0))"
proof (cases "length xs = 1")
  case True
  then obtain x where x: "xs = [x]" by (auto simp: length_Suc_conv)
  have "d = 0" using assms(3) True by (cases d) simp_all
  with x show ?thesis by (simp add: compute_root_hash_def index_of_def)
next
  case False
  have "next_power_of_two (length xs) = 2 ^ d"
    using assms by (intro next_power_of_two_unique) simp_all
  moreover have "root_loop k (xs @ replicate (2 ^ d - length xs) 0) =
      Inr (tree_root k d (xs @ replicate (2 ^ d - length xs) 0))"
    using assms(2) by (intro root_loop_tree) simp
  ultimately show ?thesis using False assms(1) by (simp add: compute_root_hash_def)
qed

section \<open>Properties\<close>

text \<open>
  C25. The root hash is total and is the root of a perfect binary tree: for every non-empty list
  of hashes the loops end without a panic, and the result is the recursive hash of the tree
  of the smallest depth \<open>d\<close> with \<open>2 ^ d\<close> leaves or more, its leaves the hashes in order and
  then zeroes; an empty range gives zero.
\<close>

theorem compute_root_hash_is_tree:
  "compute_root_hash k [] = Inr 0 \<and>
   (xs = [] \<or> (\<exists>d. length xs \<le> 2 ^ d \<and> 2 ^ d < 2 * length xs \<and>
      compute_root_hash k xs = Inr (tree_root k d (xs @ replicate (2 ^ d - length xs) 0))))"
proof (cases "xs = []")
  case False
  then obtain d where "length xs \<le> 2 ^ d" "2 ^ d < 2 * length xs"
    using next_power_of_two_spec [of "length xs"] by auto
  with compute_root_hash_tree [OF False this] show ?thesis by (auto simp: compute_root_hash_def)
qed (simp add: compute_root_hash_def)

text \<open>
  The root does not commit to the number of blocks: where the number of hashes is strictly
  between two powers of two, appending a zero hash leaves the root unchanged.
\<close>

theorem compute_root_hash_padding:
  assumes "2 ^ d < length xs" and "length xs < 2 ^ Suc d"
  shows "compute_root_hash k (xs @ [0]) = compute_root_hash k xs"
proof -
  have ne: "xs \<noteq> []" using assms(1) by auto
  have pad: "xs @ replicate (2 ^ Suc d - length xs) 0 = (xs @ [0]) @ replicate (2 ^ Suc d - length (xs @ [0])) 0"
  proof -
    have "2 ^ Suc d - length xs = Suc (2 ^ Suc d - length (xs @ [0]))" using assms(2) by simp
    then show ?thesis by simp
  qed
  have "compute_root_hash k xs = Inr (tree_root k (Suc d) (xs @ replicate (2 ^ Suc d - length xs) 0))"
    using assms ne by (intro compute_root_hash_tree) simp_all
  moreover have "compute_root_hash k (xs @ [0]) =
      Inr (tree_root k (Suc d) ((xs @ [0]) @ replicate (2 ^ Suc d - length (xs @ [0])) 0))"
    using assms by (intro compute_root_hash_tree) simp_all
  ultimately show ?thesis by (simp only: pad)
qed


text \<open>
  The author of a block is the signer that validation sees: whenever the extra data parses,
  \<open>get_author\<close> recovers from the last 65 bytes and answers with the recovered address or the
  recovery error; extra data that does not parse is reported as such.
\<close>

theorem get_author_outcomes:
  "get_author C hash extra =
     (case extra_data_parse extra of
        Inl e \<Rightarrow> Inl (ExtraDataError (show_extra_data_error e))
      | Inr ed \<Rightarrow> (case ecrecover_seal C hash (drop (length extra - 65) extra) of
           Inl e \<Rightarrow> Inl (RpcSealError e)
         | Inr a \<Rightarrow> Inr a))"
  by (auto simp: get_author_def extra_data_seal_eq split: sum.splits)

section \<open>Witnesses\<close>

theorem compute_root_hash_padding_witness:
  "compute_root_hash (\<lambda>bs. word_of_nat (be_value bs)) [1, 2, 3, 0] =
     compute_root_hash (\<lambda>bs. word_of_nat (be_value bs)) [1, 2, 3]"
  using compute_root_hash_padding [of 1 "[1, 2, 3]" "\<lambda>bs. word_of_nat (be_value bs)"] by simp

end
