(* ===== verification/Tests_Node.thy ===== *)
theory Tests_Node
  imports Tests_Consensus Payload_Builder Bor_Rpc
begin

text \<open>
  The unit tests of \<open>heimdall-client\<close>, \<open>bor-storage\<close>, \<open>bor-evm\<close>, \<open>bor-payload\<close>, \<open>bor-rpc\<close> and \<open>bor-node\<close>,
  each as the predicate that its assertions state of the model. Keccak, the ABI encoder and
  the JSON codec are arguments; assertions that two Keccak hashes differ are left out.
\<close>

section \<open>heimdall-client: mock.rs\<close>

definition mock_sample_validator :: validator where
  "mock_sample_validator = sample_validator 1 0xaa"

definition sample_span :: "u64 \<Rightarrow> span" where
  "sample_span i =
     \<lparr>sp_id = i, sp_start_block = i * 6400, sp_end_block = (i + 1) * 6400 - 1,
      sp_validator_set = \<lparr>vs_validators = [mock_sample_validator], vs_proposer = Some mock_sample_validator\<rparr>,
      sp_selected_producers = [mock_sample_validator], sp_bor_chain_id = ''137''\<rparr>"

definition sample_event :: "u64 \<Rightarrow> state_sync_event" where
  "sample_event i =
     \<lparr>sse_id = i, sse_contract = address_of_byte 0xbb, sse_data = [0x01, 0x02], sse_tx_hash = 0, sse_log_index = 0,
      sse_bor_chain_id = ''137'', sse_time = 1000000 + i\<rparr>"

definition sample_checkpoint :: "u64 \<Rightarrow> checkpoint" where
  "sample_checkpoint number =
     \<lparr>cp_start_block = number * 1000, cp_end_block = (number + 1) * 1000 - 1, cp_root_hash = 0,
      cp_proposer = address_of_byte 0xcc\<rparr>"

definition sample_milestone :: milestone where
  "sample_milestone = \<lparr>ms_start_block = 0, ms_end_block = 255, ms_hash = 0, ms_proposer = address_of_byte 0xdd\<rparr>"

definition ok_and :: "heimdall_error + 'a \<Rightarrow> ('a \<Rightarrow> bool) \<Rightarrow> bool" where
  "ok_and r P \<longleftrightarrow> (case r of Inl _ \<Rightarrow> False | Inr x \<Rightarrow> P x)"

definition test_mock_fetch_span :: bool where
  "test_mock_fetch_span \<longleftrightarrow>
     (let client = with_span mock_client_new 1 (sample_span 1) in
      ok_and (mock_fetch_span client 1) (\<lambda>span. sp_id span = 1 \<and> sp_start_block span = 6400) \<and>
      isl (mock_fetch_span client 99))"

definition test_mock_fetch_latest_span :: bool where
  "test_mock_fetch_latest_span \<longleftrightarrow>
     ok_and (mock_fetch_latest_span (with_latest_span mock_client_new (sample_span 5))) (\<lambda>span. sp_id span = 5) \<and>
     isl (mock_fetch_latest_span mock_client_new)"

definition test_mock_fetch_state_sync_events :: bool where
  "test_mock_fetch_state_sync_events \<longleftrightarrow>
     (let client = with_events mock_client_new [sample_event 1, sample_event 2, sample_event 3] in
      ok_and (mock_fetch_state_sync_events client 2 (- 1) 10)
        (\<lambda>result. length result = 2 \<and> sse_id (result ! 0) = 2 \<and> sse_id (result ! 1) = 3) \<and>
      ok_and (mock_fetch_state_sync_events client 1 (- 1) 2) (\<lambda>limited. length limited = 2))"

definition test_mock_fetch_checkpoint :: bool where
  "test_mock_fetch_checkpoint \<longleftrightarrow>
     (let client = with_checkpoint mock_client_new 1 (sample_checkpoint 1) in
      ok_and (mock_fetch_checkpoint client 1) (\<lambda>cp. cp_start_block cp = 1000) \<and>
      isl (mock_fetch_checkpoint client 99))"

definition test_mock_fetch_milestone_latest :: bool where
  "test_mock_fetch_milestone_latest \<longleftrightarrow>
     ok_and (mock_fetch_milestone_latest (with_latest_milestone mock_client_new sample_milestone))
       (\<lambda>ms. ms_end_block ms = 255) \<and>
     isl (mock_fetch_milestone_latest mock_client_new)"

definition test_builder_chaining :: bool where
  "test_builder_chaining \<longleftrightarrow>
     (let c1 = with_span mock_client_new 1 (sample_span 1);
          c2 = with_span c1 2 (sample_span 2);
          c3 = with_latest_span c2 (sample_span 2);
          c4 = with_events c3 [sample_event 1];
          c5 = with_checkpoint c4 1 (sample_checkpoint 1);
          client = with_latest_milestone c5 sample_milestone
      in \<not> isl (mock_fetch_span client 1) \<and> \<not> isl (mock_fetch_span client 2) \<and>
         \<not> isl (mock_fetch_latest_span client) \<and>
         ok_and (mock_fetch_state_sync_events client 1 (- 1) 10) (\<lambda>es. length es = 1) \<and>
         \<not> isl (mock_fetch_checkpoint client 1) \<and> \<not> isl (mock_fetch_milestone_latest client))"

section \<open>heimdall-client: cache.rs\<close>

definition cache_span :: "u64 \<Rightarrow> span" where
  "cache_span i = make_span i 6400"

definition cache_of :: "nat \<Rightarrow> u64 list \<Rightarrow> span_cache" where
  "cache_of max_size ids = foldl (\<lambda>c i. span_cache_insert c (cache_span i)) (span_cache_new max_size) ids"

definition test_insert_and_get :: bool where
  "test_insert_and_get \<longleftrightarrow>
     (let cache = cache_of 4 [1] in
      span_cache_contains cache 1 \<and> span_cache_len cache = 1 \<and>
      (case snd (span_cache_get cache 1) of
         None \<Rightarrow> False | Some retrieved \<Rightarrow> sp_id retrieved = 1 \<and> sp_start_block retrieved = 6400))"

definition test_get_missing_returns_none :: bool where
  "test_get_missing_returns_none \<longleftrightarrow> snd (span_cache_get (cache_of 4 []) 42) = None"

definition test_eviction_when_over_max_size :: bool where
  "test_eviction_when_over_max_size \<longleftrightarrow>
     (let cache = cache_of 2 [1, 2]; cache3 = span_cache_insert cache (cache_span 3) in
      span_cache_len cache = 2 \<and> span_cache_len cache3 = 2 \<and> \<not> span_cache_contains cache3 1 \<and>
      span_cache_contains cache3 2 \<and> span_cache_contains cache3 3)"

definition test_access_promotes_entry :: bool where
  "test_access_promotes_entry \<longleftrightarrow>
     (let cache = fst (span_cache_get (cache_of 2 [1, 2]) 1); cache3 = span_cache_insert cache (cache_span 3) in
      span_cache_contains cache3 1 \<and> \<not> span_cache_contains cache3 2 \<and> span_cache_contains cache3 3)"

definition test_insert_duplicate_updates_in_place :: bool where
  "test_insert_duplicate_updates_in_place \<longleftrightarrow> span_cache_len (cache_of 4 [1, 1]) = 1"

definition test_is_empty :: bool where
  "test_is_empty \<longleftrightarrow> span_cache_is_empty (cache_of 4 [])"

section \<open>bor-storage\<close>

definition test_derive_bor_receipt_gas_returns_regular_cumulative :: bool where
  "test_derive_bor_receipt_gas_returns_regular_cumulative \<longleftrightarrow>
     derive_bor_receipt_gas 1000000 0 = 1000000 \<and> derive_bor_receipt_gas 5000000 3 = 5000000"

definition test_derive_bor_receipt_gas_zero :: bool where
  "test_derive_bor_receipt_gas_zero \<longleftrightarrow> derive_bor_receipt_gas 0 0 = 0"

definition test_is_bor_system_tx_last_txs_are_bor :: bool where
  "test_is_bor_system_tx_last_txs_are_bor \<longleftrightarrow>
     is_bor_system_tx True 0 10 2 = Inr False \<and> is_bor_system_tx True 7 10 2 = Inr False \<and>
     is_bor_system_tx True 8 10 2 = Inr True \<and> is_bor_system_tx True 9 10 2 = Inr True"

definition test_is_bor_system_tx_single_bor_tx :: bool where
  "test_is_bor_system_tx_single_bor_tx \<longleftrightarrow>
     is_bor_system_tx True 3 5 1 = Inr False \<and> is_bor_system_tx True 4 5 1 = Inr True"

definition test_is_bor_system_tx_all_bor :: bool where
  "test_is_bor_system_tx_all_bor \<longleftrightarrow>
     is_bor_system_tx True 0 3 3 = Inr True \<and> is_bor_system_tx True 1 3 3 = Inr True \<and>
     is_bor_system_tx True 2 3 3 = Inr True"

definition span_store_put_get_roundtrip :: bool where
  "span_store_put_get_roundtrip \<longleftrightarrow>
     get_span span_db_new 1 = None \<and> latest_span_id span_db_new = None \<and>
     (let store = put_span span_db_new (sample_span 1) in
      (case get_span store 1 of
         None \<Rightarrow> False
       | Some retrieved \<Rightarrow> sp_id retrieved = 1 \<and> sp_start_block retrieved = 6400 \<and> sp_end_block retrieved = 12799) \<and>
      latest_span_id store = Some 1)"

definition span_store_latest_tracks_max :: bool where
  "span_store_latest_tracks_max \<longleftrightarrow>
     latest_span_id (put_span (put_span (put_span span_db_new (sample_span 3)) (sample_span 1)) (sample_span 5)) = Some 5"

definition snapshot_store_put_get_roundtrip :: bool where
  "snapshot_store_put_get_roundtrip \<longleftrightarrow>
     (let hash = b256_of_byte 0xff in
      db_get_snapshot snapshot_db_new hash = None \<and>
      db_get_snapshot (db_put_snapshot snapshot_db_new (hash, [1, 2, 3, 4, 5])) hash = Some [1, 2, 3, 4, 5])"

definition snapshot_store_overwrite :: bool where
  "snapshot_store_overwrite \<longleftrightarrow>
     (let hash = b256_of_byte 0x01;
          store = db_put_snapshot (db_put_snapshot snapshot_db_new (hash, [1, 2, 3])) (hash, [4, 5, 6])
      in db_get_snapshot store hash = Some [4, 5, 6])"

definition test_table_names :: bool where
  "test_table_names \<longleftrightarrow>
     BOR_SPANS_TABLE = ''BorSpans'' \<and> BOR_SNAPSHOTS_TABLE = ''BorSnapshots'' \<and>
     BOR_RECEIPTS_TABLE = ''BorReceipts'' \<and> BOR_TX_LOOKUP_TABLE = ''BorTxLookup'' \<and> BOR_META_TABLE = ''BorMeta''"

definition test_all_tables_count :: bool where
  "test_all_tables_count \<longleftrightarrow> length BOR_TABLES = 5"

definition test_meta_keys :: bool where
  "test_meta_keys \<longleftrightarrow>
     META_LAST_SPAN_ID = 0 \<and> META_LAST_SNAPSHOT_BLOCK = 1 \<and> META_LAST_BOR_RECEIPT_BLOCK = 2"

definition test_pre_madhugiri_separate_storage :: bool where
  "test_pre_madhugiri_separate_storage \<longleftrightarrow> brs_separate (store_block_receipts 1000000 0)"

definition test_post_madhugiri_standard_storage :: bool where
  "test_post_madhugiri_standard_storage \<longleftrightarrow> \<not> brs_separate (store_block_receipts 80084800 0)"

definition test_receipt_root_excludes_bor_pre_madhugiri :: bool where
  "test_receipt_root_excludes_bor_pre_madhugiri \<longleftrightarrow>
     (let regular = [b256_of_byte 0x01, b256_of_byte 0x02]; bor = b256_of_byte 0xff;
          root_hashes = compute_receipt_root regular (Some bor) 1000000
      in length root_hashes = 2 \<and> bor \<notin> set root_hashes)"

definition test_receipt_root_includes_statesynctx_post_madhugiri :: bool where
  "test_receipt_root_includes_statesynctx_post_madhugiri \<longleftrightarrow>
     (let regular = [b256_of_byte 0x01, b256_of_byte 0x02]; bor = b256_of_byte 0xff;
          root_hashes = compute_receipt_root regular (Some bor) 80084800
      in length root_hashes = 3 \<and> bor \<in> set root_hashes)"

definition test_boundary_block_80084800 :: bool where
  "test_boundary_block_80084800 \<longleftrightarrow>
     is_post_madhugiri 80084800 \<and> \<not> is_post_madhugiri 80084799 \<and>
     (let block_hash = b256_of_byte 0xab;
          storage_pre = store_block_receipts 80084799 block_hash;
          storage_post = store_block_receipts 80084800 block_hash
      in brs_separate storage_pre \<and> \<not> brs_separate storage_post \<and> brs_key storage_pre \<noteq> brs_key storage_post)"

definition test_no_bor_receipt :: bool where
  "test_no_bor_receipt \<longleftrightarrow> length (compute_receipt_root [b256_of_byte 0x01] None 80084800) = 1"

definition test_key_contains_prefix_and_data :: bool where
  "test_key_contains_prefix_and_data \<longleftrightarrow>
     (let storage = store_block_receipts 50000000 (b256_of_byte 0xab) in
      length (brs_key storage) = 18 + 8 + 32 \<and> take 18 (brs_key storage) = BOR_RECEIPT_PREFIX)"

definition test_receipt_key_format :: bool where
  "test_receipt_key_format \<longleftrightarrow>
     (let hash = b256_of_byte 0xab; key = bor_receipt_key 100 hash in
      length key = 18 + 8 + 32 \<and> take 18 key = BOR_RECEIPT_PREFIX \<and>
      take 8 (drop 18 key) = u64_be_bytes 100 \<and> drop 26 key = b256_bytes hash)"

definition test_receipt_key_different_hashes :: bool where
  "test_receipt_key_different_hashes \<longleftrightarrow>
     bor_receipt_key 100 (b256_of_byte 0x01) \<noteq> bor_receipt_key 100 (b256_of_byte 0x02)"

definition test_receipt_key_different_block_numbers :: bool where
  "test_receipt_key_different_block_numbers \<longleftrightarrow>
     bor_receipt_key 100 (b256_of_byte 0xab) \<noteq> bor_receipt_key 200 (b256_of_byte 0xab)"

definition test_derived_tx_hash_is_keccak_of_key :: "(bytes \<Rightarrow> b256) \<Rightarrow> bool" where
  "test_derived_tx_hash_is_keccak_of_key keccak \<longleftrightarrow>
     (let hash = b256_of_byte 0xab in derived_bor_tx_hash keccak 100 hash = keccak (bor_receipt_key 100 hash))"

definition test_block_number_is_big_endian_8_byte :: bool where
  "test_block_number_is_big_endian_8_byte \<longleftrightarrow>
     take 8 (drop 18 (bor_receipt_key 0 0)) = [0, 0, 0, 0, 0, 0, 0, 0] \<and>
     take 8 (drop 18 (bor_receipt_key 1 0)) = [0, 0, 0, 0, 0, 0, 0, 1] \<and>
     take 8 (drop 18 (bor_receipt_key 256 0)) = [0, 0, 0, 0, 0, 0, 1, 0]"

section \<open>bor-evm\<close>

definition KZG_ADDRESS :: address where
  "KZG_ADDRESS = 0x000000000000000000000000000000000000000a"

definition commit_span_addresses :: bool where
  "commit_span_addresses \<longleftrightarrow>
     commit_span_to_address = 0x0000000000000000000000000000000000001000 \<and>
     commit_span_caller = 0xfffffffffffffffffffffffffffffffffffffffe"

definition state_receive_addresses :: bool where
  "state_receive_addresses \<longleftrightarrow>
     state_receive_to_address = 0x0000000000000000000000000000000000001001 \<and>
     state_receive_caller = 0xfffffffffffffffffffffffffffffffffffffffe"

definition test_commit_span_abi_encoding :: "abi_encoder \<Rightarrow> bool" where
  "test_commit_span_abi_encoding abi \<longleftrightarrow>
     (let data = commit_span_call_data abi \<lparr>csc_span_id = 42, csc_validator_bytes = replicate 20 0xaa\<rparr> in
      take 4 data = COMMIT_SPAN_SELECTOR \<and> 4 + 32 < length data)"

definition test_state_receive_abi_encoding :: "abi_encoder \<Rightarrow> bool" where
  "test_state_receive_abi_encoding abi \<longleftrightarrow>
     (let data = state_receive_call_data abi \<lparr>src_state_id = 100, src_data = ascii_bytes ''state_data''\<rparr> in
      take 4 data = ON_STATE_RECEIVE_SELECTOR \<and> 4 + 64 < length data)"

definition test_commit_span_caller_is_system :: bool where
  "test_commit_span_caller_is_system \<longleftrightarrow> commit_span_caller = SYSTEM_ADDRESS"

definition test_state_receive_caller_is_system :: bool where
  "test_state_receive_caller_is_system \<longleftrightarrow> state_receive_caller = SYSTEM_ADDRESS"

definition test_prepare_state_sync_calls_empty :: bool where
  "test_prepare_state_sync_calls_empty \<longleftrightarrow> prepare_state_sync_calls [] = []"

definition test_prepare_state_sync_calls_multiple :: bool where
  "test_prepare_state_sync_calls_multiple \<longleftrightarrow>
     (let calls = prepare_state_sync_calls
        [(1, ascii_bytes ''event1''), (2, ascii_bytes ''event2''), (3, ascii_bytes ''event3'')]
      in length calls = 3 \<and> src_state_id (calls ! 0) = 1 \<and> src_state_id (calls ! 1) = 2 \<and>
         src_state_id (calls ! 2) = 3)"

definition test_commit_span_gas_zero :: "abi_encoder \<Rightarrow> bool" where
  "test_commit_span_gas_zero abi \<longleftrightarrow>
     take 4 (commit_span_call_data abi \<lparr>csc_span_id = 1, csc_validator_bytes = replicate 40 0xbb\<rparr>) =
       COMMIT_SPAN_SELECTOR"

definition test_precompiles_pre_napoli :: bool where
  "test_precompiles_pre_napoli \<longleftrightarrow>
     (let addrs = bor_precompile_addresses (mainnet_block Napoli - 1) in
      length addrs = 9 \<and> list_all (\<lambda>i. word_of_nat i \<in> set addrs) [1..<10])"

definition test_precompiles_post_napoli :: bool where
  "test_precompiles_post_napoli \<longleftrightarrow>
     (let addrs = bor_precompile_addresses (mainnet_block Napoli) in
      length addrs = 10 \<and> P256_VERIFY_ADDRESS \<in> set addrs)"

definition test_no_kzg_precompile :: bool where
  "test_no_kzg_precompile \<longleftrightarrow>
     KZG_ADDRESS \<notin> set (bor_precompile_addresses 0) \<and>
     KZG_ADDRESS \<notin> set (bor_precompile_addresses (mainnet_block Napoli)) \<and>
     KZG_ADDRESS \<notin> set (bor_precompile_addresses (- 1))"

definition test_normal_block_no_system_txs :: bool where
  "test_normal_block_no_system_txs \<longleftrightarrow>
     returns_and (plan_system_txs 5 16 6400 False [])
       (\<lambda>plan. \<not> stp_execute_commit_span plan \<and> stp_state_sync_events plan = [])"

definition test_sprint_boundary_block :: bool where
  "test_sprint_boundary_block \<longleftrightarrow>
     returns_and (plan_system_txs 16 16 6400 False [(1, ascii_bytes ''event1''), (2, ascii_bytes ''event2'')])
       (\<lambda>plan. \<not> stp_execute_commit_span plan \<and> length (stp_state_sync_events plan) = 2)"

definition test_span_boundary_block :: bool where
  "test_span_boundary_block \<longleftrightarrow>
     returns_and (plan_system_txs 6400 16 6400 True [(1, ascii_bytes ''event1'')])
       (\<lambda>plan. stp_execute_commit_span plan \<and> length (stp_state_sync_events plan) = 1)"

definition test_empty_block_valid :: "abi_encoder \<Rightarrow> bool" where
  "test_empty_block_valid abi \<longleftrightarrow>
     returns_and (plan_system_txs 7 16 6400 False []) (\<lambda>plan.
       \<not> stp_execute_commit_span plan \<and> stp_state_sync_events plan = [] \<and>
       (let result = execute_system_tx_plan abi plan None None in
        \<not> str_commit_span_executed result \<and> str_state_sync_count result = 0 \<and> str_system_calls result = []))"

definition test_execution_order :: "abi_encoder \<Rightarrow> bool" where
  "test_execution_order abi \<longleftrightarrow>
     returns_and (plan_system_txs 6400 16 6400 True [(10, ascii_bytes ''sync1''), (11, ascii_bytes ''sync2'')]) (\<lambda>plan.
       let result = execute_system_tx_plan abi plan (Some 1) (Some (replicate 20 0xaa)) in
       str_commit_span_executed result \<and> str_state_sync_count result = 2 \<and> length (str_system_calls result) = 3 \<and>
       scr_to (str_system_calls result ! 0) = commit_span_to_address \<and>
       scr_to (str_system_calls result ! 1) = state_receive_to_address \<and>
       scr_to (str_system_calls result ! 2) = state_receive_to_address)"

definition test_block_zero_not_boundary :: bool where
  "test_block_zero_not_boundary \<longleftrightarrow>
     returns_and (plan_system_txs 0 16 6400 True [(1, ascii_bytes ''x'')])
       (\<lambda>plan. \<not> stp_execute_commit_span plan \<and> stp_state_sync_events plan = [])"

definition test_sprint_boundary_no_events :: "abi_encoder \<Rightarrow> bool" where
  "test_sprint_boundary_no_events abi \<longleftrightarrow>
     returns_and (plan_system_txs 32 16 6400 False []) (\<lambda>plan.
       \<not> stp_execute_commit_span plan \<and> stp_state_sync_events plan = [] \<and>
       str_state_sync_count (execute_system_tx_plan abi plan None None) = 0)"

definition test_span_boundary_no_pending_span :: bool where
  "test_span_boundary_no_pending_span \<longleftrightarrow>
     returns_and (plan_system_txs 6400 16 6400 False []) (\<lambda>plan. \<not> stp_execute_commit_span plan)"

section \<open>bor-payload\<close>

definition make_config :: "u64 \<Rightarrow> payload_config" where
  "make_config block_number =
     \<lparr>pc_block_number = block_number, pc_gas_limit = 30000000, pc_sprint_size = 16, pc_span_size = 6400,
      pc_producer = address_of_byte 0xaa, pc_timestamp = 1000, pc_has_pending_span = False,
      pc_pending_span_id = None, pc_pending_validator_bytes = None, pc_pending_state_sync_events = []\<rparr>"

definition make_user_tx :: "u64 \<Rightarrow> payload_tx" where
  "make_user_tx gas = \<lparr>pt_data = ascii_bytes ''user_tx'', pt_gas_used = gas, pt_is_system_tx = False\<rparr>"

definition test_payload_normal_block :: "abi_encoder \<Rightarrow> bool" where
  "test_payload_normal_block abi \<longleftrightarrow>
     returns_and (build_payload True abi (make_config 5) [make_user_tx 21000, make_user_tx 21000]) (\<lambda>payload.
       length (bp_transactions payload) = 2 \<and> bp_total_gas_used payload = 42000 \<and>
       \<not> bp_commit_span_executed payload \<and> bp_state_sync_count payload = 0)"

definition test_payload_sprint_boundary :: "abi_encoder \<Rightarrow> bool" where
  "test_payload_sprint_boundary abi \<longleftrightarrow>
     (let config = (make_config 16)\<lparr>pc_pending_state_sync_events :=
        [(1, ascii_bytes ''sync1''), (2, ascii_bytes ''sync2'')]\<rparr>
      in returns_and (build_payload True abi config [make_user_tx 21000]) (\<lambda>payload.
        length (bp_transactions payload) = 3 \<and> bp_total_gas_used payload = 21000 \<and>
        \<not> bp_commit_span_executed payload \<and> bp_state_sync_count payload = 2 \<and>
        map pt_is_system_tx (bp_transactions payload) = [False, True, True]))"

definition test_payload_span_boundary :: "abi_encoder \<Rightarrow> bool" where
  "test_payload_span_boundary abi \<longleftrightarrow>
     (let config = (make_config 6400)\<lparr>pc_has_pending_span := True, pc_pending_span_id := Some 1,
        pc_pending_validator_bytes := Some (replicate 20 0xbb),
        pc_pending_state_sync_events := [(10, ascii_bytes ''event'')]\<rparr>
      in returns_and (build_payload True abi config [make_user_tx 50000]) (\<lambda>payload.
        length (bp_transactions payload) = 3 \<and> bp_commit_span_executed payload \<and> bp_state_sync_count payload = 1 \<and>
        map pt_is_system_tx (bp_transactions payload) = [False, True, True]))"

definition test_payload_respects_gas_limit :: "abi_encoder \<Rightarrow> bool" where
  "test_payload_respects_gas_limit abi \<longleftrightarrow>
     (let config = (make_config 5)\<lparr>pc_gas_limit := 50000\<rparr>
      in returns_and (build_payload True abi config [make_user_tx 30000, make_user_tx 30000]) (\<lambda>payload.
        length (bp_transactions payload) = 1 \<and> bp_total_gas_used payload = 30000))"

definition test_payload_post_madhugiri :: "abi_encoder \<Rightarrow> bool" where
  "test_payload_post_madhugiri abi \<longleftrightarrow>
     (let config = (make_config 80084816)\<lparr>pc_pending_state_sync_events :=
        [(999, ascii_bytes ''post_madhugiri_sync'')]\<rparr>
      in returns_and (build_payload True abi config [make_user_tx 21000]) (\<lambda>payload.
        length (bp_transactions payload) = 2 \<and> bp_state_sync_count payload = 1 \<and>
        pt_is_system_tx (last (bp_transactions payload))))"

definition test_payload_empty_block :: "abi_encoder \<Rightarrow> bool" where
  "test_payload_empty_block abi \<longleftrightarrow>
     returns_and (build_payload True abi (make_config 5) [])
       (\<lambda>payload. bp_transactions payload = [] \<and> bp_total_gas_used payload = 0)"

section \<open>bor-rpc\<close>

definition test_root_hash_empty :: "(bytes \<Rightarrow> b256) \<Rightarrow> bool" where
  "test_root_hash_empty keccak \<longleftrightarrow> compute_root_hash keccak [] = Inr 0"

definition test_root_hash_single :: "(bytes \<Rightarrow> b256) \<Rightarrow> bool" where
  "test_root_hash_single keccak \<longleftrightarrow>
     (let hash = b256_of_byte 0xab in compute_root_hash keccak [hash] = Inr hash)"

definition test_root_hash_two :: "(bytes \<Rightarrow> b256) \<Rightarrow> bool" where
  "test_root_hash_two keccak \<longleftrightarrow>
     (let h1 = b256_of_byte 0x01; h2 = b256_of_byte 0x02 in
      compute_root_hash keccak [h1, h2] = Inr (keccak (b256_bytes h1 @ b256_bytes h2)))"

definition test_invalid_block_range_error :: bool where
  "test_invalid_block_range_error \<longleftrightarrow>
     str_contains (show_bor_rpc_error (InvalidBlockRange 100 50)) ''start 100 > end 50''"

section \<open>bor-node\<close>

definition test_mainnet_config :: bool where
  "test_mainnet_config \<longleftrightarrow> config_chain_id config_mainnet = 137 \<and> nc_network config_mainnet = Mainnet"

definition test_amoy_config :: bool where
  "test_amoy_config \<longleftrightarrow> config_chain_id config_amoy = 80002 \<and> nc_network config_amoy = Amoy"

definition node_test_validator_set :: validator_set where
  "node_test_validator_set = \<lparr>vs_validators = [sample_validator 1 0xaa], vs_proposer = None\<rparr>"

definition test_node :: "bor_node_config \<Rightarrow> panic + test_spec bor_node" where
  "test_node config = bor_node_new test_build () (Inr ()) config"

definition test_node_builder_compiles :: bool where
  "test_node_builder_compiles \<longleftrightarrow> returns_and (test_node config_amoy) (\<lambda>node. node_chain_id node = 80002)"

definition test_node_mainnet :: bool where
  "test_node_mainnet \<longleftrightarrow> returns_and (test_node config_mainnet) (\<lambda>node. node_chain_id node = 137)"

definition test_snapshot_roundtrip ::
    "(bor_snapshot \<Rightarrow> string + bytes) \<Rightarrow> (bytes \<Rightarrow> string + bor_snapshot) \<Rightarrow> bool" where
  "test_snapshot_roundtrip to_vec from_slice \<longleftrightarrow>
     (let hash = b256_of_byte 0xab; snapshot = snapshot_new 100 hash node_test_validator_set in
      returns_and (test_node config_amoy) (\<lambda>node.
      returns_and (node_put_snapshot to_vec node hash snapshot) (\<lambda>node'.
      case node_get_snapshot from_slice node' hash of
        Inr (Some retrieved) \<Rightarrow>
          sn_number retrieved = 100 \<and> length (vs_validators (sn_validator_set retrieved)) = 1
      | _ \<Rightarrow> False)))"

definition test_snapshot_not_found :: "(bytes \<Rightarrow> string + bor_snapshot) \<Rightarrow> bool" where
  "test_snapshot_not_found from_slice \<longleftrightarrow>
     returns_and (test_node config_amoy) (\<lambda>node. node_get_snapshot from_slice node 0 = Inr None)"

section \<open>The tests pass\<close>

lemmas mock_eval = with_span_def mock_client_new_def mock_fetch_span_def ok_or_def hm_get_def hm_insert_def
  with_latest_span_def mock_fetch_latest_span_def with_events_def mock_fetch_state_sync_events_def
  with_checkpoint_def mock_fetch_checkpoint_def with_latest_milestone_def mock_fetch_milestone_latest_def
  sample_span_def sample_event_def sample_checkpoint_def sample_milestone_def ok_and_def Let_def

lemma mock_tests:
  "test_mock_fetch_span" "test_mock_fetch_latest_span" "test_mock_fetch_state_sync_events"
  "test_mock_fetch_checkpoint" "test_mock_fetch_milestone_latest" "test_builder_chaining"
  by (simp_all add: test_mock_fetch_span_def test_mock_fetch_latest_span_def test_mock_fetch_state_sync_events_def
      test_mock_fetch_checkpoint_def test_mock_fetch_milestone_latest_def test_builder_chaining_def mock_eval
      word_le_nat_alt)

lemmas cache_eval = cache_of_def cache_span_def make_span_def span_cache_new_def span_cache_insert_def
  span_cache_contains_def span_cache_len_def span_cache_get_def span_cache_touch_def span_cache_is_empty_def
  hm_contains_def hm_get_def hm_insert_def hm_remove_def vec_remove_def Let_def

lemma cache_tests:
  "test_insert_and_get" "test_get_missing_returns_none" "test_eviction_when_over_max_size"
  "test_access_promotes_entry" "test_insert_duplicate_updates_in_place" "test_is_empty"
  by (simp_all add: test_insert_and_get_def test_get_missing_returns_none_def test_eviction_when_over_max_size_def
      test_access_promotes_entry_def test_insert_duplicate_updates_in_place_def test_is_empty_def cache_eval)

lemma gas_tests:
  "test_derive_bor_receipt_gas_returns_regular_cumulative" "test_derive_bor_receipt_gas_zero"
  "test_is_bor_system_tx_last_txs_are_bor" "test_is_bor_system_tx_single_bor_tx" "test_is_bor_system_tx_all_bor"
  by (simp_all add: test_derive_bor_receipt_gas_returns_regular_cumulative_def test_derive_bor_receipt_gas_zero_def
      test_is_bor_system_tx_last_txs_are_bor_def test_is_bor_system_tx_single_bor_tx_def
      test_is_bor_system_tx_all_bor_def derive_bor_receipt_gas_def is_bor_system_tx_def usize_sub_def)

lemma store_tests:
  "span_store_put_get_roundtrip" "span_store_latest_tracks_max" "snapshot_store_put_get_roundtrip"
  "snapshot_store_overwrite"
  by (simp_all add: span_store_put_get_roundtrip_def span_store_latest_tracks_max_def
      snapshot_store_put_get_roundtrip_def snapshot_store_overwrite_def get_span_def put_span_def latest_span_id_def
      span_db_new_def snapshot_db_new_def db_get_snapshot_def db_put_snapshot_def hm_get_def hm_insert_def
      sample_span_def Let_def max_def word_le_nat_alt)

lemma table_tests: "test_table_names" "test_all_tables_count" "test_meta_keys"
  by (simp_all add: test_table_names_def test_all_tables_count_def test_meta_keys_def BOR_TABLES_def
      BOR_SPANS_TABLE_def BOR_SNAPSHOTS_TABLE_def BOR_RECEIPTS_TABLE_def BOR_TX_LOOKUP_TABLE_def BOR_META_TABLE_def
      META_LAST_SPAN_ID_def META_LAST_SNAPSHOT_BLOCK_def META_LAST_BOR_RECEIPT_BLOCK_def)

lemma receipt_tests:
  "test_pre_madhugiri_separate_storage" "test_post_madhugiri_standard_storage"
  "test_receipt_root_excludes_bor_pre_madhugiri" "test_receipt_root_includes_statesynctx_post_madhugiri"
  "test_no_bor_receipt"
  by (simp_all add: test_pre_madhugiri_separate_storage_def test_post_madhugiri_standard_storage_def
      test_receipt_root_excludes_bor_pre_madhugiri_def test_receipt_root_includes_statesynctx_post_madhugiri_def
      test_no_bor_receipt_def store_block_receipts_def compute_receipt_root_def is_post_madhugiri_iff Let_def)

text \<open>The parts of a key.\<close>

lemma receipt_key_parts:
  "take 18 (bor_receipt_key n h) = BOR_RECEIPT_PREFIX" "take 8 (drop 18 (bor_receipt_key n h)) = u64_be_bytes n"
  "drop 26 (bor_receipt_key n h) = b256_bytes h"
  by (simp_all add: bor_receipt_key_def u64_be_bytes_def)

lemma b256_bytes_of_byte [simp]: "b256_bytes (b256_of_byte b) = replicate 32 b"
  using be_bytes_be_value [of "replicate 32 b"] by (simp add: b256_bytes_def unat_of_byte)

lemma receipt_keys_differ:
  "u64_be_bytes n \<noteq> u64_be_bytes m \<or> b256_bytes h \<noteq> b256_bytes k \<Longrightarrow> bor_receipt_key n h \<noteq> bor_receipt_key m k"
  by (metis receipt_key_parts(2,3))

lemma u64_bytes_unfold: "u64_be_bytes n = be_bytes (Suc (Suc (Suc (Suc (Suc (Suc (Suc (Suc 0)))))))) (unat n)"
proof -
  have "(8 :: nat) = Suc (Suc (Suc (Suc (Suc (Suc (Suc (Suc 0)))))))" by simp
  then show ?thesis by (simp only: u64_be_bytes_def)
qed

lemma number_bytes:
  "u64_be_bytes 0 = [0, 0, 0, 0, 0, 0, 0, 0]" "u64_be_bytes 1 = [0, 0, 0, 0, 0, 0, 0, 1]"
  "u64_be_bytes 256 = [0, 0, 0, 0, 0, 0, 1, 0]" "u64_be_bytes 100 = [0, 0, 0, 0, 0, 0, 0, 100]"
  "u64_be_bytes 200 = [0, 0, 0, 0, 0, 0, 0, 200]"
  "u64_be_bytes 80084799 = [0, 0, 0, 0, 4, 197, 255, 63]" "u64_be_bytes 80084800 = [0, 0, 0, 0, 4, 197, 255, 64]"
  by (simp_all add: u64_bytes_unfold)

lemma receipt_key_tests:
  "test_boundary_block_80084800" "test_key_contains_prefix_and_data" "test_receipt_key_format"
  "test_receipt_key_different_hashes" "test_receipt_key_different_block_numbers"
  "test_derived_tx_hash_is_keccak_of_key keccak" "test_block_number_is_big_endian_8_byte"
  by (simp_all add: test_boundary_block_80084800_def test_key_contains_prefix_and_data_def test_receipt_key_format_def
      test_receipt_key_different_hashes_def test_receipt_key_different_block_numbers_def
      test_derived_tx_hash_is_keccak_of_key_def test_block_number_is_big_endian_8_byte_def derived_bor_tx_hash_def
      store_block_receipts_def is_post_madhugiri_iff receipt_key_parts receipt_keys_differ number_bytes Let_def)

lemma system_call_tests:
  "commit_span_addresses" "state_receive_addresses" "test_commit_span_caller_is_system"
  "test_state_receive_caller_is_system" "test_prepare_state_sync_calls_empty"
  "test_prepare_state_sync_calls_multiple" "test_commit_span_gas_zero abi"
  by (simp_all add: commit_span_addresses_def state_receive_addresses_def test_commit_span_caller_is_system_def
      test_state_receive_caller_is_system_def test_prepare_state_sync_calls_empty_def
      test_prepare_state_sync_calls_multiple_def test_commit_span_gas_zero_def commit_span_to_address_def
      commit_span_caller_def state_receive_to_address_def state_receive_caller_def BOR_VALIDATOR_SET_ADDRESS_def
      STATE_RECEIVER_ADDRESS_def SYSTEM_ADDRESS_def prepare_state_sync_calls_def commit_span_call_data_def
      COMMIT_SPAN_SELECTOR_def)

text \<open>The ABI encodes two words and the length of the bytes, and the bytes in whole words.\<close>

lemma abi_tests:
  "(\<And>i bs. 96 \<le> length (abi i bs)) \<Longrightarrow> test_commit_span_abi_encoding abi \<and> test_state_receive_abi_encoding abi"
  by (simp add: test_commit_span_abi_encoding_def test_state_receive_abi_encoding_def commit_span_call_data_def
      state_receive_call_data_def COMMIT_SPAN_SELECTOR_def ON_STATE_RECEIVE_SELECTOR_def less_le_trans [of _ 96])

lemma precompile_tests: "test_precompiles_pre_napoli" "test_precompiles_post_napoli" "test_no_kzg_precompile"
  by (simp_all add: test_precompiles_pre_napoli_def test_precompiles_post_napoli_def test_no_kzg_precompile_def
      bor_precompile_addresses_def be_value_snoc be_value_zeros upt_rec KZG_ADDRESS_def P256_VERIFY_ADDRESS_def Let_def
      word_le_nat_alt)

lemmas plan_eval = plan_system_txs_def is_boundary_def u64_rem_def execute_system_tx_plan_def
  commit_span_record_def state_receive_record_def returns_and_def Let_def

lemma plan_tests:
  "test_normal_block_no_system_txs" "test_sprint_boundary_block" "test_span_boundary_block"
  "test_block_zero_not_boundary" "test_span_boundary_no_pending_span"
  by (simp_all add: test_normal_block_no_system_txs_def test_sprint_boundary_block_def test_span_boundary_block_def
      test_block_zero_not_boundary_def test_span_boundary_no_pending_span_def plan_eval)

lemma execute_plan_tests:
  "test_empty_block_valid abi" "test_execution_order abi" "test_sprint_boundary_no_events abi"
  by (simp_all add: test_empty_block_valid_def test_execution_order_def test_sprint_boundary_no_events_def plan_eval)

lemma payload_tests:
  "test_payload_normal_block abi" "test_payload_sprint_boundary abi" "test_payload_span_boundary abi"
  "test_payload_respects_gas_limit abi" "test_payload_post_madhugiri abi" "test_payload_empty_block abi"
  by (simp_all add: test_payload_normal_block_def test_payload_sprint_boundary_def test_payload_span_boundary_def
      test_payload_respects_gas_limit_def test_payload_post_madhugiri_def test_payload_empty_block_def
      build_payload_def make_config_def make_user_tx_def u64_add_def plan_eval system_payload_tx_def)

lemma rpc_tests: "test_root_hash_empty keccak" "test_root_hash_single keccak" "test_root_hash_two keccak"
  using compute_root_hash_tree [of "[b256_of_byte 1, b256_of_byte 2]" 1 keccak]
  by (simp_all add: test_root_hash_empty_def test_root_hash_single_def test_root_hash_two_def compute_root_hash_def
      index_of_def node_def Let_def)

lemma rpc_error_test: "test_invalid_block_range_error"
proof -
  have "show_u64 100 = ''100''" "show_u64 50 = ''50''"
    by (simp_all add: show_u64_def show_nat.simps digit_char_def char_of_eq_iff)
  then show ?thesis unfolding test_invalid_block_range_error_def by (intro str_contains_end) simp
qed

lemmas node_eval = test_node_def bor_node_new_def config_amoy_def config_mainnet_def config_chain_id_def
  node_chain_id_def MAINNET_CHAIN_ID_def returns_and_def

lemma node_tests:
  "test_mainnet_config" "test_amoy_config" "test_node_builder_compiles" "test_node_mainnet"
  "test_snapshot_not_found from_slice"
  by (simp_all add: test_mainnet_config_def test_amoy_config_def test_node_builder_compiles_def test_node_mainnet_def
      test_snapshot_not_found_def node_eval genesis_eqs node_get_snapshot_def db_get_snapshot_def snapshot_db_new_def
      hm_get_def)

lemma node_snapshot_test:
  assumes "\<And>s. \<exists>bs. to_vec s = Inr bs \<and> from_slice bs = Inr s"
  shows "test_snapshot_roundtrip to_vec from_slice"
proof -
  let ?snap = "snapshot_new 100 (b256_of_byte 0xab) node_test_validator_set"
  obtain bs where "to_vec ?snap = Inr bs" "from_slice bs = Inr ?snap" using assms by blast
  then show ?thesis
    by (simp add: test_snapshot_roundtrip_def node_eval genesis_eqs node_put_snapshot_def node_get_snapshot_def
        snapshot_encode_def snapshot_decode_def db_put_snapshot_def db_get_snapshot_def snapshot_db_new_def
        hm_get_def hm_insert_def snapshot_new_def node_test_validator_set_def)
qed

end
