(* ===== verification/Consensus_Chain.thy ===== *)
theory Consensus_Chain
  imports Consensus_Policy
begin

text \<open>
  Chains of blocks on the consensus engine: exactly which sequences of signers it lets through,
  across spans with different validator sets; that a chain sealed by the validators in turn is
  accepted; how many blocks a coalition of validators can sign; and how a second block of the
  same height makes the engine forget a signer. How a producer writes its seal is taken from
  the round-trip test of \<open>bor-consensus/src/seal.rs\<close>.
\<close>

section \<open>Chains\<close>

definition chain_calls :: "(header \<times> 'tx block_body) list \<Rightarrow> 'tx engine_call list" where
  "chain_calls blocks = map (\<lambda>(h, b). CallPreExecution h b) blocks"

text \<open>A signed block: its number, its signer and the validators it is checked against.\<close>

type_synonym signed_block = "u64 \<times> address \<times> address list"

abbreviation sb_number :: "signed_block \<Rightarrow> nat" where
  "sb_number x \<equiv> unat (fst x)"

abbreviation sb_signer :: "signed_block \<Rightarrow> address" where
  "sb_signer x \<equiv> fst (snd x)"

abbreviation sb_window :: "signed_block \<Rightarrow> nat" where
  "sb_window x \<equiv> length (snd (snd x)) div 2 + 1"

definition signed_block_of ::
    "('sig, 'tx) env \<Rightarrow> bor_consensus \<Rightarrow> header \<times> 'tx block_body \<Rightarrow> signed_block \<Rightarrow> bool" where
  "signed_block_of E e block x \<longleftrightarrow>
     fst x = hd_number (fst block) \<and> block_signer E (fst block) (snd block) = Inr (sb_signer x) \<and>
     (\<exists>s. span_cache_look (bc_span_cache e) (fst x div 6400) = Some s \<and> snd (snd x) = authorized_signers s)"

text \<open>
  When the last of some blocks may follow the others: its signer is a validator, and between
  each earlier block of that signer and this one there is a block, possibly this one, whose
  own window no longer reaches back to the earlier one.
\<close>

definition may_follow :: "signed_block list \<Rightarrow> signed_block \<Rightarrow> bool" where
  "may_follow bs x \<longleftrightarrow>
     sb_signer x \<in> set (snd (snd x)) \<and>
     (\<forall>i<length bs. sb_signer (bs ! i) = sb_signer x \<longrightarrow>
        (\<exists>y\<in>set (drop (Suc i) bs @ [x]). sb_number (bs ! i) + sb_window y < sb_number y))"

definition signable :: "signed_block list \<Rightarrow> bool" where
  "signable bs \<longleftrightarrow> (\<forall>j<length bs. may_follow (take j bs) (bs ! j))"

section \<open>Lemmas: the history along a chain\<close>

definition chain_history :: "signed_block list \<Rightarrow> history" where
  "chain_history bs = rev (map (\<lambda>(n, a, vs). (n, a, length vs)) bs)"

lemma chain_history_simps [simp]:
  "chain_history [] = []" "chain_history (bs @ [(n, a, vs)]) = (n, a, length vs) # chain_history bs"
  by (simp_all add: chain_history_def)

lemma signable_snoc [simp]: "signable (bs @ [x]) \<longleftrightarrow> signable bs \<and> may_follow bs x"
proof -
  have "may_follow (take j (bs @ [x])) ((bs @ [x]) ! j) \<longleftrightarrow>
      (if j = length bs then may_follow bs x else may_follow (take j bs) (bs ! j))" if "j < Suc (length bs)" for j
    using that by (auto simp: nth_append)
  then show ?thesis by (auto simp: signable_def less_Suc_eq)
qed

lemma signable_Nil [simp]: "signable []"
  by (simp add: signable_def)

lemma remembered_chain:
  assumes "sorted_wrt (<) (map fst bs)"
  shows "remembered (chain_history bs) k = Some a \<longleftrightarrow>
     (\<exists>i<length bs. fst (bs ! i) = k \<and> sb_signer (bs ! i) = a \<and>
        (\<forall>y\<in>set (drop (Suc i) bs). sb_number y \<le> unat k + sb_window y))"
  using assms
proof (induction bs rule: rev_induct)
  case Nil
  then show ?case by simp
next
  case (snoc x bs)
  obtain n b vs where x: "x = (n, b, vs)" by (cases x)
  have old: "fst (bs ! i) < n" if "i < length bs" for i
    using snoc.prems that by (auto simp: x sorted_wrt_append)
  have IH: "remembered (chain_history bs) k = Some a \<longleftrightarrow>
      (\<exists>i<length bs. fst (bs ! i) = k \<and> sb_signer (bs ! i) = a \<and>
        (\<forall>y\<in>set (drop (Suc i) bs). sb_number y \<le> unat k + sb_window y))"
    using snoc.prems by (intro snoc.IH) (simp add: sorted_wrt_append)
  let ?P = "\<lambda>i. fst ((bs @ [x]) ! i) = k \<and> sb_signer ((bs @ [x]) ! i) = a \<and>
        (\<forall>y\<in>set (drop (Suc i) (bs @ [x])). sb_number y \<le> unat k + sb_window y)"
  have split: "(\<exists>i<length (bs @ [x]). ?P i) \<longleftrightarrow> (\<exists>i<length bs. ?P i) \<or> (k = n \<and> a = b)"
    by (auto simp: less_Suc_eq x)
  have "?P i \<longleftrightarrow> fst (bs ! i) = k \<and> sb_signer (bs ! i) = a \<and>
      (\<forall>y\<in>set (drop (Suc i) bs). sb_number y \<le> unat k + sb_window y) \<and> unat n \<le> unat k + (length vs div 2 + 1)"
    if "i < length bs" for i
    using that by (auto simp: nth_append x)
  then have ex: "(\<exists>i<length bs. ?P i) \<longleftrightarrow> remembered (chain_history bs) k = Some a \<and> unat n \<le> unat k + (length vs div 2 + 1)"
    unfolding IH by blast
  have none: "\<not> (\<exists>i<length bs. ?P i)" if "k = n"
    using old that by (fastforce simp: nth_append)
  show ?case
  proof (cases "k = n")
    case True
    then show ?thesis unfolding split using none by (auto simp: x)
  next
    case False
    then show ?thesis unfolding split ex by (auto simp: x)
  qed
qed

lemma signed_recently_chain:
  assumes "sorted_wrt (<) (map fst (bs @ [(n, a, vs)]))"
  shows "a \<in> set vs \<and> \<not> signed_recently (chain_history bs) (length vs) n a \<longleftrightarrow> may_follow bs (n, a, vs)"
proof -
  have srt: "sorted_wrt (<) (map fst bs)" and old: "\<And>i. i < length bs \<Longrightarrow> sb_number (bs ! i) < unat n"
    using assms by (auto simp: sorted_wrt_append word_less_nat_alt)
  let ?near = "\<lambda>i y. sb_number y \<le> sb_number (bs ! i) + sb_window y"
  have "signed_recently (chain_history bs) (length vs) n a \<longleftrightarrow>
      (\<exists>k. unat n - (length vs div 2 + 1) \<le> unat k \<and> unat k < unat n \<and>
        (\<exists>i<length bs. fst (bs ! i) = k \<and> sb_signer (bs ! i) = a \<and> (\<forall>y\<in>set (drop (Suc i) bs). sb_number y \<le> unat k + sb_window y)))"
    unfolding signed_recently_iff signed_in_window_def sign_window_def remembered_chain [OF srt] by (rule refl)
  also have "\<dots> \<longleftrightarrow> (\<exists>i<length bs. sb_signer (bs ! i) = a \<and> (\<forall>y\<in>set (drop (Suc i) bs @ [(n, a, vs)]). ?near i y))"
  proof -
    have "unat n - (length vs div 2 + 1) \<le> sb_number (bs ! i) \<and> sb_number (bs ! i) < unat n \<and>
        (\<forall>y\<in>set (drop (Suc i) bs). ?near i y) \<longleftrightarrow> (\<forall>y\<in>set (drop (Suc i) bs @ [(n, a, vs)]). ?near i y)"
      if "i < length bs" for i
      using old [OF that] by (auto simp: le_diff_conv)
    then show ?thesis by blast
  qed
  finally show ?thesis by (auto simp: may_follow_def not_le)
qed

lemma lru_get_stable: "snd (lru_get i (fst (lru_get j xs))) = snd (lru_get i xs)"
proof (cases "i = j")
  case True
  then show ?thesis by (simp add: lru_get_again)
next
  case False
  show ?thesis
  proof (cases "find (\<lambda>s. sp_id s = j) xs")
    case None
    then show ?thesis by (simp add: lru_get_def)
  next
    case (Some t)
    then have "sp_id t = j" by (auto simp: find_Some_iff)
    with False have "find (\<lambda>s. sp_id s = i) (filter (\<lambda>s. sp_id s \<noteq> j) xs @ [t]) = find (\<lambda>s. sp_id s = i) xs"
      by (induction xs) auto
    with Some show ?thesis by (simp add: lru_get_def split: option.split)
  qed
qed

text \<open>One block of the policy, with its span known.\<close>

lemma policy_block:
  assumes "po_log p = chain_history bs" and "sorted_wrt (<) (map fst (bs @ [(hd_number h, a, vs)]))"
    and "block_signer E h b = Inr a"
    and "snd (lru_get (hd_number h div 6400) (po_spans p)) = Some s" and "vs = authorized_signers s"
  shows "snd (policy_pre_execution E p h b) = Inr () \<longleftrightarrow> may_follow bs (hd_number h, a, vs)"
    and "may_follow bs (hd_number h, a, vs) \<Longrightarrow> po_log (fst (policy_pre_execution E p h b)) = chain_history (bs @ [(hd_number h, a, vs)])"
    and "snd (lru_get i (po_spans (fst (policy_pre_execution E p h b)))) = snd (lru_get i (po_spans p))"
  using assms signed_recently_chain [OF assms(2)]
  by (auto simp: policy_pre_execution_def Let_def split_beta lru_get_stable)

lemma policy_chain:
  assumes "po_log p = []" and "sorted_wrt (<) (map fst bs)"
    and "list_all2 (\<lambda>(h, b) x. fst x = hd_number h \<and> block_signer E h b = Inr (sb_signer x) \<and>
      (\<exists>s. snd (lru_get (hd_number h div 6400) (po_spans p)) = Some s \<and> snd (snd x) = authorized_signers s)) blocks bs"
  shows "(\<forall>r\<in>set (snd (run_calls (policy_apply E) p (chain_calls blocks))). r = Inr ()) \<longleftrightarrow> signable bs"
    and "signable bs \<Longrightarrow> po_log (fst (run_calls (policy_apply E) p (chain_calls blocks))) = chain_history bs"
    and "signable bs \<Longrightarrow> snd (lru_get i (po_spans (fst (run_calls (policy_apply E) p (chain_calls blocks))))) = snd (lru_get i (po_spans p))"
proof -
  let ?run = "\<lambda>blocks. run_calls (policy_apply E) p (chain_calls blocks)"
  have "((\<forall>r\<in>set (snd (?run blocks)). r = Inr ()) \<longleftrightarrow> signable bs) \<and>
      (signable bs \<longrightarrow> po_log (fst (?run blocks)) = chain_history bs \<and>
         (\<forall>i. snd (lru_get i (po_spans (fst (?run blocks)))) = snd (lru_get i (po_spans p))))"
    using assms(2,3)
  proof (induction bs arbitrary: blocks rule: rev_induct)
    case Nil
    then show ?case using assms(1) by (simp add: chain_calls_def)
  next
    case (snoc x bs)
    obtain n a vs where x: "x = (n, a, vs)" by (cases x)
    obtain pre h b s where blocks: "blocks = pre @ [(h, b)]" and n: "n = hd_number h" and a: "block_signer E h b = Inr a"
        and s: "snd (lru_get (hd_number h div 6400) (po_spans p)) = Some s" "vs = authorized_signers s"
        and pre: "list_all2 (\<lambda>(h, b) x. fst x = hd_number h \<and> block_signer E h b = Inr (sb_signer x) \<and>
          (\<exists>s. snd (lru_get (hd_number h div 6400) (po_spans p)) = Some s \<and> snd (snd x) = authorized_signers s)) pre bs"
      using snoc.prems(2) by (auto simp: x list_all2_append2 list_all2_Cons2)
    note IH = snoc.IH [OF _ pre]
    have run: "?run blocks = (let q = fst (?run pre); r = policy_pre_execution E q h b in (fst r, snd (?run pre) @ [snd r]))"
      by (simp add: blocks chain_calls_def run_calls_append split_beta Let_def)
    show ?case
    proof (cases "signable bs")
      case False
      then show ?thesis using IH snoc.prems(1) by (auto simp: run Let_def sorted_wrt_append)
    next
      case True
      let ?q = "fst (?run pre)"
      have q: "po_log ?q = chain_history bs" "snd (lru_get (hd_number h div 6400) (po_spans ?q)) = Some s"
          "\<forall>i. snd (lru_get i (po_spans ?q)) = snd (lru_get i (po_spans p))" "\<forall>r\<in>set (snd (?run pre)). r = Inr ()"
        using IH snoc.prems(1) True s(1) by (auto simp: sorted_wrt_append)
      note blk = policy_block [OF q(1) snoc.prems(1) [unfolded x n] a q(2) s(2)]
      from blk q True show ?thesis by (simp add: run x n Let_def)
    qed
  qed
  then show "(\<forall>r\<in>set (snd (?run blocks)). r = Inr ()) \<longleftrightarrow> signable bs"
    and "signable bs \<Longrightarrow> po_log (fst (?run blocks)) = chain_history bs"
    and "signable bs \<Longrightarrow> snd (lru_get i (po_spans (fst (?run blocks)))) = snd (lru_get i (po_spans p))" by blast+
qed


text \<open>An engine that was only given spans.\<close>

definition engine_with_spans :: "span list \<Rightarrow> bor_consensus" where
  "engine_with_spans spans = foldl engine_insert_span bor_consensus_new spans"

lemma engine_with_spans_policy:
  assumes "\<forall>s\<in>set spans. length (authorized_signers s) < 2 ^ 64"
  obtains p where "policy_rel (engine_with_spans spans) p" and "po_log p = []"
proof -
  have "\<exists>p'. policy_rel (foldl engine_insert_span e spans) p' \<and> po_log p' = po_log p"
    if "policy_rel e p" for e p
    using assms that
  proof (induction spans arbitrary: e p)
    case (Cons s spans)
    then show ?case using Cons.IH [OF _ policy_rel_insert [of e p s]] by simp
  qed auto
  from this [OF policy_rel_new] that show thesis by (auto simp: engine_with_spans_def policy_new_def)
qed

lemma chain_outcome:
  assumes "\<forall>s\<in>set spans. length (authorized_signers s) < 2 ^ 64"
    and "list_all2 (signed_block_of E (engine_with_spans spans)) blocks bs"
    and "sorted_wrt (<) (map fst bs)"
  shows "(\<forall>r\<in>set (snd (run_calls (engine_apply E) (engine_with_spans spans) (chain_calls blocks))). r = Inr ()) \<longleftrightarrow>
     signable bs"
proof -
  obtain p where rel: "policy_rel (engine_with_spans spans) p" and log: "po_log p = []"
    by (rule engine_with_spans_policy [OF assms(1)])
  have "\<forall>call\<in>set (chain_calls blocks). sized_call call" by (auto simp: chain_calls_def)
  from engine_policy.run_simulates(2) [OF rel this, of E]
  have same: "snd (run_calls (engine_apply E) (engine_with_spans spans) (chain_calls blocks)) =
      snd (run_calls (policy_apply E) p (chain_calls blocks))" .
  have "list_all2 (\<lambda>(h, b) x. fst x = hd_number h \<and> block_signer E h b = Inr (sb_signer x) \<and>
      (\<exists>s. snd (lru_get (hd_number h div 6400) (po_spans p)) = Some s \<and> snd (snd x) = authorized_signers s)) blocks bs"
    using assms(2) by (rule list_all2_mono) (auto simp: signed_block_of_def policy_look [OF rel])
  from policy_chain(1) [OF log assms(3) this] same show ?thesis by simp
qed

text \<open>With one validator set all along, only the block itself has to be out of the window.\<close>

lemma signable_one_set:
  assumes "\<forall>x\<in>set bs. snd (snd x) = vs" and "sorted_wrt (<) (map fst bs)"
  shows "signable bs \<longleftrightarrow> (\<forall>x\<in>set bs. sb_signer x \<in> set vs) \<and>
     sorted_wrt (\<lambda>x y. sb_signer x = sb_signer y \<longrightarrow> sb_number x + (length vs div 2 + 1) < sb_number y) bs"
  using assms
proof (induction bs rule: rev_induct)
  case Nil
  then show ?case by simp
next
  case (snoc x bs)
  let ?w = "length vs div 2 + 1"
  have x: "snd (snd x) = vs" using snoc.prems(1) by simp
  have less: "sb_number y < sb_number x" if "y \<in> set bs" for y
    using snoc.prems(2) that by (auto simp: sorted_wrt_append word_less_nat_alt)
  have "(\<exists>y\<in>set (drop (Suc i) bs @ [x]). sb_number (bs ! i) + sb_window y < sb_number y) \<longleftrightarrow>
      sb_number (bs ! i) + ?w < sb_number x" for i
  proof
    assume "\<exists>y\<in>set (drop (Suc i) bs @ [x]). sb_number (bs ! i) + sb_window y < sb_number y"
    then obtain y where y: "y \<in> set (drop (Suc i) bs @ [x])" "sb_number (bs ! i) + sb_window y < sb_number y" by blast
    then have "y = x \<or> y \<in> set bs" by (auto dest: in_set_dropD)
    then have "sb_number y \<le> sb_number x" and "snd (snd y) = vs" using less snoc.prems(1) x by fastforce+
    with y(2) show "sb_number (bs ! i) + ?w < sb_number x" by simp
  qed (simp add: x)
  then have "may_follow bs x \<longleftrightarrow> sb_signer x \<in> set vs \<and>
      (\<forall>y\<in>set bs. sb_signer y = sb_signer x \<longrightarrow> sb_number y + ?w < sb_number x)"
    unfolding may_follow_def x by (auto simp: all_set_conv_all_nth)
  with snoc show ?case by (auto simp: sorted_wrt_append)
qed


section \<open>Sealing\<close>

text \<open>
  A producer's key store: the signature of a hash, in the 65 bytes that \<open>ecrecover_seal\<close> takes,
  and the address of a key. What is assumed of it is that recovery inverts signing.
\<close>

record 'key signer =
  sg_sign :: "'key \<Rightarrow> b256 \<Rightarrow> bytes"
  sg_address :: "'key \<Rightarrow> address"

definition signer_laws :: "'sig crypto \<Rightarrow> 'key signer \<Rightarrow> bool" where
  "signer_laws C S \<longleftrightarrow>
     (\<forall>key m. length (sg_sign S key m) = 65 \<and>
        (\<exists>sig. sig_from_raw C (sg_sign S key m) = Inr sig \<and> sig_recover C sig m = Inr (sg_address S key)))"

text \<open>Hash the header with a placeholder seal, sign the hash, put the signature in its place.\<close>

definition seal_header :: "'sig crypto \<Rightarrow> 'key signer \<Rightarrow> 'key \<Rightarrow> header \<Rightarrow> header" where
  "seal_header C S key h =
     (let extra = hd_extra_data h; seal_hash = compute_seal_hash C h
      in h\<lparr>hd_extra_data := take (length extra - EXTRADATA_SEAL_LEN) extra @ sg_sign S key seal_hash\<rparr>)"

lemma seal_header_number [simp]: "hd_number (seal_header C S key h) = hd_number h"
  by (simp add: seal_header_def Let_def)

lemma seal_header_hash:
  assumes "signer_laws C S" and "97 \<le> length (hd_extra_data h)"
  shows "compute_seal_hash C (seal_header C S key h) = compute_seal_hash C h"
  using assms
  by (simp add: seal_header_def Let_def compute_seal_hash_def seal_preimage_def seal_list_content_def
      trimmed_extra_def signer_laws_def)

lemma sealed_recovers:
  "signer_laws C S \<Longrightarrow> ecrecover_seal C m (sg_sign S key m) = Inr (sg_address S key)"
  by (auto simp: signer_laws_def ecrecover_seal_def bindR_eq_Inr intro!: exI)

definition well_laid :: "header \<times> 'tx block_body \<Rightarrow> bool" where
  "well_laid block \<longleftrightarrow>
     97 \<le> length (hd_extra_data (fst block)) \<and> 20 dvd length (hd_extra_data (fst block)) - 97 \<and>
     \<not> has_ommers (snd block) \<and> bb_withdrawals (snd block) = None"

lemma sealed_signer:
  assumes "signer_laws (en_crypto E) S" and "well_laid (h, b)"
  shows "block_signer E (seal_header (en_crypto E) S key h) b = Inr (sg_address S key)"
proof -
  let ?C = "en_crypto E" and ?bs = "hd_extra_data h"
  let ?seal = "sg_sign S key (compute_seal_hash ?C h)"
  have seal: "length ?seal = 65" using assms(1) by (simp add: signer_laws_def)
  have extra: "hd_extra_data (seal_header ?C S key h) = take (length ?bs - 65) ?bs @ ?seal"
    by (simp add: seal_header_def Let_def)
  have len: "length (hd_extra_data (seal_header ?C S key h)) = length ?bs" "97 \<le> length ?bs" "20 dvd length ?bs - 97"
    using seal assms(2) by (simp_all add: extra well_laid_def)
  obtain ed where ed: "extra_data_parse (hd_extra_data (seal_header ?C S key h)) = Inr ed" "ed_seal ed = ?seal"
  proof (cases rule: extra_data_parse_cases [of "hd_extra_data (seal_header ?C S key h)"])
    case (ok ed)
    then have "ed_seal ed = ?seal" using len seal by (simp add: extra)
    with ok(1) that show ?thesis by blast
  next
    case (bad e)
    with len show ?thesis by simp
  qed
  show ?thesis
    using assms ed by (simp add: block_signer_def well_laid_def Let_def seal_header_hash sealed_recovers)
qed

lemma mod_apart: "(a :: nat) < b \<Longrightarrow> a mod c = b mod c \<Longrightarrow> a + c \<le> b"
  using mod_eq_dvd_iff_nat [of a b c] dvd_imp_le [of c "b - a"] by fastforce

text \<open>The validator whose turn a block is.\<close>

lemma in_turn_apart:
  assumes "distinct vs" and "3 \<le> length vs" and "(n :: u64) < m"
    and "vs ! (unat n mod length vs) = vs ! (unat m mod length vs)"
  shows "unat n + (length vs div 2 + 1) < unat m"
proof -
  have "0 < length vs" using assms(2) by linarith
  then have "unat n mod length vs = unat m mod length vs"
    using assms(1,4) by (simp add: nth_eq_iff_index_eq)
  then have "unat n + length vs \<le> unat m" using assms(3) by (intro mod_apart) (simp_all add: word_less_nat_alt)
  with assms(2) show ?thesis by linarith
qed

lemma in_turn_difficulty:
  assumes "distinct vs" and "vs \<noteq> []"
  shows "is_inturn (vs ! (unat n mod length vs)) vs n"
    and "calculate_difficulty (vs ! (unat n mod length vs)) vs n = word_of_nat (length vs)"
  using assms position_distinct [OF assms(1), of "unat n mod length vs"]
  by (simp_all add: is_inturn_def calculate_difficulty_def diff_inturn_def Let_def)

section \<open>Properties\<close>

text \<open>
  C3. Exactly which chains pass: on an engine that holds the spans of some blocks with increasing
  numbers, of one span or of several with different validator sets, all of them are accepted
  if and only if each signer is a validator of its block's span and, for each earlier block of
  that signer, some block after it and up to this one lies beyond the window of its own
  validator set counted from the earlier block.
\<close>

theorem chain_accepted_iff:
  assumes "\<forall>s\<in>set spans. length (authorized_signers s) < 2 ^ 64"
    and "list_all2 (signed_block_of E (engine_with_spans spans)) blocks bs"
    and "sorted_wrt (<) (map fst bs)"
  shows "(\<forall>r\<in>set (snd (run_calls (engine_apply E) (engine_with_spans spans) (chain_calls blocks))). r = Inr ()) \<longleftrightarrow>
     (\<forall>j<length bs. fst (snd (bs ! j)) \<in> set (snd (snd (bs ! j))) \<and>
        (\<forall>i<j. fst (snd (bs ! i)) = fst (snd (bs ! j)) \<longrightarrow>
           (\<exists>m. i < m \<and> m \<le> j \<and>
              unat (fst (bs ! i)) + (length (snd (snd (bs ! m))) div 2 + 1) < unat (fst (bs ! m)))))"
proof -
  have mem: "(\<exists>y\<in>set (drop (Suc i) (take j bs) @ [bs ! j]). P y) \<longleftrightarrow> (\<exists>m. i < m \<and> m \<le> j \<and> P (bs ! m))"
    if "i < j" "j < length bs" for i j P
  proof -
    have "drop (Suc i) (take j bs) @ [bs ! j] = drop (Suc i) (take (Suc j) bs)"
      using that by (simp add: take_Suc_conv_app_nth)
    also have "\<dots> = map ((!) bs) [Suc i..<Suc j]"
      using that by (intro nth_equalityI) (simp_all del: upt_Suc)
    finally have "set (drop (Suc i) (take j bs) @ [bs ! j]) = (!) bs ` {Suc i..<Suc j}"
      by (simp only: set_map set_upt)
    then show ?thesis by (auto simp: Suc_le_eq less_Suc_eq_le)
  qed
  show ?thesis
    unfolding chain_outcome [OF assms] signable_def may_follow_def by (simp add: mem del: set_append)
qed

text \<open>
  C4. An honest chain is never halted: where the engine holds the spans of some blocks, all with the
  same three or more distinct validators, and each block, in increasing order and with any gaps,
  is sealed by the validator whose turn its number is, the engine accepts every block, and each has the
  highest difficulty there is. Assumed of the curve library is that recovery inverts signing.
\<close>

theorem honest_chain_accepted:
  assumes "signer_laws (en_crypto E) S" and "\<forall>s\<in>set spans. length (authorized_signers s) < 2 ^ 64"
    and "vs = map (sg_address S) keys" and "distinct vs" and "3 \<le> length keys"
    and "\<forall>block\<in>set blocks. well_laid block \<and>
      (\<exists>s. span_cache_look (bc_span_cache (engine_with_spans spans)) (hd_number (fst block) div 6400) = Some s \<and>
         authorized_signers s = vs)"
    and "sorted_wrt (<) (map (\<lambda>(h, b). hd_number h) blocks)"
    and "turn = (\<lambda>h. keys ! (unat (hd_number h) mod length keys))"
  shows "(\<forall>r\<in>set (snd (run_calls (engine_apply E) (engine_with_spans spans)
       (chain_calls (map (\<lambda>(h, b). (seal_header (en_crypto E) S (turn h) h, b)) blocks)))). r = Inr ()) \<and>
     (\<forall>(h, b)\<in>set blocks. is_inturn (sg_address S (turn h)) vs (hd_number h) \<and>
        calculate_difficulty (sg_address S (turn h)) vs (hd_number h) = word_of_nat (length keys))"
proof
  let ?bs = "map (\<lambda>(h, b). (hd_number h, sg_address S (turn h), vs)) blocks"
  let ?blocks = "map (\<lambda>(h, b). (seal_header (en_crypto E) S (turn h) h, b)) blocks"
  have len: "length vs = length keys" and ne: "vs \<noteq> []" and three: "3 \<le> length vs" using assms(3,5) by auto
  have turn: "sg_address S (turn h) = vs ! (unat (hd_number h) mod length vs)" for h
    using ne by (simp add: assms(3,8))
  have signed: "list_all2 (signed_block_of E (engine_with_spans spans)) ?blocks ?bs"
    unfolding list_all2_map1 list_all2_map2 list_all2_same
    using assms(6) sealed_signer [OF assms(1)] by (auto simp: signed_block_of_def)
  have "map fst ?bs = map (\<lambda>(h, b). hd_number h) blocks" by auto
  with assms(7) have srt: "sorted_wrt (<) (map fst ?bs)" by (simp only:)
  have one: "\<forall>x\<in>set ?bs. snd (snd x) = vs" by auto
  have "sorted_wrt (\<lambda>x y. sb_signer x = sb_signer y \<longrightarrow> sb_number x + (length vs div 2 + 1) < sb_number y) ?bs"
    using assms(7) unfolding sorted_wrt_map
    by (rule sorted_wrt_mono_rel [rotated]) (use in_turn_apart [OF assms(4) three] in \<open>auto simp: turn\<close>)
  moreover have "\<forall>x\<in>set ?bs. sb_signer x \<in> set vs" using ne by (auto simp: turn)
  ultimately have "signable ?bs" using signable_one_set [OF one srt] by blast
  then show "\<forall>r\<in>set (snd (run_calls (engine_apply E) (engine_with_spans spans) (chain_calls ?blocks))). r = Inr ()"
    using chain_outcome [OF assms(2) signed srt] by blast
  show "\<forall>(h, b)\<in>set blocks. is_inturn (sg_address S (turn h)) vs (hd_number h) \<and>
      calculate_difficulty (sg_address S (turn h)) vs (hd_number h) = word_of_nat (length keys)"
    using in_turn_difficulty [OF assms(4) ne] by (auto simp: turn len)
qed

text \<open>
  C5. No coalition can take over a chain that grows in order: in every history of the engine,
  however long, in which the blocks accepted with a cached span come in strictly increasing
  number and those spans have at least \<open>c\<close> validators each, the validators of a set \<open>F\<close> sign
  at most \<open>card F\<close> times \<open>len / (c / 2 + 2)\<close>, rounded up, of the blocks of any stretch of \<open>len\<close>
  numbers; so of any \<open>c / 2 + 2\<close> blocks in a row they sign at most \<open>card F\<close>. With two blocks of
  one height the bound fails: the second takes the place of the first in the log.
\<close>

theorem coalition_bound:
  assumes "reachable E c e log hist" and "finite F"
  shows "card {(k, a) \<in> set log. a \<in> F \<and> lo \<le> unat k \<and> unat k < lo + len} \<le>
     card F * ((len + (c div 2 + 1)) div (c div 2 + 2))"
proof -
  let ?d = "c div 2 + 2" and ?B = "{(k, a) \<in> set log. a \<in> F \<and> lo \<le> unat k \<and> unat k < lo + len}"
  let ?f = "\<lambda>(k :: u64, a :: address). (a, (unat k - lo) div ?d)"
  have apart: "unat k + ?d \<le> unat n" if "(k, a) \<in> set log" "(n, a) \<in> set log" "k < n" for k n a
    using reachable_inv [OF assms(1)] that by (fastforce simp: engine_inv_def sign_window_def)
  have differ: "(unat k - lo) div ?d \<noteq> (unat n - lo) div ?d"
    if "(k, a) \<in> set log" "(n, a) \<in> set log" "k < n" "lo \<le> unat k" for k n a
  proof -
    have "(unat k - lo + ?d) div ?d \<le> (unat n - lo) div ?d"
      using apart [OF that(1-3)] that(4) by (intro div_le_mono) linarith
    moreover have "(unat k - lo + ?d) div ?d = (unat k - lo) div ?d + 1" by (rule div_add_self2) simp
    ultimately show ?thesis by linarith
  qed
  have "k = n" if "(k, a) \<in> ?B" "(n, a) \<in> ?B" "(unat k - lo) div ?d = (unat n - lo) div ?d" for k n a
    using differ [of k a n] differ [of n a k] that by (cases k n rule: linorder_cases) auto
  then have "inj_on ?f ?B" by (intro inj_onI) auto
  moreover have "?f ` ?B \<subseteq> F \<times> {..<(len + (c div 2 + 1)) div ?d}"
  proof clarsimp
    fix k a
    assume "lo \<le> unat (k :: u64)" and "unat k < lo + len"
    then have "(unat k - lo + ?d) div ?d \<le> (len + (c div 2 + 1)) div ?d" by (intro div_le_mono) linarith
    moreover have "(unat k - lo + ?d) div ?d = (unat k - lo) div ?d + 1" by (rule div_add_self2) simp
    ultimately show "(unat k - lo) div Suc (Suc (c div 2)) < Suc (len + c div 2) div Suc (Suc (c div 2))" by simp
  qed
  ultimately have "card ?B \<le> card (F \<times> {..<(len + (c div 2 + 1)) div ?d})"
    using assms(2) by (intro card_inj_on_le) auto
  then show ?thesis by (simp add: card_cartesian_product)
qed

text \<open>
  C6. A second block of one height erases a signer: after a block of \<open>a\<close> at height \<open>n\<close> the engine
  refuses the next block of \<open>a\<close>; but where it then accepts a block of another validator at the
  same height, which takes the place of the first in the log, it accepts \<open>a\<close> at \<open>n + 1\<close>, although
  \<open>a\<close> signed block \<open>n\<close>.
\<close>

theorem sibling_erases_signer:
  assumes "\<forall>call\<in>set calls. sized_call call"
    and "e = fst (run_calls (engine_apply E) bor_consensus_new calls)"
    and "span_cache_look (bc_span_cache e) (n div 6400) = Some s" and "(n + 1) div 6400 = n div 6400"
    and "hd_number h1 = n" and "hd_number h2 = n" and "hd_number h3 = n + 1"
    and "block_signer E h1 b1 = Inr a" and "block_signer E h2 b2 = Inr b" and "block_signer E h3 b3 = Inr a"
    and "a \<noteq> b"
    and "engine_pre_execution E e h1 b1 = (e1, Inr ())" and "engine_pre_execution E e1 h2 b2 = (e2, Inr ())"
  shows "snd (engine_pre_execution E e1 h3 b3) \<noteq> Inr () \<and> snd (engine_pre_execution E e2 h3 b3) = Inr ()"
proof -
  let ?c = "length (authorized_signers s)"
  have n: "unat (n + 1) = unat n + 1"
  proof -
    have "n + 1 \<noteq> 0"
    proof
      assume "n + 1 = 0"
      then have "n = - 1" by (simp add: eq_neg_iff_add_eq_0)
      with assms(4) show False by simp
    qed
    then show ?thesis using unatSuc [of n] by (simp add: add.commute)
  qed
  obtain p where rel: "policy_rel e p" using called_policy [OF assms(1)] assms(2) by metis
  obtain p1 where p1: "policy_pre_execution E p h1 b1 = (p1, Inr ())" and rel1: "policy_rel e1 p1"
    using policy_pre_execution_sim [OF rel, of E h1 b1] assms(12) by (cases "policy_pre_execution E p h1 b1") auto
  obtain p2 where p2: "policy_pre_execution E p1 h2 b2 = (p2, Inr ())" and rel2: "policy_rel e2 p2"
    using policy_pre_execution_sim [OF rel1, of E h2 b2] assms(13) by (cases "policy_pre_execution E p1 h2 b2") auto
  have s: "snd (lru_get (n div 6400) (po_spans p)) = Some s" using assms(3) policy_look [OF rel] by simp
  note acc1 = accepted_remembered [OF p1 assms(8), unfolded assms(5), OF s]
  have s1: "snd (lru_get (n div 6400) (po_spans p1)) = Some s" by (simp add: acc1(4) lru_get_stable s)
  note acc2 = accepted_remembered [OF p2 assms(9), unfolded assms(6), OF s1]
  have s2: "snd (lru_get (n div 6400) (po_spans p2)) = Some s" by (simp add: acc2(4) lru_get_stable s1)
  have "signed_recently (po_log p1) ?c (n + 1) a"
    unfolding signed_recently_iff signed_in_window_def sign_window_def
    by (rule exI [of _ n]) (simp add: n acc1(1))
  moreover have "\<not> signed_recently (po_log p2) ?c (n + 1) a"
    using acc1(3) assms(11) unfolding signed_recently_iff signed_in_window_def sign_window_def acc2(1) acc1(1)
    by (auto simp: n less_Suc_eq word_unat_eq_iff [of _ n] split: if_splits)
  ultimately have "snd (policy_pre_execution E p1 h3 b3) \<noteq> Inr ()" "snd (policy_pre_execution E p2 h3 b3) = Inr ()"
    using acc1(2) s1 s2 assms(4,7,10) by (auto simp: policy_pre_execution_def Let_def split_beta)
  then show ?thesis by (simp add: policy_pre_execution_sim(2) [OF rel1] policy_pre_execution_sim(2) [OF rel2])
qed

section \<open>Witnesses\<close>

lemma engine_with_789: "engine_with_spans [span_789] = engine_789"
  by (simp add: engine_with_spans_def engine_789_def)

definition demo_signed :: "(u64 \<times> address) list \<Rightarrow> signed_block list" where
  "demo_signed = map (\<lambda>(n, a). (n, a, [7, 8, 9]))"

definition demo_chain :: "(u64 \<times> address) list \<Rightarrow> (header \<times> unit block_body) list" where
  "demo_chain = map (\<lambda>(n, a). (demo_block n a, demo_body))"

lemma demo_chain_signed:
  "\<forall>(n, a)\<in>set xs. n div 6400 = 0 \<Longrightarrow>
   list_all2 (signed_block_of demo_env (engine_with_spans [span_789])) (demo_chain xs) (demo_signed xs)"
  by (auto simp: demo_chain_def demo_signed_def list_all2_map1 list_all2_map2 list_all2_same signed_block_of_def
      demo_signer engine_with_789)

text \<open>Validators 7, 8, 9 and 7 again pass; 7 again after two blocks does not.\<close>

theorem chain_accepted_iff_witness:
  "list_all (\<lambda>r. r = Inr ()) (snd (run_calls (engine_apply demo_env) (engine_with_spans [span_789])
      (chain_calls (demo_chain [(10, 7), (11, 8), (12, 9), (13, 7)])))) \<and>
   \<not> list_all (\<lambda>r. r = Inr ()) (snd (run_calls (engine_apply demo_env) (engine_with_spans [span_789])
      (chain_calls (demo_chain [(10, 7), (12, 7)]))))"
  unfolding list_all_iff
proof
  have small: "\<forall>s\<in>set [span_789]. length (authorized_signers s) < 2 ^ 64" by simp
  let ?xs = "[(10, 7), (11, 8), (12, 9), (13, 7)] :: (u64 \<times> address) list"
  show "\<forall>r\<in>set (snd (run_calls (engine_apply demo_env) (engine_with_spans [span_789]) (chain_calls (demo_chain ?xs)))). r = Inr ()"
    by (subst chain_accepted_iff [OF small demo_chain_signed]) (auto simp: demo_signed_def less_Suc_eq)
  let ?ys = "[(10, 7), (12, 7)] :: (u64 \<times> address) list"
  show "\<not> (\<forall>r\<in>set (snd (run_calls (engine_apply demo_env) (engine_with_spans [span_789]) (chain_calls (demo_chain ?ys)))). r = Inr ())"
    by (subst chain_accepted_iff [OF small demo_chain_signed])
      (auto simp: demo_signed_def less_Suc_eq le_Suc_eq intro!: exI [of _ "1 :: nat"])
qed

definition demo_keys :: "address signer" where
  "demo_keys = \<lparr>sg_sign = (\<lambda>key m. address_bytes key @ replicate 45 0), sg_address = (\<lambda>key. key)\<rparr>"

lemma demo_keys_laws: "signer_laws (en_crypto demo_env) demo_keys"
proof -
  have "word_of_nat (be_value (address_bytes key)) = key" for key :: address
    using unat_bound [of key] by (simp add: address_bytes_def be_value_be_bytes)
  then show ?thesis by (simp add: signer_laws_def demo_keys_def demo_env_def demo_crypto_def address_bytes_def)
qed

theorem honest_chain_accepted_witness:
  "list_all (\<lambda>r. r = Inr ()) (snd (run_calls (engine_apply demo_env) (engine_with_spans [span_789])
      (chain_calls (map (\<lambda>(h, b). (seal_header (en_crypto demo_env) demo_keys ([7, 8, 9] ! (unat (hd_number h) mod 3)) h, b))
         (demo_chain [(10, 0), (11, 0), (13, 0), (14, 0)])))))"
proof -
  let ?blocks = "demo_chain [(10, 0), (11, 0), (13, 0), (14, 0)]"
  have small: "\<forall>s\<in>set [span_789]. length (authorized_signers s) < 2 ^ 64" by simp
  have laid: "\<forall>block\<in>set ?blocks. well_laid block \<and>
      (\<exists>s. span_cache_look (bc_span_cache (engine_with_spans [span_789])) (hd_number (fst block) div 6400) = Some s \<and>
         authorized_signers s = [7, 8, 9])"
    by (simp add: demo_chain_def well_laid_def demo_body_def has_ommers_def engine_with_789)
      (simp add: demo_block_def address_bytes_def)
  have srt: "sorted_wrt (<) (map (\<lambda>(h, b). hd_number h) ?blocks)" by (simp add: demo_chain_def)
  show ?thesis
    using honest_chain_accepted [OF demo_keys_laws small _ _ _ laid srt refl, of "[7, 8, 9]"]
    by (simp add: demo_keys_def list_all_iff)
qed

theorem coalition_bound_witness:
  "\<exists>e. reachable demo_env 3 e [(10, 8), (13, 8)] [span_789] \<and>
     card {(k, a) \<in> set [(10 :: u64, 8 :: address), (13, 8)]. a \<in> {8} \<and> 10 \<le> unat k \<and> unat k < 10 + 3} \<le> 1"
proof -
  obtain e where r: "reachable demo_env 3 e [(10, 8), (13, 8)] [span_789]" by (rule reachable_two_789)
  from coalition_bound [OF r, of "{8}" 10 3] have
    "card {(k, a) \<in> set [(10 :: u64, 8 :: address), (13, 8)]. a \<in> {8} \<and> 10 \<le> unat k \<and> unat k < 10 + 3} \<le> 1"
    by (simp only: finite.intros card.insert) simp
  with r show ?thesis by blast
qed

theorem sibling_erases_signer_witness:
  "\<exists>e1 e2. engine_pre_execution demo_env engine_789 (demo_block 10 8) demo_body = (e1, Inr ()) \<and>
     engine_pre_execution demo_env e1 (demo_block 10 9) demo_body = (e2, Inr ()) \<and>
     snd (engine_pre_execution demo_env e1 (demo_block 11 8) demo_body) \<noteq> Inr () \<and>
     snd (engine_pre_execution demo_env e2 (demo_block 11 8) demo_body) = Inr ()"
proof -
  have sized: "\<forall>call\<in>set [CallInsertSpan span_789 :: unit engine_call]. sized_call call" by simp
  obtain e1 where e1: "engine_pre_execution demo_env engine_789 (demo_block 10 8) demo_body = (e1, Inr ())"
    by (rule demo_accept [of 10]) simp_all
  let ?calls = "[CallInsertSpan span_789, CallPreExecution (demo_block 10 8) demo_body, CallPreExecution (demo_block 10 9) demo_body]"
  have "snd (run_calls (engine_apply demo_env) bor_consensus_new ?calls) = [Inr (), Inr (), Inr ()]"
    by (subst engine_policy.run_simulates(2) [OF policy_rel_new])
      (simp_all add: policy_new_def policy_pre_execution_def demo_signer lru_insert_def lru_get_def signed_recently_def Let_def)
  then obtain e2 where e2: "engine_pre_execution demo_env e1 (demo_block 10 9) demo_body = (e2, Inr ())"
    using e1 by (auto simp: engine_789_def [symmetric] split_beta Let_def prod_eq_iff)
  show ?thesis
    using e1 e2 sibling_erases_signer [OF sized demo_calls_engine [symmetric] _ _ _ _ _ demo_signer demo_signer demo_signer _ e1 e2, of 10 span_789]
    by simp
qed

end
