(* ===== verification/Tests_Integration.thy ===== *)
theory Tests_Integration
  imports Tests_Node Consensus_Chain
begin

text \<open>
  Integration tests of the crates as predicates on the model: the ports of Go-Bor's validator-set
  and snapshot tests, whose expected values come from the reference implementation, and the
  simulated syncs across hardforks of \<open>bor-node\<close>. Loops over blocks are bounded quantifiers.
  The hashes that a simulated sync compares with themselves are arguments.
\<close>

section \<open>bor-consensus/tests/go\_valset\_port.rs\<close>

definition SIGNER0_ADDR :: address where
  "SIGNER0_ADDR = 0x96C42C56fdb78294F96B0cFa33c92bed7D75F96a"

definition SIGNER1_ADDR :: address where
  "SIGNER1_ADDR = 0x98925BE497f6dFF6A5a33dDA8B5933cA35262d69"

definition SIGNER2_ADDR :: address where
  "SIGNER2_ADDR = 0x648Cf2A5b119E2c04061021834F8f75735B1D36b"

definition SIGNER3_ADDR :: address where
  "SIGNER3_ADDR = 0x168f220B3b313D456eD4797520eFdFA9c57E6C45"

definition port_validator :: "u64 \<Rightarrow> address \<Rightarrow> int \<Rightarrow> validator" where
  "port_validator i signer voting_power =
     \<lparr>v_id = i, v_address = signer, v_voting_power = voting_power, v_signer = signer, v_proposer_priority = 0\<rparr>"

definition go_validators :: "validator list" where
  "go_validators = [port_validator 1 SIGNER0_ADDR 100, port_validator 2 SIGNER1_ADDR 200,
     port_validator 3 SIGNER2_ADDR 300, port_validator 4 SIGNER3_ADDR 400]"

text \<open>Ten rounds of the first \<open>n\<close> validators.\<close>

definition selects :: "nat \<Rightarrow> address list \<Rightarrow> bool" where
  "selects n expected \<longleftrightarrow>
     returns_and (proposer_run True 10 (make_validator_set (take n go_validators))) (\<lambda>(vs, got). got = expected)"

definition test_increment_proposer_priority_one_validator :: bool where
  "test_increment_proposer_priority_one_validator \<longleftrightarrow> selects 1 (replicate 10 SIGNER0_ADDR)"

definition test_increment_proposer_priority_two_validators :: bool where
  "test_increment_proposer_priority_two_validators \<longleftrightarrow>
     (let s0 = SIGNER0_ADDR; s1 = SIGNER1_ADDR in selects 2 [s1, s0, s1, s1, s0, s1, s1, s0, s1, s1])"

definition test_increment_proposer_priority_three_validators :: bool where
  "test_increment_proposer_priority_three_validators \<longleftrightarrow>
     (let s0 = SIGNER0_ADDR; s1 = SIGNER1_ADDR; s2 = SIGNER2_ADDR in
      selects 3 [s2, s1, s2, s0, s1, s2, s2, s1, s2, s0])"

definition test_increment_proposer_priority_four_validators :: bool where
  "test_increment_proposer_priority_four_validators \<longleftrightarrow>
     (let s0 = SIGNER0_ADDR; s1 = SIGNER1_ADDR; s2 = SIGNER2_ADDR; s3 = SIGNER3_ADDR in
      selects 4 [s3, s2, s1, s3, s2, s0, s3, s1, s2, s3])"

definition test_get_validator_by_address_and_index :: bool where
  "test_get_validator_by_address_and_index \<longleftrightarrow>
     (let addrs = [SIGNER0_ADDR, SIGNER1_ADDR, SIGNER2_ADDR, SIGNER3_ADDR] in
      (\<forall>i<4. position (\<lambda>v. v_signer v = addrs ! i) go_validators = Some i \<and>
         v_signer (go_validators ! i) = addrs ! i) \<and>
      position (\<lambda>v. v_signer v = 0) go_validators = None)"

definition has_empty_id :: "validator_set \<Rightarrow> bool" where
  "has_empty_id vs \<longleftrightarrow> list_ex (\<lambda>v. v_id v = 0) (vs_validators vs)"

definition test_check_empty_id :: bool where
  "test_check_empty_id \<longleftrightarrow>
     \<not> has_empty_id (make_validator_set []) \<and>
     \<not> has_empty_id (make_validator_set [port_validator 1 SIGNER0_ADDR 100, port_validator 2 SIGNER1_ADDR 200]) \<and>
     has_empty_id (make_validator_set [port_validator 0 SIGNER0_ADDR 100, port_validator 2 SIGNER1_ADDR 200]) \<and>
     has_empty_id (make_validator_set [port_validator 0 SIGNER0_ADDR 100, port_validator 0 SIGNER1_ADDR 200])"

section \<open>bor-consensus/tests/go\_snapshot\_port.rs\<close>

definition port_validator_set :: "address list \<Rightarrow> validator_set" where
  "port_validator_set addrs =
     \<lparr>vs_validators = map (\<lambda>(i, a). port_validator (word_of_nat i + 1) a 100) (enumerate 0 addrs), vs_proposer = None\<rparr>"

definition port_snapshot_is_authorized :: bool where
  "port_snapshot_is_authorized \<longleftrightarrow>
     (let snap = snapshot_new 100 0 (port_validator_set [1, 2, 3]) in
      (\<forall>v\<in>{1, 2, 3}. snapshot_is_authorized snap v) \<and> \<not> snapshot_is_authorized snap 0xff)"

definition port_snapshot_apply_tracks_recents :: bool where
  "port_snapshot_apply_tracks_recents \<longleftrightarrow>
     (let snap = snapshot_apply (snapshot_apply (snapshot_apply
            (snapshot_new 100 0 (port_validator_set [1, 2, 3])) 101 1) 102 2) 103 3 in
      sn_number snap = 103 \<and> bt_get (sn_recents snap) 101 = Some 1 \<and>
      bt_get (sn_recents snap) 102 = Some 2 \<and> bt_get (sn_recents snap) 103 = Some 3)"

definition port_snapshot_apply_prunes_old_recents :: bool where
  "port_snapshot_apply_prunes_old_recents \<longleftrightarrow>
     (let snap = foldl (\<lambda>s i. snapshot_apply s i ((ucast i - 1) mod 3 + 1))
            (snapshot_new 0 0 (port_validator_set [1, 2, 3])) [1, 2, 3, 4, 5] in
      bt_get (sn_recents snap) 1 = None \<and> bt_get (sn_recents snap) 2 = None)"

definition recents_of :: "(u64 \<times> address) list \<Rightarrow> recents" where
  "recents_of entries = foldl (\<lambda>r (n, a). recents_add_signer r n a) recents_new entries"

definition port_recents_within_window :: bool where
  "port_recents_within_window \<longleftrightarrow>
     (let recents = recents_of [(10, 1), (11, 2), (12, 3)] in
      (\<forall>a\<in>{1, 2, 3}. is_recently_signed recents a 13 6 = Inr True) \<and> is_recently_signed recents 99 13 6 = Inr False)"

definition port_recents_prune :: bool where
  "port_recents_prune \<longleftrightarrow>
     (let recents = recents_prune (recents_of [(1, 1), (2, 2), (5, 3), (6, 1)]) 6 4 in
      is_recently_signed recents 2 7 4 = Inr False \<and> is_recently_signed recents 3 7 4 = Inr True \<and>
      is_recently_signed recents 1 7 4 = Inr True)"

definition port_recents_same_signer :: bool where
  "port_recents_same_signer \<longleftrightarrow>
     (let recents = recents_of [(10, 1), (15, 1)] in
      is_recently_signed recents 1 16 10 = Inr True \<and> is_recently_signed recents 1 17 10 = Inr True \<and>
      is_recently_signed recents 1 22 10 = Inr False)"

definition port_recents_window_boundary :: bool where
  "port_recents_window_boundary \<longleftrightarrow>
     (let recents = recents_of [(5, 1)] in
      is_recently_signed recents 1 11 10 = Inr True \<and> is_recently_signed recents 1 12 10 = Inr False)"

definition port_difficulty_four_rotation :: bool where
  "port_difficulty_four_rotation \<longleftrightarrow>
     (let validators = [1, 2, 3, 4] in
      \<forall>block<12. \<forall>i<4. is_inturn (validators ! i) validators (word_of_nat block) = (i = block mod 4) \<and>
        (i = block mod 4 \<longrightarrow> calculate_difficulty (validators ! i) validators (word_of_nat block) = diff_inturn 4))"

definition port_difficulty_inturn_greater :: bool where
  "port_difficulty_inturn_greater \<longleftrightarrow>
     (\<forall>count\<in>{2..20}. \<forall>distance\<in>{1..<count}. diff_noturn count distance < diff_inturn count)"

definition port_difficulty_noturn_decreases :: bool where
  "port_difficulty_noturn_decreases \<longleftrightarrow>
     (\<forall>count\<in>{3..20}. \<forall>distance\<in>{2..<count}. diff_noturn count distance \<le> diff_noturn count (distance - 1))"

section \<open>bor-node/tests\<close>

definition DELHI_BLOCK :: u64 where
  "DELHI_BLOCK = 38189056"

definition RIO_BLOCK :: u64 where
  "RIO_BLOCK = 77414656"

text \<open>The fork is active from the block on, in the chain specification of the mainnet node.\<close>

definition node_fork_starts_at :: "bor_hardfork \<Rightarrow> u64 \<Rightarrow> bool" where
  "node_fork_starts_at fork block \<longleftrightarrow>
     returns_and (test_node config_mainnet) (\<lambda>node.
       is_bor_fork_active_at_block (bn_chain_spec node) fork block \<and>
       \<not> is_bor_fork_active_at_block (bn_chain_spec node) fork (block - 1))"

definition test_delhi_sprint_size_transition :: bool where
  "test_delhi_sprint_size_transition \<longleftrightarrow>
     sprint_size (DELHI_BLOCK - 1) = 64 \<and> sprint_size DELHI_BLOCK = 16 \<and> sprint_size (DELHI_BLOCK + 100) = 16"

text \<open>The loop goes over 33 blocks; block \<open>k\<close> of it is \<open>DELHI_BLOCK - 16 + k\<close>.\<close>

definition test_delhi_boundary_blocks :: "(address \<Rightarrow> string) \<Rightarrow> bool" where
  "test_delhi_boundary_blocks show_address \<longleftrightarrow>
     returns_and (test_node config_mainnet) (\<lambda>node.
       \<forall>k<33. let block = DELHI_BLOCK - 16 + word_of_nat k in
         validate_block_pre_execution show_address block (replicate 97 0) False False 6400 None = Inr () \<and>
         returns_and (plan_system_txs block (sprint_size block) 6400 False []) (\<lambda>plan.
           0 < block \<and> block mod sprint_size block = 0 \<longrightarrow> stp_state_sync_events plan = []))"

definition test_delhi_fork_active :: bool where
  "test_delhi_fork_active \<longleftrightarrow> node_fork_starts_at Delhi DELHI_BLOCK"

definition test_madhugiri_storage_transition :: bool where
  "test_madhugiri_storage_transition \<longleftrightarrow>
     \<not> is_post_madhugiri (MADHUGIRI_BLOCK - 1) \<and> is_post_madhugiri MADHUGIRI_BLOCK \<and>
     brs_separate (store_block_receipts (MADHUGIRI_BLOCK - 1) (b256_of_byte 0xab)) \<and>
     \<not> brs_separate (store_block_receipts MADHUGIRI_BLOCK (b256_of_byte 0xab))"

definition test_madhugiri_boundary_blocks :: bool where
  "test_madhugiri_boundary_blocks \<longleftrightarrow>
     (let regular = [b256_of_byte 0x01, b256_of_byte 0x02]; bor = b256_of_byte 0xff;
          pre = compute_receipt_root regular (Some bor) (MADHUGIRI_BLOCK - 1);
          post = compute_receipt_root regular (Some bor) MADHUGIRI_BLOCK
      in length pre = 2 \<and> length post = 3 \<and> bor \<in> set post)"

definition test_madhugiri_fork_active :: bool where
  "test_madhugiri_fork_active \<longleftrightarrow> node_fork_starts_at Madhugiri MADHUGIRI_BLOCK"

definition test_rio_span_size_transition :: bool where
  "test_rio_span_size_transition \<longleftrightarrow>
     span_size (RIO_BLOCK - 1) = 6400 \<and> span_size RIO_BLOCK = 1600 \<and> span_size (RIO_BLOCK + 1000) = 1600"

definition test_rio_boundary_blocks :: "(address \<Rightarrow> string) \<Rightarrow> bool" where
  "test_rio_boundary_blocks show_address \<longleftrightarrow>
     returns_and (test_node config_mainnet) (\<lambda>node.
       \<forall>k<17. let block = RIO_BLOCK - 8 + word_of_nat k; sz = span_size block in
         (\<not> (0 < block \<and> block mod sz = 0) \<longrightarrow>
            validate_block_pre_execution show_address block (replicate 97 0) False False sz None = Inr ()) \<and>
         returns_and (plan_system_txs block (sprint_size block) sz False []) (\<lambda>plan. True))"

definition test_rio_fork_active :: bool where
  "test_rio_fork_active \<longleftrightarrow> node_fork_starts_at Rio RIO_BLOCK"

definition test_rio_single_producer_consensus :: bool where
  "test_rio_single_producer_consensus \<longleftrightarrow>
     (let validators = map address_of_byte [1, 2, 3] in
      calculate_difficulty (validators ! (unat RIO_BLOCK mod 3)) validators RIO_BLOCK = 3)"

text \<open>The roots of the simulated blocks, which are compared with themselves, are arguments.\<close>

definition test_amoy_first_100_blocks_simulated :: "(address \<Rightarrow> string) \<Rightarrow> (u64 \<Rightarrow> b256) \<Rightarrow> bool" where
  "test_amoy_first_100_blocks_simulated show_address root \<longleftrightarrow>
     returns_and (test_node config_amoy) (\<lambda>node.
       \<forall>k\<in>{1..100}. let n = word_of_nat k; validators = map address_of_byte [1, 2, 3];
           difficulty = calculate_difficulty (validators ! (k mod 3)) validators n;
           params = test_params\<lparr>hp_number := n, hp_timestamp := 2 * n, hp_difficulty := difficulty, hp_seal_hash := root n\<rparr>;
           gas = 21000 * (n mod 5 + 1)
         in 0 < difficulty \<and>
            validate_header_against_parent params \<lparr>pp_parent_timestamp = 2 * n - 2\<rparr> = Inr () \<and>
            validate_block_pre_execution show_address n (replicate 97 0) False False 6400 None = Inr () \<and>
            returns_and (plan_system_txs n 16 6400 False []) (\<lambda>plan. \<not> stp_execute_commit_span plan) \<and>
            validate_block_post_execution (root n) (root n) (root (n + 1000)) (root (n + 1000)) gas gas = Inr ())"

definition test_amoy_sprint_boundary_at_block_16 :: bool where
  "test_amoy_sprint_boundary_at_block_16 \<longleftrightarrow>
     returns_and (plan_system_txs 16 16 6400 False []) (\<lambda>plan.
       \<not> stp_execute_commit_span plan \<and> stp_state_sync_events plan = [])"

definition test_system_tx_types_across_boundaries :: bool where
  "test_system_tx_types_across_boundaries \<longleftrightarrow>
     (let events = [(1, ascii_bytes ''ev'')] in
      returns_and (plan_system_txs 83756501 16 1600 False []) (\<lambda>plan.
        \<not> stp_execute_commit_span plan \<and> stp_state_sync_events plan = []) \<and>
      returns_and (plan_system_txs 83756512 16 1600 False events) (\<lambda>plan.
        \<not> stp_execute_commit_span plan \<and> length (stp_state_sync_events plan) = 1) \<and>
      returns_and (plan_system_txs 83756800 16 1600 True events) (\<lambda>plan.
        stp_execute_commit_span plan \<and> length (stp_state_sync_events plan) = 1))"

section \<open>The tests pass\<close>

lemmas signer_defs = SIGNER0_ADDR_def SIGNER1_ADDR_def SIGNER2_ADDR_def SIGNER3_ADDR_def

lemmas valset_eval = selects_def go_validators_def port_validator_def proposer_eval signer_defs eval_nat_numeral

lemma valset_proposer_tests:
  "test_increment_proposer_priority_one_validator" "test_increment_proposer_priority_two_validators"
  "test_increment_proposer_priority_three_validators" "test_increment_proposer_priority_four_validators"
  by (simp_all add: test_increment_proposer_priority_one_validator_def test_increment_proposer_priority_two_validators_def
      test_increment_proposer_priority_three_validators_def test_increment_proposer_priority_four_validators_def valset_eval)

lemma signers_distinct: "distinct [SIGNER0_ADDR, SIGNER1_ADDR, SIGNER2_ADDR, SIGNER3_ADDR, 0]"
  by (simp add: signer_defs)

lemma less_4_iff: "(i :: nat) < 4 \<longleftrightarrow> i = 0 \<or> i = 1 \<or> i = 2 \<or> i = 3"
  by auto

lemma valset_lookup_tests: "test_get_validator_by_address_and_index" "test_check_empty_id"
  using signers_distinct
  by (auto simp: test_get_validator_by_address_and_index_def test_check_empty_id_def has_empty_id_def make_validator_set_def
      go_validators_def port_validator_def less_4_iff Let_def)

lemmas log_eval = snapshot_apply_def snapshot_new_def snapshot_is_authorized_def port_validator_set_def port_validator_def
  recents_of_def recents_new_def recents_add_signer_def recents_prune_def is_recently_signed_def bt_range_def
  bt_entries_def bt_split_off_def bt_get_def window_start_def sign_window_def saturating_sub_def Let_def

lemma snapshot_port_tests:
  "port_snapshot_is_authorized" "port_snapshot_apply_tracks_recents" "port_snapshot_apply_prunes_old_recents"
  by (simp_all add: port_snapshot_is_authorized_def port_snapshot_apply_tracks_recents_def
      port_snapshot_apply_prunes_old_recents_def log_eval word_le_nat_alt)

lemma recents_port_tests:
  "port_recents_within_window" "port_recents_prune" "port_recents_same_signer" "port_recents_window_boundary"
  by (simp_all add: port_recents_within_window_def port_recents_prune_def port_recents_same_signer_def
      port_recents_window_boundary_def log_eval)

lemma difficulty_port_rotation: "port_difficulty_four_rotation"
proof -
  let ?vs = "[1, 2, 3, 4] :: address list"
  have d: "distinct ?vs" "?vs \<noteq> []" by simp_all
  have "is_inturn (?vs ! i) ?vs (word_of_nat block) = (i = block mod 4) \<and>
      (i = block mod 4 \<longrightarrow> calculate_difficulty (?vs ! i) ?vs (word_of_nat block) = diff_inturn 4)"
    if "block < 12" "i < 4" for block i
  proof -
    have "unat (word_of_nat block :: u64) = block" using that(1) by (simp add: unat_of_nat)
    then show ?thesis
      using is_inturn_nth [OF d(1), of i "word_of_nat block"] in_turn_difficulty(2) [OF d, of "word_of_nat block"] that(2)
      by (auto simp: diff_inturn_def)
  qed
  then show ?thesis by (simp only: port_difficulty_four_rotation_def Let_def) blast
qed

lemma unat_diff:
  "count \<le> 20 \<Longrightarrow> unat (diff_inturn count) = count"
  "count \<le> 20 \<Longrightarrow> distance < count \<Longrightarrow> unat (diff_noturn count distance) = count - distance"
  by (auto simp: diff_inturn_def diff_noturn_def Let_def unat_of_nat take_bit_nat_eq_self simp del: of_nat_diff)

lemma difficulty_port_order: "port_difficulty_inturn_greater" "port_difficulty_noturn_decreases"
  by (auto simp: port_difficulty_inturn_greater_def port_difficulty_noturn_decreases_def word_less_nat_alt word_le_nat_alt
      unat_diff)

lemma node_size_tests:
  "test_delhi_sprint_size_transition" "test_rio_span_size_transition" "test_amoy_sprint_boundary_at_block_16"
  "test_system_tx_types_across_boundaries"
  by (simp_all add: test_delhi_sprint_size_transition_def test_rio_span_size_transition_def DELHI_BLOCK_def RIO_BLOCK_def
      test_amoy_sprint_boundary_at_block_16_def test_system_tx_types_across_boundaries_def sprint_size_def span_size_def
      plan_eq returns_and_def Let_def)

lemma node_fork_tests: "test_delhi_fork_active" "test_madhugiri_fork_active" "test_rio_fork_active"
  by (simp_all add: test_delhi_fork_active_def test_madhugiri_fork_active_def test_rio_fork_active_def node_fork_starts_at_def
      DELHI_BLOCK_def RIO_BLOCK_def MADHUGIRI_BLOCK_def node_eval genesis_eqs active_iff)

lemma madhugiri_tests: "test_madhugiri_storage_transition" "test_madhugiri_boundary_blocks"
  by (simp_all add: test_madhugiri_storage_transition_def test_madhugiri_boundary_blocks_def is_post_madhugiri_def
      MADHUGIRI_BLOCK_def store_block_receipts_def compute_receipt_root_def Let_def)

text \<open>A block that starts no span needs no validators in its extra data.\<close>

lemma ordinary_block_passes:
  "sz \<noteq> 0 \<Longrightarrow> n = 0 \<or> n mod sz \<noteq> 0 \<Longrightarrow>
   validate_block_pre_execution sa n extra False False sz expected = Inr ()"
  by (elim disjE) (simp_all add: validate_block_pre_execution_def u64_rem_def)

lemma mod_outside:
  assumes "unat (n :: u64) = q * 6400 + r" and "0 < r" and "r < 6400"
  shows "n mod 6400 \<noteq> 0"
proof -
  have "unat (n mod 6400) = r" using assms by (simp add: unat_mod)
  with assms(2) show ?thesis by (metis less_irrefl unat_0)
qed

lemma delhi_boundary: "test_delhi_boundary_blocks sa"
proof -
  have "(DELHI_BLOCK - 16 + word_of_nat k) mod 6400 \<noteq> 0" if "k < 33" for k
    by (rule mod_outside [of _ 5967 "240 + k"])
      (use that in \<open>simp_all add: DELHI_BLOCK_def unat_word_ariths unat_of_nat\<close>)
  then show ?thesis
    by (simp add: test_delhi_boundary_blocks_def node_eval genesis_eqs ordinary_block_passes plan_eq sprint_size_def Let_def)
qed

lemma rio_boundary: "test_rio_boundary_blocks sa"
proof -
  have sz: "span_size n \<noteq> 0" "sprint_size n \<noteq> 0" for n by (simp_all add: span_size_def sprint_size_def)
  then show ?thesis
    by (simp add: test_rio_boundary_blocks_def node_eval genesis_eqs plan_eq Let_def)
      (use sz ordinary_block_passes in \<open>fastforce simp: word_gt_0\<close>)
qed

lemma rio_producer: "test_rio_single_producer_consensus"
  using in_turn_difficulty(2) [of "map address_of_byte [1, 2, 3]" RIO_BLOCK]
  by (simp add: test_rio_single_producer_consensus_def Let_def)

lemma amoy_blocks: "test_amoy_first_100_blocks_simulated sa root"
proof -
  let ?vs = "map address_of_byte [1, 2, 3]"
  have vs: "distinct ?vs" "?vs \<noteq> []" by simp_all
  have *: "0 < calculate_difficulty (?vs ! (k mod 3)) ?vs (word_of_nat k)" "(word_of_nat k :: u64) mod 6400 \<noteq> 0"
      "\<not> 2 * (word_of_nat k :: u64) \<le> 2 * word_of_nat k - 2" if "k \<in> {1..100}" for k
  proof -
    have u: "unat (word_of_nat k :: u64) = k" using that by (simp add: unat_of_nat)
    show "0 < calculate_difficulty (?vs ! (k mod 3)) ?vs (word_of_nat k)"
      using in_turn_difficulty(2) [OF vs, of "word_of_nat k"] by (simp add: u)
    show "(word_of_nat k :: u64) mod 6400 \<noteq> 0" by (rule mod_outside [of _ 0 k]) (use that u in simp_all)
    have "2 * (word_of_nat k :: u64) = word_of_nat (2 * k)" "2 * (word_of_nat k :: u64) - 2 = word_of_nat (2 * k - 2)"
      using that by (simp_all add: of_nat_diff)
    moreover have "unat (word_of_nat (2 * k) :: u64) = 2 * k" "unat (word_of_nat (2 * k - 2) :: u64) = 2 * k - 2"
      using that by (intro unat_small; simp; linarith)+
    ultimately show "\<not> 2 * (word_of_nat k :: u64) \<le> 2 * word_of_nat k - 2"
      unfolding word_le_nat_alt using that by simp linarith
  qed
  show ?thesis
    by (simp add: test_amoy_first_100_blocks_simulated_def node_eval genesis_eqs Let_def test_params_def
        validate_header_against_parent_def validate_block_post_execution_def plan_eq)
      (use * in \<open>simp add: ordinary_block_passes\<close>)
qed

end
