(* ===== verification/Tests_Comprehensive.thy ===== *)
theory Tests_Comprehensive
  imports Tests_Integration
begin

text \<open>
  The ports of Go-Bor's header tests and the comprehensive tests of \<open>bor-consensus\<close> as predicates
  on the model. A test that signs with a generated key takes the key store as an argument and is
  proved for every key store whose signatures recover to its addresses; so is the hash signed.
\<close>

section \<open>bor-consensus/tests/go\_verify\_header\_port.rs\<close>

text \<open>Block 0 with a seal of the key over the hash.\<close>

definition sealed_params :: "'key signer \<Rightarrow> 'key \<Rightarrow> b256 \<Rightarrow> header_validation_params" where
  "sealed_params S key m =
     test_params\<lparr>hp_number := 0, hp_extra_data := make_extra_data_with_seal (sg_sign S key m), hp_seal_hash := m\<rparr>"

definition test_valid_header_passes :: "'sig crypto \<Rightarrow> 'key signer \<Rightarrow> 'key \<Rightarrow> b256 \<Rightarrow> bool" where
  "test_valid_header_passes C S key m \<longleftrightarrow>
     validate_header True C (sealed_params S key m) [sg_address S key] [] 1000 = Inr (sg_address S key)"

definition test_future_block :: "'sig crypto \<Rightarrow> 'key signer \<Rightarrow> 'key \<Rightarrow> b256 \<Rightarrow> bool" where
  "test_future_block C S key m \<longleftrightarrow>
     validate_header True C ((sealed_params S key m)\<lparr>hp_timestamp := 5000\<rparr>) [sg_address S key] [] 1000 =
       Inl (Err (FutureBlock 5000 1000))"

definition test_future_block_boundary_allowed :: "'sig crypto \<Rightarrow> 'key signer \<Rightarrow> 'key \<Rightarrow> b256 \<Rightarrow> bool" where
  "test_future_block_boundary_allowed C S key m \<longleftrightarrow>
     \<not> isl (validate_header True C ((sealed_params S key m)\<lparr>hp_timestamp := 1015\<rparr>) [sg_address S key] [] 1000)"

definition test_missing_vanity_short_extra_data :: "'sig crypto \<Rightarrow> bool" where
  "test_missing_vanity_short_extra_data C \<longleftrightarrow>
     fails_with (validate_header True C (test_params\<lparr>hp_extra_data := replicate 10 0\<rparr>) [] [] 1000)
       (\<lambda>e. case e of InvalidExtraData _ \<Rightarrow> True | _ \<Rightarrow> False)"

definition test_missing_signature_short_extra_data :: "'sig crypto \<Rightarrow> bool" where
  "test_missing_signature_short_extra_data C \<longleftrightarrow>
     fails_with (validate_header True C (test_params\<lparr>hp_extra_data := replicate (EXTRADATA_VANITY_LEN + 10) 0\<rparr>) [] [] 1000)
       (\<lambda>e. case e of InvalidExtraData _ \<Rightarrow> True | _ \<Rightarrow> False)"

definition test_wrong_difficulty :: "'sig crypto \<Rightarrow> 'key signer \<Rightarrow> 'key \<Rightarrow> b256 \<Rightarrow> bool" where
  "test_wrong_difficulty C S key m \<longleftrightarrow>
     fails_with (validate_header True C ((sealed_params S key m)\<lparr>hp_difficulty := 999\<rparr>) [sg_address S key] [] 1000)
       (\<lambda>e. case e of WrongDifficulty _ _ \<Rightarrow> True | _ \<Rightarrow> False)"

definition test_unauthorized_signer :: "'sig crypto \<Rightarrow> 'key signer \<Rightarrow> 'key \<Rightarrow> b256 \<Rightarrow> bool" where
  "test_unauthorized_signer C S key m \<longleftrightarrow>
     fails_with (validate_header True C (sealed_params S key m) [address_of_byte 0xaa] [] 1000)
       (\<lambda>e. case e of UnauthorizedSigner _ \<Rightarrow> True | _ \<Rightarrow> False)"

definition test_recently_signed :: "'sig crypto \<Rightarrow> 'key signer \<Rightarrow> 'key \<Rightarrow> b256 \<Rightarrow> bool" where
  "test_recently_signed C S key m \<longleftrightarrow>
     fails_with (validate_header True C ((sealed_params S key m)\<lparr>hp_number := 10, hp_difficulty := 2\<rparr>)
         [sg_address S key, address_of_byte 0xbb] [(9, sg_address S key)] 1000)
       (\<lambda>e. case e of RecentlySigned _ \<Rightarrow> True | _ \<Rightarrow> False)"

definition test_timestamp_equal_to_parent_rejected :: bool where
  "test_timestamp_equal_to_parent_rejected \<longleftrightarrow>
     (case validate_header_against_parent (test_params\<lparr>hp_number := 101\<rparr>) \<lparr>pp_parent_timestamp = 1000\<rparr> of
        Inl (TimestampNotIncreasing _ _) \<Rightarrow> True | _ \<Rightarrow> False)"

section \<open>bor-consensus/tests/comprehensive\_tests.rs\<close>

definition make_addresses :: "nat \<Rightarrow> address list" where
  "make_addresses count = map (\<lambda>i. address_of_byte (word_of_nat (i + 1))) [0..<count]"

definition test_4_1_validator_set_changes_at_span_boundary :: bool where
  "test_4_1_validator_set_changes_at_span_boundary \<longleftrightarrow>
     (let span_n = [make_validator 1 0x01 100, make_validator 2 0x02 100, make_validator 3 0x03 100];
          span_n1 = [make_validator 4 0x04 100, make_validator 5 0x05 100, make_validator 6 0x06 100];
          snap_n = snapshot_new 6399 0 (make_validator_set span_n);
          snap_n1 = snapshot_new 6400 0 (make_validator_set span_n1);
          addr_1 = address_of_byte 0x01; addr_4 = address_of_byte 0x04
      in snapshot_is_authorized snap_n addr_1 \<and> \<not> snapshot_is_authorized snap_n addr_4 \<and>
         \<not> snapshot_is_authorized snap_n1 addr_1 \<and> snapshot_is_authorized snap_n1 addr_4)"

definition test_4_1_difficulty_uses_new_set_after_transition :: bool where
  "test_4_1_difficulty_uses_new_set_after_transition \<longleftrightarrow>
     calculate_difficulty (make_addresses 3 ! 0) (make_addresses 3) 6400 = 1 \<and>
     calculate_difficulty (make_addresses 7 ! 0) (make_addresses 7) 6400 = 2"

text \<open>One signer at one block; \<open>Address::with_last_byte\<close> is the number of the byte.\<close>

definition test_4_2_anti_double_sign_5_validators_window_3 :: bool where
  "test_4_2_anti_double_sign_5_validators_window_3 \<longleftrightarrow>
     (let recents = recents_add_signer recents_new 10 0xaa
      in is_recently_signed recents 0xaa 12 5 = Inr True \<and> is_recently_signed recents 0xaa 13 5 = Inr True \<and>
         is_recently_signed recents 0xaa 14 5 = Inr False)"

definition test_4_2_anti_double_sign_different_signers :: bool where
  "test_4_2_anti_double_sign_different_signers \<longleftrightarrow>
     (let recents = recents_add_signer recents_new 10 0xaa
      in is_recently_signed recents 0xbb 12 5 = Inr False \<and> is_recently_signed recents 0xaa 12 5 = Inr True)"

definition test_4_3_recents_window_sizes :: bool where
  "test_4_3_recents_window_sizes \<longleftrightarrow>
     list_all (\<lambda>(validator_count, expected_window).
         let recents = recents_add_signer recents_new 100 0xff
         in is_recently_signed recents 0xff (100 + expected_window) validator_count = Inr True \<and>
            is_recently_signed recents 0xff (100 + expected_window + 1) validator_count = Inr False)
       [(1, 1), (2, 2), (3, 2), (4, 3), (5, 3), (10, 6), (100, 51)]"

definition test_4_4_block_0_5_validators :: bool where
  "test_4_4_block_0_5_validators \<longleftrightarrow>
     (let validators = make_addresses 5
      in calculate_difficulty (validators ! 0) validators 0 = 5 \<and> calculate_difficulty (validators ! 1) validators 0 = 4 \<and>
         calculate_difficulty (validators ! 4) validators 0 = 1)"

definition test_4_4_block_3_5_validators :: bool where
  "test_4_4_block_3_5_validators \<longleftrightarrow>
     (let validators = make_addresses 5
      in calculate_difficulty (validators ! 0) validators 3 = 3 \<and> calculate_difficulty (validators ! 4) validators 3 = 4 \<and>
         calculate_difficulty (validators ! 2) validators 3 = 1 \<and> calculate_difficulty (validators ! 3) validators 3 = 5)"

definition test_4_4_signer_not_in_set :: bool where
  "test_4_4_signer_not_in_set \<longleftrightarrow>
     calculate_difficulty (address_of_byte 0xff) (make_addresses 5) 0 = 1 \<and>
     calculate_difficulty (address_of_byte 0xff) (make_addresses 5) 3 = 1"

definition test_4_6_future_block_at_exact_boundary :: "'sig crypto \<Rightarrow> bool" where
  "test_4_6_future_block_at_exact_boundary C \<longleftrightarrow>
     \<not> fails_with (validate_header True C (test_params\<lparr>hp_number := 101, hp_timestamp := 1000 + 15\<rparr>) [] [] 1000)
         (\<lambda>e. case e of FutureBlock _ _ \<Rightarrow> True | _ \<Rightarrow> False) \<and>
     fails_with (validate_header True C (test_params\<lparr>hp_number := 101, hp_timestamp := 1000 + 16\<rparr>) [] [] 1000)
       (\<lambda>e. case e of FutureBlock _ _ \<Rightarrow> True | _ \<Rightarrow> False)"

definition test_4_6_timestamp_overflow :: bool where
  "test_4_6_timestamp_overflow \<longleftrightarrow>
     (case validate_header_against_parent (test_params\<lparr>hp_number := 101, hp_timestamp := - 1\<rparr>) \<lparr>pp_parent_timestamp = - 1\<rparr> of
        Inl (TimestampNotIncreasing _ _) \<Rightarrow> True | _ \<Rightarrow> False)"

definition test_4_8_validator_bytes_not_multiple_of_20 :: bool where
  "test_4_8_validator_bytes_not_multiple_of_20 \<longleftrightarrow>
     extra_data_parse (replicate (EXTRADATA_VANITY_LEN + 15) 0 @ replicate EXTRADATA_SEAL_LEN 0xff) =
       Inl (InvalidValidatorBytes 15)"

definition test_4_8_96_bytes_too_short :: bool where
  "test_4_8_96_bytes_too_short \<longleftrightarrow> extra_data_parse (replicate 96 0) = Inl (TooShort 96)"

definition test_7_1_snapshot_recents_pruning :: bool where
  "test_7_1_snapshot_recents_pruning \<longleftrightarrow>
     (let vs = make_validator_set [make_validator 1 0x01 100, make_validator 2 0x02 100, make_validator 3 0x03 100];
          snap1 = snapshot_apply (snapshot_new 100 0 vs) 101 (address_of_byte 0x01);
          snap2 = snapshot_apply snap1 102 (address_of_byte 0x02);
          snap3 = snapshot_apply snap2 103 (address_of_byte 0x03);
          snap4 = snapshot_apply snap3 104 (address_of_byte 0x01);
          kept = (\<lambda>snap n. n \<in> fst ` set (sn_recents snap))
      in kept snap1 101 \<and> kept snap2 101 \<and> kept snap2 102 \<and> kept snap3 101 \<and> kept snap3 102 \<and> kept snap3 103 \<and>
         \<not> kept snap4 101 \<and> kept snap4 102 \<and> kept snap4 103 \<and> kept snap4 104)"

text \<open>A thousand selections; the signers in order.\<close>

definition test_10_1_zero_voting_power_never_selected :: bool where
  "test_10_1_zero_voting_power_never_selected \<longleftrightarrow>
     returns_and (proposer_run True 1000 (make_validator_set
         [make_validator 1 0xaa 100, make_validator 2 0x00 0, make_validator 3 0xcc 100]))
       (\<lambda>(_, proposers). length proposers = 1000 \<and> address_of_byte 0x00 \<notin> set proposers)"

definition test_10_1_mixed_powers :: bool where
  "test_10_1_mixed_powers \<longleftrightarrow>
     returns_and (proposer_run True 200 (make_validator_set
         [make_validator 1 0xaa 100, make_validator 2 0x00 0, make_validator 3 0xcc 100]))
       (\<lambda>(_, proposers). count_list proposers (address_of_byte 0xaa) = 100 \<and> count_list proposers (address_of_byte 0xcc) = 100)"

definition test_10_4_proposer_determinism_exact_distribution :: bool where
  "test_10_4_proposer_determinism_exact_distribution \<longleftrightarrow>
     returns_and (proposer_run True 600 (make_validator_set
         [make_validator 1 0xaa 300, make_validator 2 0xbb 200, make_validator 3 0xcc 100]))
       (\<lambda>(_, proposers). count_list proposers (address_of_byte 0xaa) = 300 \<and>
          count_list proposers (address_of_byte 0xbb) = 200 \<and> count_list proposers (address_of_byte 0xcc) = 100)"

section \<open>The tests pass\<close>

lemma sealed_parse:
  assumes "signer_laws C S"
  shows "\<exists>ed. extra_data_parse (make_extra_data_with_seal (sg_sign S key m)) = Inr ed \<and> ed_seal ed = sg_sign S key m"
  using assms by (intro make_extra_parse) (simp add: signer_laws_def)

lemmas header_eval = validate_header_def sealed_params_def test_params_def fails_with_def u64_add_def Let_def
  calculate_difficulty_def diff_inturn_def bt_entries_def

lemma sealed_header_tests:
  assumes "signer_laws C S"
  shows "test_valid_header_passes C S key m" "test_future_block C S key m" "test_future_block_boundary_allowed C S key m"
    and "test_wrong_difficulty C S key m"
    and "sg_address S key \<noteq> address_of_byte 0xaa \<Longrightarrow> test_unauthorized_signer C S key m"
  using sealed_parse [OF assms, of key m] sealed_recovers [OF assms, of m key]
  by (auto simp: test_valid_header_passes_def test_future_block_def test_future_block_boundary_allowed_def
      test_wrong_difficulty_def test_unauthorized_signer_def header_eval)

lemma recently_signed_test:
  assumes "signer_laws C S"
  shows "test_recently_signed C S key m"
  using sealed_parse [OF assms, of key m] sealed_recovers [OF assms, of m key]
proof -
  have "window_start 10 (Suc (Suc 0)) = 8" by (simp add: window_start_def sign_window_def saturating_sub_def)
  moreover assume "\<exists>ed. extra_data_parse (make_extra_data_with_seal (sg_sign S key m)) = Inr ed \<and> ed_seal ed = sg_sign S key m"
    and "ecrecover_seal C m (sg_sign S key m) = Inr (sg_address S key)"
  ultimately show ?thesis by (auto simp: test_recently_signed_def header_eval bt_range_def)
qed

lemma unsealed_header_tests:
  "test_missing_vanity_short_extra_data C" "test_missing_signature_short_extra_data C"
  "test_timestamp_equal_to_parent_rejected" "test_4_6_timestamp_overflow"
  by (simp_all add: test_missing_vanity_short_extra_data_def test_missing_signature_short_extra_data_def
      test_timestamp_equal_to_parent_rejected_def test_4_6_timestamp_overflow_def validate_header_against_parent_def
      header_eval extra_data_parse_def)

lemma boundary_test: "test_4_6_future_block_at_exact_boundary C"
  by (cases "ecrecover_seal C 0 (replicate 65 0)")
    (simp_all add: test_4_6_future_block_at_exact_boundary_def header_eval extra_data_parse_def)

lemma extra_data_length_tests: "test_4_8_validator_bytes_not_multiple_of_20" "test_4_8_96_bytes_too_short"
  by (simp_all add: test_4_8_validator_bytes_not_multiple_of_20_def test_4_8_96_bytes_too_short_def extra_data_parse_def)

lemma span_boundary_tests:
  "test_4_1_validator_set_changes_at_span_boundary" "test_4_1_difficulty_uses_new_set_after_transition"
  by (simp_all add: test_4_1_validator_set_changes_at_span_boundary_def test_4_1_difficulty_uses_new_set_after_transition_def
      snapshot_new_def snapshot_is_authorized_def make_validator_set_def make_validator_def make_addresses_def
      calculate_difficulty_def diff_inturn_def diff_noturn_def upt_rec Let_def)

lemma double_sign_tests:
  "test_4_2_anti_double_sign_5_validators_window_3" "test_4_2_anti_double_sign_different_signers"
  by (simp_all add: test_4_2_anti_double_sign_5_validators_window_3_def test_4_2_anti_double_sign_different_signers_def log_eval)

lemma window_size_test: "test_4_3_recents_window_sizes"
  by (simp add: test_4_3_recents_window_sizes_def log_eval)

lemma wiggle_tests:
  "test_4_4_block_0_5_validators" "test_4_4_block_3_5_validators" "test_4_4_signer_not_in_set"
  by (simp_all add: test_4_4_block_0_5_validators_def test_4_4_block_3_5_validators_def test_4_4_signer_not_in_set_def
      make_addresses_def calculate_difficulty_def diff_inturn_def diff_noturn_def upt_rec Let_def)

lemma pruning_test: "test_7_1_snapshot_recents_pruning"
  by (simp add: test_7_1_snapshot_recents_pruning_def log_eval make_validator_set_def make_validator_def word_le_nat_alt)

text \<open>Runs from rest with small powers are balanced.\<close>

lemma small_run:
  assumes "list_all (\<lambda>v. 0 \<le> v_voting_power v \<and> v_proposer_priority v = 0) vs" and "0 < total_power vs"
    and "distinct (map v_signer vs)" and "int (length vs) * total_power vs < 2 ^ 63"
  shows "\<exists>vset' as. proposer_run oc k (make_validator_set vs) = Inr (vset', as) \<and> length as = k \<and>
     balanced (vs_validators vset') \<and> accounted vs as (vs_validators vset') \<and>
     map at_rest (vs_validators vset') = map at_rest vs"
proof -
  have "balanced vs" by (rule balanced_initial) (use assms harmonic_fits [OF assms(4)] in \<open>auto simp: list_all_iff\<close>)
  then show ?thesis
    using proposer_run_accounted [of "make_validator_set vs" oc k] proposer_run_keeps assms(3)
    by (fastforce simp: make_validator_set_def)
qed

lemma zero_power_test: "test_10_1_zero_voting_power_never_selected"
proof -
  let ?vs = "[make_validator 1 0xaa 100, make_validator 2 0x00 0, make_validator 3 0xcc 100]"
  obtain vset' as where run: "proposer_run True 1000 (make_validator_set ?vs) = Inr (vset', as)" "length as = 1000"
      "balanced (vs_validators vset')" "accounted ?vs as (vs_validators vset')"
    using small_run [of ?vs True 1000] by (auto simp: make_validator_def total_power_def)
  have "make_validator 2 0x00 0 \<in> set ?vs" by simp
  from accounted_powerless [OF run(3,4) this] show ?thesis
    using run(1,2) by (simp add: test_10_1_zero_voting_power_never_selected_def returns_and_def make_validator_def)
qed

lemma exact_distribution:
  assumes "list_all (\<lambda>v. 0 \<le> v_voting_power v \<and> v_proposer_priority v = 0) vs" and "0 < total_power vs"
    and "distinct (map v_signer vs)" and "int (length vs) * total_power vs < 2 ^ 63" and "k = nat (total_power vs)"
  shows "\<exists>vset' as. proposer_run oc k (make_validator_set vs) = Inr (vset', as) \<and>
     (\<forall>v\<in>set vs. count_list as (v_signer v) = nat (v_voting_power v))"
proof -
  obtain vset' as where run: "proposer_run oc k (make_validator_set vs) = Inr (vset', as)" "length as = k"
      "balanced (vs_validators vset')" "accounted vs as (vs_validators vset')" "map at_rest (vs_validators vset') = map at_rest vs"
    using small_run [OF assms(1-4)] by blast
  have "total_power vs * int (count_list as (v_signer v)) = total_power vs * v_voting_power v" if "v \<in> set vs" for v
    using cycle_restores(2) [OF _ run(3-5)] assms(1,2,5) run(2) that by (simp add: list_all_iff)
  then have "int (count_list as (v_signer v)) = v_voting_power v" if "v \<in> set vs" for v using that assms(2) by simp
  then show ?thesis using run(1) by (metis nat_int)
qed

lemma distribution_tests: "test_10_1_mixed_powers" "test_10_4_proposer_determinism_exact_distribution"
proof -
  let ?vs = "[make_validator 1 0xaa 100, make_validator 2 0x00 0, make_validator 3 0xcc 100]"
  show "test_10_1_mixed_powers"
    using exact_distribution [of ?vs 200 True]
    by (auto simp: test_10_1_mixed_powers_def returns_and_def make_validator_def total_power_def)
  let ?ws = "[make_validator 1 0xaa 300, make_validator 2 0xbb 200, make_validator 3 0xcc 100]"
  show "test_10_4_proposer_determinism_exact_distribution"
    using exact_distribution [of ?ws 600 True]
    by (auto simp: test_10_4_proposer_determinism_exact_distribution_def returns_and_def make_validator_def total_power_def)
qed

end
