(* ===== verification/Spec2Isabelle.thy ===== *)
theory Spec2Isabelle
  imports Consensus_Passes Consensus_Http Consensus_Threads Tests_Comprehensive
begin

text \<open>
  Boreth is a Polygon Bor execution client built on Reth. This library models the crates of the
  repository that carry its own logic and proves what they do. Reth, Alloy, Revm, the network
  and the hash and signature functions are not part of the repository: they are parameters.

  \<^bold>\<open>The program.\<close> \<open>bor-chainspec\<close> holds constants, the hardfork schedule, block-number parameters
  and the chain specifications. \<open>bor-primitives\<close> defines validators, validator sets and spans
  (a span assigns a validator set to 6400 blocks). \<open>heimdall-client\<close> fetches spans from the
  Heimdall layer and caches them. \<open>bor-consensus\<close> parses extra data, recovers the signer of a
  block from its seal, computes difficulties, selects proposers, keeps the log of recent
  signers and validates headers and blocks; \<open>BorConsensus\<close> is the engine that Reth calls, with a
  span cache and a signer log behind locks, and \<open>SpanPrefetcher\<close> fills that cache from Heimdall.
  \<open>bor-evm\<close> plans and makes the system calls (\<open>commitSpan\<close>, \<open>onStateReceive\<close>) at the end of a
  block and assembles blocks; \<open>bor-payload\<close> builds payloads; \<open>bor-storage\<close> keeps receipts, spans
  and snapshots; \<open>bor-rpc\<close> answers author and root-hash queries; \<open>bor-node\<close> configures the node
  and shakes hands with Go-Bor peers.

  \<^bold>\<open>Conventions.\<close> Integers are words of their width; a \<open>usize\<close> that counts elements is a \<open>nat\<close>; an
  \<open>i64\<close> is an \<open>int\<close> with its range written out. A function that can fail returns a sum: \<open>Inl\<close> an
  error or a panic, \<open>Inr\<close> the value. The flag \<open>oc\<close> is Cargo's overflow check: with it an
  overflow is a panic, without it the result wraps, and theorems that do not fix it hold for
  both. State is passed explicitly in records. A \<open>BTreeMap\<close> is a key-sorted list, a \<open>HashMap\<close> an
  association list with distinct keys (no modelled code depends on its iteration order).

  \<^bold>\<open>Theories.\<close>
  \<^item> \<open>Bor_Prelude\<close>: results, checked arithmetic, byte strings, maps, runs of calls; the locales
    \<open>ordered_map\<close> and \<open>simulation\<close>, which lifts the agreement of one call to all sequences.
  \<^item> \<open>Bor_Chainspec\<close>: \<open>constants.rs\<close>, \<open>hardfork.rs\<close>, \<open>params.rs\<close>, \<open>chainspec.rs\<close>, \<open>genesis.rs\<close>,
    \<open>amoy.rs\<close>, \<open>cli.rs\<close>, \<open>bootnodes.rs\<close>. The constructor accepts exactly ascending schedules, forks are
    active in order, the fork id is the EIP-2124 one over Ethereum forks. Reth's \<open>ChainSpec\<close>, its
    trait and the fork hash are the records \<open>inner_ops\<close> and \<open>eth_chain_spec\<close>.
  \<^item> \<open>Bor_Primitives\<close>: \<open>bor-primitives/src/lib.rs\<close>; validator bytes round trip.
  \<^item> \<open>Consensus_Extra_Data\<close>, \<open>Consensus_Difficulty\<close>, \<open>Consensus_Proposer\<close>: the files of those
    names. Parsing inverts the layout; difficulty is a bijection onto \<open>1..n\<close>; proposer selection
    does not overflow while the total power times the harmonic number of the validators fits
    an \<open>i64\<close>, lags behind a validator's share by less than that number, and repeats exactly
    once the powers divide.
  \<^item> \<open>Consensus_Recents\<close>: \<open>recents.rs\<close> and \<open>snapshot.rs\<close>, both instances of the locale
    \<open>signer_log\<close>. The window is exact, pruning is harmless, three validators cannot be locked
    out, one or two can.
  \<^item> \<open>Consensus_Seal\<close>: \<open>seal.rs\<close>. The signed bytes determine the header but for the seal, given
    that RLP encodings can be read from the front and the optional fields have no gaps. Keccak, RLP and ECDSA are the record \<open>crypto\<close>.
  \<^item> \<open>Consensus_Validation\<close>: \<open>validation.rs\<close> and \<open>block_validation.rs\<close>. Exact acceptance, no panic,
    no ties between signers of one height.
  \<^item> \<open>Heimdall_Cache\<close>: \<open>cache.rs\<close>, refined to a list of spans in access order; locale
    \<open>span_store\<close> is what the engine relies on.
  \<^item> \<open>Heimdall_Client\<close>: \<open>lib.rs\<close>, \<open>http.rs\<close>, \<open>mock.rs\<close>. The answers of the network to the
    attempts of a request are a parameter; both clients are instances of the trait's record.
  \<^item> \<open>Consensus_Engine\<close>: \<open>reth_consensus.rs\<close>. Histories of calls are the inductive relation
    \<open>reachable\<close>, restricted to those in which checked blocks come in increasing number. In them no
    signer signs twice within the window of their smallest span.
  \<^item> \<open>Consensus_Threads\<close>: the same engine shared by threads. A validation is three sections, each
    under one lock, and \<open>conc_step\<close> interleaves them. With at most \<open>t\<close> blocks of one signer between
    check and record, at most \<open>t\<close> of its blocks lie in a window; \<open>t\<close> threads reach that; a validation
    with insertions between its sections is one whole call between them. No section panics, so
    no lock is ever poisoned.
  \<^item> \<open>Consensus_Prefetch\<close>: \<open>span_prefetch.rs\<close>. A run is any finite number of polls with a client
    (locale \<open>span_client\<close>) that may change between polls; the current span is always cached.
    Validations are not part of such a run; they are in \<open>Consensus_System\<close>.
  \<^item> \<open>Consensus_Policy\<close>: an abstract machine for the engine with one list of spans and a history
    of accepted blocks that is never pruned; the engine answers every sequence of calls as it
    does. Blocks of all branches share the history, and a block that grows the validator set
    does not bring pruned entries back.
  \<^item> \<open>Consensus_Chain\<close>: whole chains. Exactly which chains the engine accepts; a chain sealed in turn is
    accepted, with \<open>seal_header\<close> for the producer's side of \<open>seal.rs\<close>; how many blocks a set of
    validators can sign; how a second block of one height erases a signer.
  \<^item> \<open>Consensus_Http\<close>: the prefetcher over the HTTP client. Transient failures of the server are
    survived, and the sleeps of a pass are shorter than the interval between polls.
  \<^item> \<open>Consensus_System\<close>: prefetcher and validation interleaved step by step on one engine, the
    relation \<open>sys_step\<close>, for clients of any kind. When it authorizes a signer; which spans are lost
    for good.
  \<^item> \<open>Consensus_Runs\<close>: what holds of the engine's data in every state of that system.
  \<^item> \<open>Consensus_Passes\<close>: the prefetcher of that system is, for every sequence of polls, the
    uninterrupted one of \<open>Consensus_Prefetch\<close>; no step of it panics. A request that is never answered
    is a run in which only validations take further steps.
  \<^item> \<open>Bor_Storage\<close>: \<open>tables.rs\<close>, \<open>receipt_key.rs\<close>, \<open>receipt.rs\<close>, \<open>gas.rs\<close>, \<open>persistence.rs\<close>; both
    stores are instances of the locale \<open>kv_store\<close>, that of the spans also of its extension
    \<open>indexed_store\<close> with the greatest key.
  \<^item> \<open>Evm_System\<close>: \<open>config.rs\<close>, \<open>system_call.rs\<close>, \<open>executor.rs\<close>. Which system calls a block makes.
  \<^item> \<open>Evm_Executor\<close>: \<open>block_executor.rs\<close>, \<open>build.rs\<close> and the execution contexts of \<open>evm_config.rs\<close>,
    around a parameter for Reth's Ethereum executor. The executor makes the planned calls; on
    the contexts of the configuration it simulates Ethereum's.
  \<^item> \<open>Evm_Env\<close>: the configuration and the environments of \<open>evm_config.rs\<close>. What a block loses on the
    way through a payload.
  \<^item> \<open>Payload_Builder\<close>: \<open>builder.rs\<close>. Longest prefix of the pool within the gas limit.
  \<^item> \<open>Bor_Rpc\<close>: \<open>api.rs\<close>, \<open>methods.rs\<close> and \<open>types.rs\<close>. The root hash is that of a perfect binary tree.
  \<^item> \<open>Bor_Node\<close>: \<open>config.rs\<close>, \<open>node.rs\<close>, \<open>handshake.rs\<close>. Snapshots round trip; which peers are
    accepted and which refused ones stay connected. The peer's stream and the codecs are
    parameters.
  \<^item> \<open>Boreth_Main\<close>: \<open>main.rs\<close>. What the engine, the executor and the chain specification of the
    binary do as they are wired.
  \<^item> \<open>Tests_Chainspec\<close>, \<open>Tests_Consensus\<close>, \<open>Tests_Node\<close>: the unit tests of the crates as predicates on
    the model, all proved, which ties the definitions to the behaviour the repository tests.
    Left out are assertions on serde, on the Amoy genesis file and on hashes or signatures alone.
  \<^item> \<open>Tests_Integration\<close>: the ports of Go-Bor's validator-set and snapshot tests and the hardfork tests
    of \<open>bor-node\<close>, likewise. \<open>Tests_Comprehensive\<close>: the ports of Go-Bor's header tests and the
    comprehensive tests, for every key store whose signatures recover to its addresses.
  \<^item> This theory: prefetcher with engine, chain specification with receipt storage, RPC with
    engine.

  \<^bold>\<open>Loops.\<close> Every loop is a total function: by structural recursion over the list it walks, over the
  three attempts of a request, or (\<open>next_pow2_from\<close>, \<open>root_loop\<close>) with a measure. There is no fuel;
  the only endless loop, \<open>SpanPrefetcher::run\<close>, is modelled by its state after each poll.

  \<^bold>\<open>Not modelled.\<close> The code of Reth, Revm and Alloy behind the parameters, derived \<open>Debug\<close> output,
  the serde attributes, timers and logging. The trait \<open>BorApi\<close> is a record
  only, since the repository has no implementation of it. Of the integration tests those are left
  out that start threads, measure, check serde or concrete hashes or repeat a unit test, and that of
  a million selections with powers close to the \<open>i64\<close> range, which the harmonic bound does not reach.
\<close>

section \<open>Prefetcher and consensus engine\<close>

lemma prefetched_span:
  assumes "honest fetch0" and "\<forall>poll\<in>set (polls @ [(fetch, Some n)]). good_poll poll"
    and "sorted (polled_spans (polls @ [(fetch, Some n)]))"
    and "prefetch_run oc fetch0 (prefetcher_new bor_consensus_new) (polls @ [(fetch, Some n)]) = Inr p"
    and "\<forall>f\<in>insert fetch0 (fst ` set (polls @ [(fetch, Some n)])). f (n div 6400) = Inr s \<or> isl (f (n div 6400))"
  shows "span_cache_look (pf_cache p) (n div 6400) = Some s" and "sc_inv (pf_cache p)"
    and "rc_signers (bc_recents (pf_consensus p)) = []"
proof -
  obtain h where h: "covers p (unat (n div 6400)) h"
    using prefetch_run_covers [OF assms(1), of polls fetch n oc] assms(2-4) by auto
  then have "unat (n div 6400) \<le> h" by (simp add: covers_def)
  then have "span_cache_contains (pf_cache p) (n div 6400)"
    using covers_cached [OF h, of "unat (n div 6400)"] by simp
  moreover have "from_client (insert fetch0 (fst ` set (polls @ [(fetch, Some n)]))) p"
    using assms(1,2,4) by (intro from_client_run) (auto simp: good_poll_def)
  ultimately show "span_cache_look (pf_cache p) (n div 6400) = Some s" and "sc_inv (pf_cache p)"
    and "rc_signers (bc_recents (pf_consensus p)) = []"
    using assms(5)
    by (fastforce simp: from_client_def span_cache_contains_def span_cache_look_def hm_contains_def)+
qed

text \<open>
  C39. A prefetcher that follows the chain makes the engine authorize: on a new engine filled by
  polls of blocks in non-decreasing spans, from a client that has the span of each polled block
  and always gives the same answer \<open>s\<close> for the span of the last one, the first block validated
  at that height is accepted exactly when its recovered signer is a validator of \<open>s\<close>; without
  the prefetcher every signer of that block is accepted.
\<close>

theorem prefetched_engine_authorizes:
  assumes "honest fetch0"
    and "\<forall>(f, poll)\<in>set (polls @ [(fetch, Some n)]). honest f \<and> (\<forall>m. poll = Some m \<longrightarrow> serves f (m div 6400))"
    and "sorted (map (\<lambda>m. unat (m div 6400)) (List.map_filter snd (polls @ [(fetch, Some n)])))"
    and "prefetch_run oc fetch0 (prefetcher_new bor_consensus_new) (polls @ [(fetch, Some n)]) = Inr p"
    and "\<forall>f\<in>insert fetch0 (fst ` set (polls @ [(fetch, Some n)])). f (n div 6400) = Inr s \<or> isl (f (n div 6400))"
    and "hd_number h = n" and "block_signer E h b = Inr a" and "length (authorized_signers s) < 2 ^ 64"
  shows "(snd (engine_pre_execution E (pf_consensus p) h b) = Inr () \<longleftrightarrow> a \<in> set (authorized_signers s)) \<and>
    snd (engine_pre_execution E bor_consensus_new h b) = Inr ()"
proof
  have "\<forall>poll\<in>set (polls @ [(fetch, Some n)]). good_poll poll"
    using assms(2) by (auto simp: good_poll_def split: option.splits)
  note sp = prefetched_span [OF assms(1) this _ assms(4,5), unfolded polled_spans_def, OF assms(3)]
  have inv: "bt_inv (rc_signers (bc_recents (pf_consensus p)))" by (simp add: sp(3) bt_inv_def)
  show "snd (engine_pre_execution E (pf_consensus p) h b) = Inr () \<longleftrightarrow> a \<in> set (authorized_signers s)"
    using engine_pre_execution_accepts [OF inv sp(2), of h E b] sp(1,3) assms(6-8)
    by (simp add: signed_in_window_def bt_get_def)
next
  have "span_cache_look (bc_span_cache bor_consensus_new) i = None" for i
    by (simp add: bor_consensus_new_def span_cache_look_def span_cache_new_def)
  then show "snd (engine_pre_execution E bor_consensus_new h b) = Inr ()"
    using engine_pre_execution_accepts [of bor_consensus_new h E b] assms(7)
    by (simp add: bor_consensus_new_def recents_new_def bt_inv_def sc_inv_new)
qed

section \<open>Chain specification and receipt storage\<close>

text \<open>
  The Madhugiri switch: the constant the receipt storage uses is the fork the Polygon
  mainnet chain specification activates, at every block; on Amoy the storage keeps the separate
  Bor receipt for exactly the blocks from Amoy's activation up to mainnet's, in which the
  chain specification already reports the fork as active.
\<close>

theorem madhugiri_switch:
  "(\<exists>cs. bor_mainnet_chainspec inner = Inr cs \<and>
      (\<forall>n. is_post_madhugiri n \<longleftrightarrow> is_bor_fork_active_at_block cs Madhugiri n)) \<and>
   (\<exists>cs. bor_amoy_chainspec inner = Inr cs \<and>
      (\<forall>n. brs_separate (store_block_receipts n h) \<and> is_bor_fork_active_at_block cs Madhugiri n \<longleftrightarrow>
         28899616 \<le> n \<and> n < 80084800))"
  by (auto simp: mainnet_spec_eq amoy_spec_eq active_iff is_post_madhugiri_iff store_block_receipts_def not_le)

section \<open>RPC author and consensus engine\<close>

lemma block_signer_author:
  "block_signer E h b = Inr a \<Longrightarrow>
   get_author (en_crypto E) (compute_seal_hash (en_crypto E) h) (hd_extra_data h) = Inr a"
  by (auto simp: block_signer_def get_author_def Let_def bindR_eq_Inr map_err_def ensure_def
      split: sum.splits if_splits)

text \<open>
  C40. The author the RPC reports is the signer consensus checked: for every block a reachable
  engine accepts, \<open>get_author\<close> on the header's seal hash and extra data succeeds, and
  when a span was cached for the block its answer is one of that span's validators and has
  not signed a block of the window that the log still holds.
\<close>

theorem accepted_block_author:
  assumes "reachable E c e log hist"
    and "\<forall>s\<in>set hist. length (authorized_signers s) < 2 ^ 64"
    and "snd (engine_pre_execution E e h b) = Inr ()"
  shows "\<exists>a. get_author (en_crypto E) (compute_seal_hash (en_crypto E) h) (hd_extra_data h) = Inr a \<and>
    (\<forall>s. span_cache_look (bc_span_cache e) (hd_number h div 6400) = Some s \<longrightarrow>
       a \<in> set (authorized_signers s) \<and>
       (\<nexists>k. unat (hd_number h) - (length (authorized_signers s) div 2 + 1) \<le> unat k \<and>
          unat k < unat (hd_number h) \<and> bt_get (rc_signers (bc_recents e)) k = Some a))"
proof -
  have inv: "sc_inv (bc_span_cache e)" "bt_inv (rc_signers (bc_recents e))" "ss.latest (bc_span_cache e) hist"
    using engine_inv_wf [OF reachable_inv [OF assms(1)]] by simp_all
  have "length (authorized_signers s) < 2 ^ 64" if "span_cache_look (bc_span_cache e) i = Some s" for i s
    using that assms(2) ss.latest_lookup_id [OF inv(3) that] by simp
  with assms(3) engine_pre_execution_accepts [OF inv(2,1), of h E b] block_signer_author [of E h b]
  show ?thesis by (fastforce simp: signed_in_window_def sign_window_def)
qed

section \<open>Witnesses\<close>

text \<open>The client has span 0 at the first poll and span 109 at the second.\<close>

theorem prefetched_engine_authorizes_witness:
  "\<exists>p. prefetch_run True (mock_fetch_span mock_client_new) (prefetcher_new bor_consensus_new)
       [(mock_fetch_span (mock_of [span_789]), Some 100),
        (mock_fetch_span (mock_of [span_789\<lparr>sp_id := 109\<rparr>]), Some 700000)] = Inr p \<and>
     snd (engine_pre_execution demo_env (pf_consensus p) (demo_block 700000 8) demo_body) = Inr () \<and>
     snd (engine_pre_execution demo_env (pf_consensus p) (demo_block 700000 6) demo_body) \<noteq> Inr () \<and>
     snd (engine_pre_execution demo_env bor_consensus_new (demo_block 700000 6) demo_body) = Inr ()"
proof -
  let ?s = "span_789\<lparr>sp_id := 109\<rparr>"
  let ?f = "mock_fetch_span (mock_of [span_789])" and ?g = "mock_fetch_span (mock_of [?s])"
  let ?polls = "[(?f, Some (100 :: u64))] @ [(?g, Some (700000 :: u64))]"
  have new: "mock_client_new = mock_of []" by (simp add: mock_of_def)
  have f: "?f 0 = Inr span_789" "?f 109 = Inl NotFound" "?g 109 = Inr ?s" "mock_fetch_span (mock_of []) 109 = Inl NotFound"
    by (simp_all add: mock_fetch_of ok_or_def)
  have good: "\<forall>(f, poll)\<in>set ?polls. honest f \<and> (\<forall>m. poll = Some m \<longrightarrow> serves f (m div 6400))"
    using f by (simp add: honest_mock serves_def)
  have same: "\<forall>f\<in>insert (mock_fetch_span (mock_of [])) (fst ` set ?polls).
      f (700000 div 6400) = Inr ?s \<or> isl (f (700000 div 6400))"
    using f by simp
  have srt: "sorted (map (\<lambda>m. unat (m div 6400)) (List.map_filter snd ?polls))"
    by (simp add: map_filter_simps)
  have "\<forall>poll\<in>set ?polls. good_poll poll" using good by (auto simp: good_poll_def split: option.splits)
  then obtain p where p: "prefetch_run True (mock_fetch_span (mock_of [])) (prefetcher_new bor_consensus_new) ?polls = Inr p"
    using prefetch_run_covers [of "mock_fetch_span (mock_of [])" "[(?f, Some 100)]" ?g 700000 True] srt
    by (auto simp: honest_mock map_filter_simps)
  have a: "authorized_signers ?s = [7, 8, 9]"
    by (simp add: authorized_signers_def span_789_def demo_validator_def)
  note applied = prefetched_engine_authorizes [OF honest_mock good srt p same demo_block_number]
  show ?thesis
    using p applied [OF demo_signer [of 700000 8]] applied [OF demo_signer [of 700000 6]] unfolding new
    by (auto simp: a)
qed

theorem accepted_block_author_witness:
  "get_author demo_crypto (compute_seal_hash demo_crypto (demo_block 10 8)) (hd_extra_data (demo_block 10 8)) = Inr 8 \<and>
   8 \<in> set (authorized_signers span_789)"
proof -
  have c: "en_crypto demo_env = demo_crypto" by (simp add: demo_env_def)
  have "snd (engine_pre_execution demo_env engine_789 (demo_block 10 8) demo_body) = Inr ()"
    using engine_pre_execution_accepts [of engine_789 "demo_block 10 8" demo_env demo_body]
    by (simp add: demo_signer numeral_3_eq_3 bt_get_def signed_in_window_def bt_inv_def)
  from accepted_block_author [OF reachable_789 _ this]
  show ?thesis using block_signer_author [OF demo_signer, of 10 8] by (simp add: c)
qed

end
